(* ===== verification/Prelude.thy ===== *)
theory Prelude
  imports Main "HOL-Library.Word" "HOL-Library.Char_ord" "HOL-Library.List_Lexorder"
    "HOL-Library.Product_Lexorder"
begin

text \<open>
  Shared vocabulary of the development.

  \<^item> Python values: \<open>str\<close> is \<open>string\<close> (one \<open>char\<close> per code point, so the model ranges
    over the code points below 256), \<open>bytes\<close> is a list of 8-bit words, \<open>int\<close> is \<open>int\<close>. A
    \<open>datetime\<close> is either naive or carries its UTC offset; an instant counts microseconds.
  \<^item> The character classes and match shapes of the identifier patterns, and the string methods
    the validators call.
  \<^item> The collections of rules that the component theories fill: \<open>tx_simps\<close> and \<open>tx_success\<close>
    for transaction steps, \<open>row_shape\<close> for stored rows.
\<close>

named_theorems tx_simps \<open>unfolding rules of the transaction step combinators\<close>
named_theorems tx_success \<open>inversion of successful transaction steps\<close>
named_theorems row_shape \<open>well-formedness facts about stored rows\<close>

subsection \<open>Python values\<close>

type_synonym byte = "8 word"
type_synonym bytes = "byte list"
type_synonym instant = int

datatype pytime =
    Naive int          \<comment> \<open>no tzinfo\<close>
  | Aware int int      \<comment> \<open>local microseconds, UTC offset in microseconds\<close>

abbreviation utc :: "instant \<Rightarrow> pytime" where
  "utc t \<equiv> Aware t 0"

text \<open>The first and last instant a \<open>datetime\<close> can hold: years 1 and 9999.\<close>

definition min_instant :: instant where
  "min_instant = -62135596800000000"

definition max_instant :: instant where
  "max_instant = 253402300799999999"

definition in_datetime_range :: "instant \<Rightarrow> bool" where
  "in_datetime_range t = (min_instant \<le> t \<and> t \<le> max_instant)"

text \<open>Widths of the PostgreSQL integer columns.\<close>

definition MAX_BIGINT :: int where
  "MAX_BIGINT = 2 ^ 63 - 1"

definition MAX_INTEGER :: int where
  "MAX_INTEGER = 2 ^ 31 - 1"

definition lower_chars :: string where
  "lower_chars = ''abcdefghijklmnopqrstuvwxyz''"

definition upper_chars :: string where
  "upper_chars = ''ABCDEFGHIJKLMNOPQRSTUVWXYZ''"

definition digit_chars :: string where
  "digit_chars = ''0123456789''"

definition hex_chars :: string where
  "hex_chars = ''0123456789abcdef''"

definition alnum_chars :: string where
  "alnum_chars = upper_chars @ lower_chars @ digit_chars"

lemmas char_class_defs = lower_chars_def upper_chars_def digit_chars_def hex_chars_def
  alnum_chars_def

text \<open>
  A full match of \<open>[first][rest]{0,n}\<close>, the shape of every bounded identifier pattern here.
\<close>

definition head_then :: "string \<Rightarrow> string \<Rightarrow> nat \<Rightarrow> string \<Rightarrow> bool" where
  "head_then first rest n s =
     (case s of [] \<Rightarrow> False
      | c # cs \<Rightarrow> c \<in> set first \<and> length cs \<le> n \<and> (\<forall>d \<in> set cs. d \<in> set rest))"

lemma head_then_length: "head_then first rest n s \<Longrightarrow> 0 < length s \<and> length s \<le> Suc n"
  by (cases s) (auto simp: head_then_def)

lemma head_then_chars:
  "head_then first rest n s \<Longrightarrow> set s \<subseteq> set first \<union> set rest"
  by (cases s) (auto simp: head_then_def)

text \<open>A full match of \<open>[0-9a-f]{n}\<close>.\<close>

definition lower_hex :: "nat \<Rightarrow> string \<Rightarrow> bool" where
  "lower_hex n s = (length s = n \<and> (\<forall>c \<in> set s. c \<in> set hex_chars))"

lemma lower_hex_append:
  "lower_hex m s \<Longrightarrow> lower_hex n t \<Longrightarrow> lower_hex (m + n) (s @ t)"
  by (auto simp: lower_hex_def)

text \<open>\<open>str.isspace\<close> and \<open>str.strip\<close> on the code points below 256.\<close>

definition py_space :: "char \<Rightarrow> bool" where
  "py_space c = ((of_char c :: nat) \<in> {9, 10, 11, 12, 13, 28, 29, 30, 31, 32, 133, 160})"

definition py_strip :: "string \<Rightarrow> string" where
  "py_strip s = rev (dropWhile py_space (rev (dropWhile py_space s)))"

lemma py_strip_empty_iff: "py_strip s = [] \<longleftrightarrow> (\<forall>c \<in> set s. py_space c)"
proof -
  have "py_strip s = [] \<longleftrightarrow> (\<forall>c \<in> set (dropWhile py_space s). py_space c)"
    by (simp add: py_strip_def)
  also have "\<dots> \<longleftrightarrow> (\<forall>c \<in> set s. py_space c)"
    by (induction s) auto
  finally show ?thesis .
qed

text \<open>\<open>str.lower\<close> on the code points below 256 (ASCII and Latin-1 capitals).\<close>

definition py_lower_char :: "char \<Rightarrow> char" where
  "py_lower_char c =
     (let n = of_char c :: nat
      in if 65 \<le> n \<and> n \<le> 90 \<or> 192 \<le> n \<and> n \<le> 222 \<and> n \<noteq> 215 then char_of (n + 32) else c)"

definition py_lower :: "string \<Rightarrow> string" where
  "py_lower s = map py_lower_char s"

lemma length_py_lower [simp]: "length (py_lower s) = length s"
  by (simp add: py_lower_def)

subsection \<open>Searching a list\<close>

lemma find_SomeD: "List.find p xs = Some x \<Longrightarrow> x \<in> set xs \<and> p x"
  by (auto simp: find_Some_iff)

end
