(* ===== verification/Errors.thy ===== *)
theory Errors
  imports Prelude
begin

text \<open>
  The exception hierarchy of \<open>errors.py\<close> and \<open>repositories/__init__.py\<close>: classes with
  their default codes, the selection of an error's code and the bounded diagnostic metadata.
  An error value keeps its class and code; message texts are not modelled. Errors of the
  database driver and of Python itself are separate constructors.
\<close>

datatype plane_class =
    PlaneError | PoolClosedError | PoolCheckoutError | PoolInUseError | ConnectionResetError
  | PoolReleaseError | PoolShutdownError | TransactionStateError | TransactionStatementError
  | TransactionCleanupError | TransactionCommitError | TransactionCommitOutcomeUnknownError
  | TransactionRollbackError | SQLContractError | SchemaRevisionError | MigrationDefinitionError
  | InitializationError | ReconciliationError | DomainValidationError | RepositoryError
  | RepositoryConflictError | RepositoryDataError | RepositoryNotFoundError
  | RepositoryValidationError | AuditRetentionError | AuthorityIdempotencyConflictError
  | AuthorityCompareAndSetConflictError | ReceiptClaimConflictError
  | ReceiptWatermarkConflictError | StopEpochConflictError | OwnerStoppedError

fun default_code :: "plane_class \<Rightarrow> string" where
  "default_code PlaneError = ''plane_error''"
| "default_code PoolClosedError = ''pool_closed''"
| "default_code PoolCheckoutError = ''pool_checkout_failed''"
| "default_code PoolInUseError = ''pool_in_use''"
| "default_code ConnectionResetError = ''connection_reset_failed''"
| "default_code PoolReleaseError = ''pool_release_failed''"
| "default_code PoolShutdownError = ''pool_shutdown_failed''"
| "default_code TransactionStateError = ''transaction_state''"
| "default_code TransactionStatementError = ''transaction_statement_failed''"
| "default_code TransactionCleanupError = ''transaction_cleanup_failed''"
| "default_code TransactionCommitError = ''transaction_commit_failed''"
| "default_code TransactionCommitOutcomeUnknownError = ''transaction_commit_outcome_unknown''"
| "default_code TransactionRollbackError = ''transaction_rollback_failed''"
| "default_code SQLContractError = ''sql_contract''"
| "default_code SchemaRevisionError = ''schema_revision_incompatible''"
| "default_code MigrationDefinitionError = ''migration_definition''"
| "default_code InitializationError = ''initialization_failed''"
| "default_code ReconciliationError = ''reconciliation_failed''"
| "default_code DomainValidationError = ''domain_validation''"
| "default_code RepositoryError = ''repository_error''"
| "default_code RepositoryConflictError = ''repository_conflict''"
| "default_code RepositoryDataError = ''repository_data_invalid''"
| "default_code RepositoryNotFoundError = ''repository_not_found''"
| "default_code RepositoryValidationError = ''repository_validation''"
| "default_code AuditRetentionError = ''audit_retention_failed''"
| "default_code AuthorityIdempotencyConflictError = ''authority_idempotency_conflict''"
| "default_code AuthorityCompareAndSetConflictError = ''authority_compare_and_set_conflict''"
| "default_code ReceiptClaimConflictError = ''authority_receipt_claim_conflict''"
| "default_code ReceiptWatermarkConflictError = ''authority_receipt_watermark_conflict''"
| "default_code StopEpochConflictError = ''stop_epoch_conflict''"
| "default_code OwnerStoppedError = ''owner_stopped''"

text \<open>The classes whose instances make the connection unusable (\<open>discard_connection\<close>).\<close>

fun discard_connection :: "plane_class \<Rightarrow> bool" where
  "discard_connection TransactionStatementError = True"
| "discard_connection TransactionCleanupError = True"
| "discard_connection TransactionCommitOutcomeUnknownError = True"
| "discard_connection TransactionRollbackError = True"
| "discard_connection _ = False"

subsection \<open>What a statement of the driver can fail with\<close>

text \<open>\<open>RowRejected\<close> is a failed \<open>CHECK\<close> clause or a value outside its column's range.\<close>

datatype sql_error =
    RowRejected | UniqueViolation | ForeignKeyViolation | InsufficientPrivilege
  | InvalidTextRepresentation

datatype plane_error =
    Raised plane_class string
  | PyValueError
  | PyTypeError
  | PyOverflowError
  | DriverError sql_error
  | OperationalError  \<comment> \<open>any other exception of the driver, such as a lost connection\<close>
  | PyInterrupt       \<comment> \<open>a \<open>BaseException\<close> that is no \<open>Exception\<close>\<close>

type_synonym 'a res = "plane_error + 'a"

abbreviation err :: "plane_class \<Rightarrow> plane_error" where
  "err c \<equiv> Raised c (default_code c)"

abbreviation err_code :: "plane_class \<Rightarrow> string \<Rightarrow> plane_error" where
  "err_code c code \<equiv> Raised c code"

subsection \<open>Codes and metadata of an error\<close>

definition MAX_METADATA_ENTRIES :: nat where "MAX_METADATA_ENTRIES = 16"
definition MAX_METADATA_KEY_LENGTH :: nat where "MAX_METADATA_KEY_LENGTH = 64"
definition MAX_METADATA_VALUE_LENGTH :: nat where "MAX_METADATA_VALUE_LENGTH = 512"
definition MAX_CODE_LENGTH :: nat where "MAX_CODE_LENGTH = 64"

lemmas metadata_limits = MAX_METADATA_ENTRIES_def MAX_METADATA_KEY_LENGTH_def
  MAX_METADATA_VALUE_LENGTH_def MAX_CODE_LENGTH_def

text \<open>A full match of \<open>[A-Za-z0-9][A-Za-z0-9._:-]*\<close>.\<close>

definition error_identifier :: "string \<Rightarrow> bool" where
  "error_identifier s =
     (case s of [] \<Rightarrow> False
      | c # cs \<Rightarrow> c \<in> set alnum_chars \<and> (\<forall>d \<in> set cs. d \<in> set (alnum_chars @ ''._:-'')))"

definition resolve_code :: "string option \<Rightarrow> string \<Rightarrow> string res" where
  "resolve_code code dflt =
     (let selected = (case code of Some c \<Rightarrow> if c = [] then dflt else c | None \<Rightarrow> dflt)
      in if MAX_CODE_LENGTH < length selected then Inl PyValueError
         else if \<not> error_identifier selected then Inl PyValueError
         else Inr selected)"

text \<open>
  A metadata value is a string, a small scalar already rendered by \<open>str\<close>, an integer of more
  than 1700 bits, or anything else.
\<close>

datatype diagnostic = DText string | DScalar string | DHugeInt | DOther

definition is_control :: "char \<Rightarrow> bool" where
  "is_control c = (let n = of_char c :: nat in n \<le> 31 \<or> 127 \<le> n \<and> n \<le> 159)"

definition hex2 :: "nat \<Rightarrow> string" where
  "hex2 n = [hex_chars ! (n div 16 mod 16), hex_chars ! (n mod 16)]"

definition escape_controls :: "string \<Rightarrow> string" where
  "escape_controls s =
     concat (map (\<lambda>c. if is_control c then [CHR 0x5C, CHR ''x''] @ hex2 (of_char c) else [c]) s)"

fun diagnostic_value :: "diagnostic \<Rightarrow> string" where
  "diagnostic_value (DText s) =
     take MAX_METADATA_VALUE_LENGTH (escape_controls (take MAX_METADATA_VALUE_LENGTH s))"
| "diagnostic_value (DScalar s) = take MAX_METADATA_VALUE_LENGTH (escape_controls s)"
| "diagnostic_value DHugeInt = ''<unsupported>''"
| "diagnostic_value DOther = ''<unsupported>''"

definition metadata_key_ok :: "string \<Rightarrow> bool" where
  "metadata_key_ok k = (length k \<le> MAX_METADATA_KEY_LENGTH \<and> error_identifier k)"

definition bounded_metadata :: "(string \<times> diagnostic) list \<Rightarrow> (string \<times> string) list res" where
  "bounded_metadata md =
     (if list_all (\<lambda>(k, _). metadata_key_ok k) md
      then Inr (map (\<lambda>(k, v). (k, diagnostic_value v))
                  (take MAX_METADATA_ENTRIES (sort_key fst md)))
      else Inl PyValueError)"

subsection \<open>Lemmas\<close>

lemma hex_char_nth_control: "\<not> is_control (hex_chars ! (n mod 16))"
proof -
  have "hex_chars ! (n mod 16) \<in> set hex_chars"
    by (rule nth_mem) (simp add: hex_chars_def)
  moreover have "\<forall>c \<in> set hex_chars. \<not> is_control c"
    by (simp add: hex_chars_def is_control_def)
  ultimately show ?thesis by blast
qed

lemma escape_controls_clean: "\<forall>c \<in> set (escape_controls s). \<not> is_control c"
  by (auto simp: escape_controls_def hex2_def hex_char_nth_control)
    (simp_all add: is_control_def)

lemma diagnostic_value_clean: "\<forall>c \<in> set (diagnostic_value v). \<not> is_control c"
proof (cases v)
  case (DText s)
  then show ?thesis using escape_controls_clean by (auto dest: in_set_takeD)
next
  case (DScalar s)
  then show ?thesis using escape_controls_clean by (auto dest: in_set_takeD)
qed (simp_all add: is_control_def)

lemma diagnostic_value_bounded: "length (diagnostic_value v) \<le> MAX_METADATA_VALUE_LENGTH"
  by (cases v) (simp_all add: metadata_limits)

lemma bounded_metadata_entries:
  assumes "bounded_metadata md = Inr out"
  shows "length out \<le> MAX_METADATA_ENTRIES"
    and "(k, v) \<in> set out \<Longrightarrow> metadata_key_ok k"
    and "(k, v) \<in> set out \<Longrightarrow> \<exists>d. v = diagnostic_value d"
proof -
  from assms have keys: "list_all (\<lambda>(k, _). metadata_key_ok k) md"
    and out: "out = map (\<lambda>(k, v). (k, diagnostic_value v)) (take MAX_METADATA_ENTRIES (sort_key fst md))"
    by (simp_all add: bounded_metadata_def split: if_splits)
  show "length out \<le> MAX_METADATA_ENTRIES" by (simp add: out)
  show "\<exists>d. v = diagnostic_value d" if "(k, v) \<in> set out" using that by (auto simp: out)
  show "metadata_key_ok k" if "(k, v) \<in> set out"
    using that keys by (auto simp: out list_all_iff dest!: in_set_takeD)
qed

text \<open>
  Whatever mapping a caller passes, the metadata an error carries is bounded and printable:
  at most 16 entries, each value at most 512 characters with no control character left, each key
  a bounded identifier, and the keys in ascending order.
\<close>

theorem bounded_metadata_safe:
  assumes "bounded_metadata md = Inr out"
  shows "length out \<le> 16 \<and> sorted (map fst out) \<and>
    (\<forall>(k, v) \<in> set out. length k \<le> 64 \<and> length v \<le> 512 \<and> (\<forall>c \<in> set v. \<not> is_control c))"
proof (intro conjI)
  show "length out \<le> 16"
    using bounded_metadata_entries(1) [OF assms] by (simp add: metadata_limits)
  from assms have "map fst out = take MAX_METADATA_ENTRIES (map fst (sort_key fst md))"
    by (auto simp: bounded_metadata_def take_map comp_def split_def split: if_splits)
  then show "sorted (map fst out)"
    by (simp add: sorted_wrt_take)
  show "\<forall>(k, v) \<in> set out. length k \<le> 64 \<and> length v \<le> 512 \<and> (\<forall>c \<in> set v. \<not> is_control c)"
  proof (safe)
    fix k v assume kv: "(k, v) \<in> set out"
    from bounded_metadata_entries(2) [OF assms kv] show "length k \<le> 64"
      by (simp add: metadata_key_ok_def metadata_limits)
    from bounded_metadata_entries(3) [OF assms kv] obtain d where d: "v = diagnostic_value d" ..
    then show "length v \<le> 512"
      using diagnostic_value_bounded [of d] by (simp add: metadata_limits)
    fix c assume "c \<in> set v" and "is_control c"
    then show False using diagnostic_value_clean [of d] d by blast
  qed
qed

theorem bounded_metadata_safe_witness:
  "bounded_metadata [(''owner'', DText [CHR 0x0A]), (''limit'', DHugeInt)]
     = Inr [(''limit'', ''<unsupported>''), (''owner'', [CHR 0x5C] @ ''x0a'')] \<and>
   length [(''limit'', ''<unsupported>''), (''owner'', [CHR 0x5C] @ ''x0a'')] \<le> 16"
proof -
  have h: "bounded_metadata [(''owner'', DText [CHR 0x0A]), (''limit'', DHugeInt)]
     = Inr [(''limit'', ''<unsupported>''), (''owner'', [CHR 0x5C] @ ''x0a'')]"
    by code_simp
  show ?thesis using h bounded_metadata_safe [OF h] by blast
qed

end
