(* ===== verification/Sql.thy ===== *)
theory Sql
  imports Errors
begin

text \<open>
  Transaction steps and stored tables.

  A repository method is a step \<open>('s, 'a) tx\<close>: a function from the tables to a result and to
  the tables as they are when the method returns or raises. Writes made before a raise stay in
  that state; a savepoint discards them. A table is the list of its rows. The statements of the
  source are written with the functions \<open>sql_insert\<close>, \<open>sql_insert_or_skip\<close>, \<open>sql_update\<close> and
  \<open>sql_delete\<close>, which take the row constraint (column ranges and \<open>CHECK\<close> clauses) and the
  uniqueness conflicts of the table from its \<open>CREATE TABLE\<close> and fail the way PostgreSQL does.

  The locales state the contracts the repositories rely on: \<open>checked_table\<close> (every statement
  keeps the constraints), \<open>keyed_table\<close> (a primary key selects at most one row),
  \<open>fenced_table\<close> (rows carry a version that only grows), \<open>step_order\<close> (a relation between
  the state before and after that composes along a step) and \<open>fenced_machine\<close> (a set of
  operations under which an observed version stays a sound fence).
\<close>

subsection \<open>Transaction steps\<close>

type_synonym ('s, 'a) tx = "'s \<Rightarrow> 'a res \<times> 's"

definition tx_return :: "'a \<Rightarrow> ('s, 'a) tx" where
  [tx_simps]: "tx_return x s = (Inr x, s)"

definition tx_raise :: "plane_error \<Rightarrow> ('s, 'a) tx" where
  [tx_simps]: "tx_raise e s = (Inl e, s)"

definition tx_lift :: "'a res \<Rightarrow> ('s, 'a) tx" where
  [tx_simps]: "tx_lift r s = (r, s)"

definition tx_require :: "bool \<Rightarrow> plane_error \<Rightarrow> ('s, unit) tx" where
  [tx_simps]: "tx_require b e s = (if b then Inr () else Inl e, s)"

definition tx_read :: "('s \<Rightarrow> 'a) \<Rightarrow> ('s, 'a) tx" where
  [tx_simps]: "tx_read f s = (Inr (f s), s)"

definition tx_stmt :: "('s \<Rightarrow> sql_error + 'a \<times> 's) \<Rightarrow> ('s, 'a) tx" where
  "tx_stmt f s = (case f s of Inl e \<Rightarrow> (Inl (DriverError e), s) | Inr (x, t) \<Rightarrow> (Inr x, t))"

definition tx_bind :: "('s, 'a) tx \<Rightarrow> ('a \<Rightarrow> ('s, 'b) tx) \<Rightarrow> ('s, 'b) tx" where
  "tx_bind m k s = (case m s of (Inl e, t) \<Rightarrow> (Inl e, t) | (Inr x, t) \<Rightarrow> k x t)"

text \<open>
  A savepoint block: what it wrote is undone when it raises. The connection-level behaviour of
  such a block, faults of the driver included, is the subject of the theory of transactions.
\<close>

definition tx_savepoint :: "('s, 'a) tx \<Rightarrow> ('s, 'a) tx" where
  "tx_savepoint m s = (case m s of (Inl e, _) \<Rightarrow> (Inl e, s) | (Inr x, t) \<Rightarrow> (Inr x, t))"

text \<open>One check after another, without state.\<close>

definition res_bind :: "'a res \<Rightarrow> ('a \<Rightarrow> 'b res) \<Rightarrow> 'b res" where
  "res_bind r k = (case r of Inl e \<Rightarrow> Inl e | Inr x \<Rightarrow> k x)"

lemma res_bind_simps [simp]: "res_bind (Inl e) k = Inl e" "res_bind (Inr x) k = k x"
  by (simp_all add: res_bind_def)

lemma res_bind_Inr_iff: "res_bind r k = Inr y \<longleftrightarrow> (\<exists>x. r = Inr x \<and> k x = Inr y)"
  by (cases r) auto

text \<open>The validators of a tuple argument run element by element and stop at the first error.\<close>

fun traverse :: "('a \<Rightarrow> 'b res) \<Rightarrow> 'a list \<Rightarrow> 'b list res" where
  "traverse f [] = Inr []"
| "traverse f (x # xs) =
     (case f x of Inl e \<Rightarrow> Inl e
      | Inr y \<Rightarrow> (case traverse f xs of Inl e \<Rightarrow> Inl e | Inr ys \<Rightarrow> Inr (y # ys)))"

lemma tx_bind_Inr [simp]: "m s = (Inr x, t) \<Longrightarrow> tx_bind m k s = k x t"
  by (simp add: tx_bind_def)

lemma tx_bind_Inl [simp]: "m s = (Inl e, t) \<Longrightarrow> tx_bind m k s = (Inl e, t)"
  by (simp add: tx_bind_def)

lemma tx_bind_simps [tx_simps]:
  "tx_bind (tx_return x) k s = k x s"
  "tx_bind (tx_raise e) k s = (Inl e, s)"
  "tx_bind (tx_read f) k s = k (f s) s"
  "tx_bind (tx_require b e) c s = (if b then c () s else (Inl e, s))"
  "tx_bind (tx_lift (Inr x)) k s = k x s"
  "tx_bind (tx_lift (Inl e)) k s = (Inl e, s)"
  by (simp_all add: tx_bind_def tx_return_def tx_raise_def tx_read_def tx_require_def tx_lift_def)

lemma tx_bind_stmt:
  "f s = Inr (x, t) \<Longrightarrow> tx_bind (tx_stmt f) k s = k x t"
  "f s = Inl d \<Longrightarrow> tx_bind (tx_stmt f) k s = (Inl (DriverError d), s)"
  by (simp_all add: tx_bind_def tx_stmt_def)

lemma tx_bind_success [tx_success]:
  "tx_bind m k s = (Inr y, s') \<longleftrightarrow> (\<exists>x t. m s = (Inr x, t) \<and> k x t = (Inr y, s'))"
  by (auto simp: tx_bind_def split: prod.splits sum.splits)

lemma tx_basic_success [tx_success]:
  "tx_return x s = (Inr y, s') \<longleftrightarrow> y = x \<and> s' = s"
  "tx_raise e s = (Inr y, s') \<longleftrightarrow> False"
  "tx_lift r s = (Inr y, s') \<longleftrightarrow> r = Inr y \<and> s' = s"
  "tx_require b e s = (Inr u, s') \<longleftrightarrow> b \<and> s' = s"
  "tx_read f s = (Inr y, s') \<longleftrightarrow> y = f s \<and> s' = s"
  by (auto simp: tx_return_def tx_raise_def tx_lift_def tx_require_def tx_read_def)

lemma tx_savepoint_success [tx_success]: "tx_savepoint m s = (Inr y, s') \<longleftrightarrow> m s = (Inr y, s')"
  by (auto simp: tx_savepoint_def split: sum.splits prod.splits)

lemma tx_savepoint_failure: "tx_savepoint m s = (Inl e, s') \<longleftrightarrow> s' = s \<and> (\<exists>t. m s = (Inl e, t))"
  by (auto simp: tx_savepoint_def split: sum.splits prod.splits)

lemma tx_stmt_success [tx_success]: "tx_stmt f s = (Inr y, s') \<longleftrightarrow> f s = Inr (y, s')"
  by (auto simp: tx_stmt_def split: sum.splits prod.splits)

lemma tx_case_success [tx_success]:
  "(case v of None \<Rightarrow> a | Some x \<Rightarrow> b x) s = (Inr y, s') \<longleftrightarrow>
     v = None \<and> a s = (Inr y, s') \<or> (\<exists>x. v = Some x \<and> b x s = (Inr y, s'))"
  "(case xs of [] \<Rightarrow> a | z # zs \<Rightarrow> c z zs) s = (Inr y, s') \<longleftrightarrow>
     xs = [] \<and> a s = (Inr y, s') \<or> (\<exists>z zs. xs = z # zs \<and> c z zs s = (Inr y, s'))"
  "(if p then a else e) s = (Inr y, s') \<longleftrightarrow>
     p \<and> a s = (Inr y, s') \<or> \<not> p \<and> e s = (Inr y, s')"
  by (auto split: option.splits list.splits)

lemma tx_case_failure:
  "(case v of None \<Rightarrow> a | Some x \<Rightarrow> b x) s = (Inl y, s') \<longleftrightarrow>
     v = None \<and> a s = (Inl y, s') \<or> (\<exists>x. v = Some x \<and> b x s = (Inl y, s'))"
  "(case xs of [] \<Rightarrow> a | z # zs \<Rightarrow> c z zs) s = (Inl y, s') \<longleftrightarrow>
     xs = [] \<and> a s = (Inl y, s') \<or> (\<exists>z zs. xs = z # zs \<and> c z zs s = (Inl y, s'))"
  "(if p then a else e) s = (Inl y, s') \<longleftrightarrow>
     p \<and> a s = (Inl y, s') \<or> \<not> p \<and> e s = (Inl y, s')"
  by (auto split: option.splits list.splits)

lemma tx_bind_failure:
  "tx_bind m k s = (Inl e, s') \<longleftrightarrow>
     m s = (Inl e, s') \<or> (\<exists>x t. m s = (Inr x, t) \<and> k x t = (Inl e, s'))"
  by (auto simp: tx_bind_def split: prod.splits sum.splits)

lemma tx_basic_failure:
  "tx_return x s = (Inl e, s') \<longleftrightarrow> False"
  "tx_raise e' s = (Inl e, s') \<longleftrightarrow> e = e' \<and> s' = s"
  "tx_lift r s = (Inl e, s') \<longleftrightarrow> r = Inl e \<and> s' = s"
  "tx_require b e' s = (Inl e, s') \<longleftrightarrow> \<not> b \<and> e = e' \<and> s' = s"
  "tx_read f s = (Inl e, s') \<longleftrightarrow> False"
  by (auto simp: tx_return_def tx_raise_def tx_lift_def tx_require_def tx_read_def)

lemma tx_stmt_failure:
  "tx_stmt f s = (Inl e, s') \<longleftrightarrow> (\<exists>d. f s = Inl d \<and> e = DriverError d) \<and> s' = s"
  by (auto simp: tx_stmt_def split: sum.splits prod.splits)

lemmas tx_failure = tx_bind_failure tx_basic_failure tx_stmt_failure tx_savepoint_failure
  tx_case_failure

lemma traverse_Inr_iff: "traverse f xs = Inr ys \<longleftrightarrow> list_all2 (\<lambda>x y. f x = Inr y) xs ys"
proof (induction xs arbitrary: ys)
  case (Cons x xs)
  have "traverse f (x # xs) = Inr ys \<longleftrightarrow>
      (\<exists>z zs. f x = Inr z \<and> traverse f xs = Inr zs \<and> ys = z # zs)"
    by (auto split: sum.splits)
  then show ?case by (auto simp: Cons.IH list_all2_Cons1 simp del: traverse.simps)
qed auto

lemma traverse_map: "(\<And>x. x \<in> set xs \<Longrightarrow> f x = Inr (g x)) \<Longrightarrow> traverse f xs = Inr (map g xs)"
  by (induction xs) auto

lemma traverse_set: "traverse f xs = Inr ys \<Longrightarrow> y \<in> set ys \<Longrightarrow> \<exists>x \<in> set xs. f x = Inr y"
  by (induction xs arbitrary: ys) (auto split: sum.splits)

lemma list_all2_source: "list_all2 P xs ys \<Longrightarrow> y \<in> set ys \<Longrightarrow> \<exists>x \<in> set xs. P x y"
  by (induction rule: list_all2_induct) auto

subsection \<open>Tables\<close>

fun conflict_free :: "('r \<Rightarrow> 'r \<Rightarrow> bool) \<Rightarrow> 'r list \<Rightarrow> bool" where
  "conflict_free conf [] = True"
| "conflict_free conf (r # t) = ((\<forall>s \<in> set t. \<not> conf r s) \<and> conflict_free conf t)"

definition table_ok :: "('r \<Rightarrow> bool) \<Rightarrow> ('r \<Rightarrow> 'r \<Rightarrow> bool) \<Rightarrow> 'r list \<Rightarrow> bool" where
  "table_ok ok conf t = ((\<forall>r \<in> set t. ok r) \<and> conflict_free conf t)"

text \<open>\<open>INSERT\<close>: row constraints first, then the unique indexes.\<close>

definition sql_insert ::
  "('r \<Rightarrow> bool) \<Rightarrow> ('r \<Rightarrow> 'r \<Rightarrow> bool) \<Rightarrow> 'r \<Rightarrow> 'r list \<Rightarrow> sql_error + 'r \<times> 'r list" where
  "sql_insert ok conf r t =
     (if \<not> ok r then Inl RowRejected
      else if \<exists>s \<in> set t. conf r s then Inl UniqueViolation
      else Inr (r, t @ [r]))"

text \<open>
  \<open>INSERT ... ON CONFLICT (...) DO NOTHING\<close>: a conflict on the arbiter index skips the row, a
  conflict on another unique index is an error.
\<close>

definition sql_insert_or_skip ::
  "('r \<Rightarrow> bool) \<Rightarrow> ('r \<Rightarrow> 'r \<Rightarrow> bool) \<Rightarrow> ('r \<Rightarrow> 'r \<Rightarrow> bool) \<Rightarrow> 'r \<Rightarrow> 'r list
     \<Rightarrow> sql_error + 'r option \<times> 'r list" where
  "sql_insert_or_skip ok arbiter conf r t =
     (if \<not> ok r then Inl RowRejected
      else if \<exists>s \<in> set t. arbiter r s then Inr (None, t)
      else if \<exists>s \<in> set t. conf r s then Inl UniqueViolation
      else Inr (Some r, t @ [r]))"

text \<open>
  \<open>INSERT ... ON CONFLICT DO NOTHING\<close> into a table with foreign keys: a conflict on any unique
  index skips the row, a row that is stored must find what it refers to.
\<close>

definition sql_insert_referencing ::
  "('r \<Rightarrow> bool) \<Rightarrow> ('r \<Rightarrow> 'r \<Rightarrow> bool) \<Rightarrow> bool \<Rightarrow> 'r \<Rightarrow> 'r list \<Rightarrow> sql_error + 'r option \<times> 'r list" where
  "sql_insert_referencing ok conf refs r t =
     (if \<not> ok r then Inl RowRejected
      else if \<exists>s \<in> set t. conf r s then Inr (None, t)
      else if \<not> refs then Inl ForeignKeyViolation
      else Inr (Some r, t @ [r]))"

text \<open>\<open>UPDATE ... SET ... WHERE ... RETURNING\<close>: the updated rows and the new table.\<close>

definition sql_update ::
  "('r \<Rightarrow> bool) \<Rightarrow> ('r \<Rightarrow> 'r \<Rightarrow> bool) \<Rightarrow> ('r \<Rightarrow> bool) \<Rightarrow> ('r \<Rightarrow> 'r) \<Rightarrow> 'r list
     \<Rightarrow> sql_error + 'r list \<times> 'r list" where
  "sql_update ok conf w f t =
     (let t' = map (\<lambda>r. if w r then f r else r) t
      in if \<exists>r \<in> set t. w r \<and> \<not> ok (f r) then Inl RowRejected
         else if \<not> conflict_free conf t' then Inl UniqueViolation
         else Inr (map f (filter w t), t'))"

text \<open>A \<open>TEXT\<close> column holds no NUL character; the driver refuses a value with one.\<close>

definition pg_text :: "string \<Rightarrow> bool" where
  "pg_text s = (CHR 0x00 \<notin> set s)"

definition text_parameter :: "string \<Rightarrow> ('s, unit) tx" where
  "text_parameter s = tx_require (pg_text s) (DriverError InvalidTextRepresentation)"

definition sql_delete :: "('r \<Rightarrow> bool) \<Rightarrow> 'r list \<Rightarrow> 'r list \<times> 'r list" where
  "sql_delete w t = (filter w t, filter (\<lambda>r. \<not> w r) t)"

definition sql_page :: "('r \<Rightarrow> bool) \<Rightarrow> ('r \<Rightarrow> 'k::linorder) \<Rightarrow> nat \<Rightarrow> 'r list \<Rightarrow> 'r list" where
  "sql_page w k n t = take n (sort_key k (filter w t))"

text \<open>\<open>ORDER BY\<close> a descending key.\<close>

definition sql_page_desc :: "('r \<Rightarrow> bool) \<Rightarrow> ('r \<Rightarrow> 'k::linorder) \<Rightarrow> nat \<Rightarrow> 'r list \<Rightarrow> 'r list" where
  "sql_page_desc w k n t = take n (rev (sort_key k (filter w t)))"

abbreviation first_row :: "'r list \<Rightarrow> 'r option" where
  "first_row rows \<equiv> (case rows of [] \<Rightarrow> None | r # _ \<Rightarrow> Some r)"

lemma first_row_iff:
  "first_row rows = Some r \<longleftrightarrow> (\<exists>rs. rows = r # rs)" "first_row rows = None \<longleftrightarrow> rows = []"
  by (cases rows; auto)+

lemma sql_update_returned:
  assumes "sql_update ok conf w f t = Inr (q # rows, t')"
  shows "q \<in> set t'" and "\<exists>r \<in> set t. w r \<and> q = f r"
proof -
  from assms have q: "q # rows = map f (filter w t)" and t': "t' = map (\<lambda>r. if w r then f r else r) t"
    by (auto simp: sql_update_def Let_def split: if_splits)
  have "q \<in> set (map f (filter w t))" by (simp flip: q)
  then show "\<exists>r \<in> set t. w r \<and> q = f r" by auto
  then show "q \<in> set t'" by (force simp: t')
qed

lemma conflict_free_append:
  "conflict_free conf (t @ u) \<longleftrightarrow>
     conflict_free conf t \<and> conflict_free conf u \<and> (\<forall>r \<in> set t. \<forall>s \<in> set u. \<not> conf r s)"
  by (induction t) auto

lemma conflict_free_filter: "conflict_free conf t \<Longrightarrow> conflict_free conf (filter p t)"
  by (induction t) auto

lemma conflict_free_map:
  assumes "\<And>r s. r \<in> set t \<Longrightarrow> s \<in> set t \<Longrightarrow> conf (f r) (f s) \<Longrightarrow> conf r s"
    and "conflict_free conf t"
  shows "conflict_free conf (map f t)"
  using assms
proof (induction t)
  case (Cons r t)
  then have "conflict_free conf (map f t)" by simp
  moreover have "\<not> conf (f r) (f s)" if "s \<in> set t" for s
    using Cons.prems that by fastforce
  ultimately show ?case by simp
qed simp

lemma sql_page_sound:
  assumes "r \<in> set (sql_page w k n t)"
  shows "r \<in> set t" and "w r"
  using assms by (auto simp: sql_page_def dest: in_set_takeD)

lemma length_sql_page: "length (sql_page w k n t) \<le> n"
  by (simp add: sql_page_def)

lemma sorted_sql_page: "sorted (map k (sql_page w k n t))"
  by (simp add: sql_page_def take_map [symmetric] sorted_wrt_take)

text \<open>Nothing that the page leaves out sorts before something it holds.\<close>

lemma sql_page_minimal:
  assumes r: "r \<in> set (sql_page w k n t)"
    and s: "s \<in> set t" "w s" "s \<notin> set (sql_page w k n t)"
  shows "k r \<le> k s"
proof -
  let ?xs = "sort_key k (filter w t)"
  from s have "s \<in> set ?xs" by simp
  moreover have "set ?xs = set (take n ?xs) \<union> set (drop n ?xs)"
    by (metis append_take_drop_id set_append)
  ultimately have "s \<in> set (drop n ?xs)" using s(3) by (auto simp: sql_page_def)
  moreover have "sorted (map k (take n ?xs @ drop n ?xs))" by simp
  ultimately show ?thesis
    using r by (auto simp: sql_page_def sorted_append simp del: append_take_drop_id)
qed

lemma sql_page_full:
  assumes "s \<in> set t" and "w s" and "s \<notin> set (sql_page w k n t)"
  shows "length (sql_page w k n t) = n"
proof (rule ccontr)
  assume "length (sql_page w k n t) \<noteq> n"
  then have "length (sort_key k (filter w t)) \<le> n" by (simp add: sql_page_def)
  then have "sql_page w k n t = sort_key k (filter w t)" by (simp add: sql_page_def)
  with assms show False by simp
qed

lemma distinct_singleton_list: "distinct xs \<Longrightarrow> set xs = {x} \<Longrightarrow> xs = [x]"
proof (cases xs)
  case (Cons y ys)
  assume "distinct xs" "set xs = {x}"
  with Cons have "y = x" "x \<notin> set ys" "set ys \<subseteq> {x}" by auto
  then have "ys = []" by (cases ys) auto
  with Cons \<open>y = x\<close> show ?thesis by simp
qed simp

lemma find_filter: "List.find p t = first_row (filter p t)"
  by (induction t) auto

subsection \<open>Contracts\<close>

locale checked_table =
  fixes ok :: "'r \<Rightarrow> bool"
    and conf :: "'r \<Rightarrow> 'r \<Rightarrow> bool"
  assumes conf_sym: "conf r s \<Longrightarrow> conf s r"
begin

lemma table_ok_insert:
  assumes "table_ok ok conf t" and "sql_insert ok conf r t = Inr (r', t')"
  shows "table_ok ok conf t' \<and> r' = r \<and> t' = t @ [r]"
  using assms
  by (auto simp: table_ok_def sql_insert_def conflict_free_append split: if_splits)
    (metis conf_sym)

lemma table_ok_insert_or_skip:
  assumes "table_ok ok conf t" and "sql_insert_or_skip ok arbiter conf r t = Inr (x, t')"
  shows "table_ok ok conf t'"
  using assms
  by (auto simp: table_ok_def sql_insert_or_skip_def conflict_free_append split: if_splits)
    (metis conf_sym)

lemma table_ok_insert_referencing:
  assumes "table_ok ok conf t" and "sql_insert_referencing ok conf refs r t = Inr (x, t')"
  shows "table_ok ok conf t'"
  using assms
  by (auto simp: table_ok_def sql_insert_referencing_def conflict_free_append split: if_splits)
    (metis conf_sym)

lemma table_ok_update:
  assumes "table_ok ok conf t" and "sql_update ok conf w f t = Inr (rows, t')"
  shows "table_ok ok conf t'"
  using assms by (auto simp: table_ok_def sql_update_def Let_def split: if_splits)

lemma table_ok_delete: "table_ok ok conf t \<Longrightarrow> table_ok ok conf (snd (sql_delete w t))"
  by (auto simp: table_ok_def sql_delete_def conflict_free_filter)

text \<open>An update that keeps the row constraint and moves no row into a conflict cannot fail.\<close>

lemma update_succeeds:
  assumes "table_ok ok conf t"
    and "\<And>r. r \<in> set t \<Longrightarrow> w r \<Longrightarrow> ok (f r)"
    and "\<And>r s. r \<in> set t \<Longrightarrow> s \<in> set t \<Longrightarrow>
      conf (if w r then f r else r) (if w s then f s else s) \<Longrightarrow> conf r s"
  shows "sql_update ok conf w f t =
    Inr (map f (filter w t), map (\<lambda>r. if w r then f r else r) t)"
proof -
  have "conflict_free conf (map (\<lambda>r. if w r then f r else r) t)"
    using assms(1,3) by (intro conflict_free_map) (auto simp: table_ok_def)
  then show ?thesis using assms(2) by (auto simp: sql_update_def Let_def)
qed

end

locale keyed_table = checked_table ok conf
  for ok :: "'r \<Rightarrow> bool" and conf :: "'r \<Rightarrow> 'r \<Rightarrow> bool" +
  fixes key :: "'r \<Rightarrow> 'k"
  assumes key_conf: "key r = key s \<Longrightarrow> conf r s"
begin

lemma key_unique:
  "table_ok ok conf t \<Longrightarrow> r \<in> set t \<Longrightarrow> s \<in> set t \<Longrightarrow> key r = key s \<Longrightarrow> r = s"
proof (induction t)
  case (Cons x t)
  then show ?case using key_conf conf_sym by (auto simp: table_ok_def)
qed simp

lemma distinct_rows: "table_ok ok conf t \<Longrightarrow> distinct (map key t)"
proof (induction t)
  case (Cons x t)
  then show ?case using key_conf by (force simp: table_ok_def)
qed simp

lemma filter_key:
  assumes "table_ok ok conf t" and "r \<in> set t" and "p r" and "\<And>s. p s \<Longrightarrow> key s = key r"
  shows "filter p t = [r]"
proof -
  have "distinct (filter p t)"
    using distinct_rows [OF assms(1)] by (simp add: distinct_map)
  moreover have "set (filter p t) = {r}"
    using key_unique [OF assms(1)] assms(2-4) by auto
  ultimately show ?thesis by (rule distinct_singleton_list)
qed

lemma find_key:
  assumes "table_ok ok conf t" and "r \<in> set t" and "p r" and "\<And>s. p s \<Longrightarrow> key s = key r"
  shows "List.find p t = Some r"
proof -
  have "filter p t = [r]" using assms by (rule filter_key)
  then show ?thesis by (simp add: find_filter)
qed

lemma page_key:
  assumes "table_ok ok conf t" and "r \<in> set t" and "key r \<in> set (map key (sql_page w k n t))"
  shows "r \<in> set (sql_page w k n t)" and "w r"
proof -
  from assms(3) obtain s where s: "s \<in> set (sql_page w k n t)" "key s = key r" by auto
  from s(1) have "s \<in> set t" by (rule sql_page_sound)
  from key_unique [OF assms(1) this assms(2) s(2)] s(1) show "r \<in> set (sql_page w k n t)" by simp
  then show "w r" by (rule sql_page_sound)
qed

text \<open>A keyed update touches one row: it returns it, and every other key keeps its row.\<close>

lemma update_key:
  assumes "table_ok ok conf t" and "sql_update ok conf w f t = Inr ([r'], t')"
    and "\<And>s. w s \<Longrightarrow> key s = k" and "\<And>s. w s \<Longrightarrow> key (f s) = key s"
  obtains r where "r \<in> set t" and "w r" and "r' = f r" and "key r = k"
    and "set t' = insert r' (set t - {r})"
proof -
  from assms(2) have one: "map f (filter w t) = [r']"
    and t': "t' = map (\<lambda>s. if w s then f s else s) t"
    by (auto simp: sql_update_def Let_def split: if_splits)
  from one obtain r where flt: "filter w t = [r]" and r': "r' = f r" by auto
  from flt have "r \<in> set (filter w t)" by simp
  then have r: "r \<in> set t" "w r" by auto
  have "w s \<longleftrightarrow> s = r" if "s \<in> set t" for s
    using key_unique [OF assms(1) that r(1)] assms(3) r(2) by auto
  then have "set t' = (\<lambda>s. if s = r then f r else s) ` set t"
    unfolding t' set_map by (intro image_cong) auto
  then have "set t' = insert r' (set t - {r})" using r(1) by (auto simp: r')
  with r r' assms(3) [OF r(2)] show ?thesis by (intro that)
qed

end

text \<open>
  How a versioned table may evolve: every row is still there under its key, either untouched or
  at a greater version, and a frozen row (a terminal state) is untouched.
\<close>

definition advances ::
  "('r \<Rightarrow> 'k) \<Rightarrow> ('r \<Rightarrow> int) \<Rightarrow> ('r \<Rightarrow> bool) \<Rightarrow> 'r list \<Rightarrow> 'r list \<Rightarrow> bool" where
  "advances key ver frozen t t' \<longleftrightarrow>
     (\<forall>r \<in> set t. \<exists>r' \<in> set t'. key r' = key r \<and> (r' = r \<or> ver r < ver r' \<and> \<not> frozen r))"

definition evolves ::
  "('r \<Rightarrow> bool) \<Rightarrow> ('r \<Rightarrow> 'r \<Rightarrow> bool) \<Rightarrow> ('r \<Rightarrow> 'k) \<Rightarrow> ('r \<Rightarrow> int) \<Rightarrow> ('r \<Rightarrow> bool)
     \<Rightarrow> 'r list \<Rightarrow> 'r list \<Rightarrow> bool" where
  "evolves ok conf key ver frozen t t' \<longleftrightarrow>
     (table_ok ok conf t \<longrightarrow> table_ok ok conf t' \<and> advances key ver frozen t t')"

text \<open>A relation that every run of a step respects, whatever its result.\<close>

definition tx_rel :: "('s \<Rightarrow> 's \<Rightarrow> bool) \<Rightarrow> ('s, 'a) tx \<Rightarrow> bool" where
  "tx_rel R m \<longleftrightarrow> (\<forall>s. R s (snd (m s)))"

lemma tx_relI: "(\<And>s. R s (snd (m s))) \<Longrightarrow> tx_rel R m"
  by (simp add: tx_rel_def)

lemma tx_relD: "tx_rel R m \<Longrightarrow> m s = (r, s') \<Longrightarrow> R s s'"
  by (metis snd_conv tx_rel_def)

locale step_order =
  fixes R :: "'s \<Rightarrow> 's \<Rightarrow> bool"
  assumes order_refl: "R s s"
    and order_trans: "R s t \<Longrightarrow> R t u \<Longrightarrow> R s u"
begin

lemma rel_pure:
  "tx_rel R (tx_return x)" "tx_rel R (tx_raise e)" "tx_rel R (tx_lift r)"
  "tx_rel R (tx_require b e)" "tx_rel R (tx_read f)"
  by (simp_all add: tx_rel_def tx_simps order_refl)

lemma rel_bind:
  assumes "tx_rel R m" and "\<And>x. tx_rel R (k x)"
  shows "tx_rel R (tx_bind m k)"
proof (rule tx_relI)
  fix s
  obtain r t where m: "m s = (r, t)" by fastforce
  with assms(1) have st: "R s t" by (rule tx_relD)
  show "R s (snd (tx_bind m k s))"
  proof (cases r)
    case (Inl e)
    with m st show ?thesis by simp
  next
    case (Inr x)
    from assms(2) have "R t (snd (k x t))" by (simp add: tx_rel_def)
    with st have "R s (snd (k x t))" by (rule order_trans)
    with m Inr show ?thesis by simp
  qed
qed

lemma bind_point:
  assumes "R s (snd (m s))" and "\<And>x t. m s = (Inr x, t) \<Longrightarrow> R t (snd (k x t))"
  shows "R s (snd (tx_bind m k s))"
proof (cases "m s")
  case (Pair r t)
  with assms show ?thesis
    by (cases r) (auto simp: tx_bind_def intro: order_trans)
qed

lemma rel_if: "tx_rel R a \<Longrightarrow> tx_rel R b \<Longrightarrow> tx_rel R (if c then a else b)"
  by simp

lemma rel_option:
  "tx_rel R a \<Longrightarrow> (\<And>x. tx_rel R (b x)) \<Longrightarrow> tx_rel R (case v of None \<Rightarrow> a | Some x \<Rightarrow> b x)"
  by (cases v) auto

lemma rel_let: "(\<And>x. tx_rel R (b x)) \<Longrightarrow> tx_rel R (let x = v in b x)"
  by (simp add: Let_def)

lemma rel_prod: "(\<And>x y. tx_rel R (b x y)) \<Longrightarrow> tx_rel R (case p of (x, y) \<Rightarrow> b x y)"
  by (cases p) auto

lemma rel_savepoint: "tx_rel R m \<Longrightarrow> tx_rel R (tx_savepoint m)"
  by (rule tx_relI)
    (auto simp: tx_savepoint_def order_refl split: prod.split sum.split dest: tx_relD)

lemma rel_stmt: "(\<And>s x s'. f s = Inr (x, s') \<Longrightarrow> R s s') \<Longrightarrow> tx_rel R (tx_stmt f)"
  by (auto simp: tx_rel_def tx_stmt_def order_refl split: sum.splits prod.splits)

lemma rel_bind_lift:
  "(\<And>x. r = Inr x \<Longrightarrow> tx_rel R (k x)) \<Longrightarrow> tx_rel R (tx_bind (tx_lift r) k)"
  by (cases r) (auto simp: tx_rel_def tx_simps order_refl)

lemma rel_bind_require:
  "(b \<Longrightarrow> tx_rel R (k ())) \<Longrightarrow> tx_rel R (tx_bind (tx_require b e) k)"
  by (cases b) (auto simp: tx_rel_def tx_simps order_refl)

lemma rel_run:
  assumes "\<And>s t. step s t \<Longrightarrow> R s t" and "step\<^sup>*\<^sup>* s t"
  shows "R s t"
  using assms(2) by (induction rule: rtranclp_induct) (auto intro: order_refl order_trans assms(1))

lemmas rel_intros = rel_pure rel_bind rel_if rel_option rel_let rel_prod

end

locale fenced_table = keyed_table ok conf key
  for ok :: "'r \<Rightarrow> bool" and conf :: "'r \<Rightarrow> 'r \<Rightarrow> bool" and key :: "'r \<Rightarrow> 'k" +
  fixes ver :: "'r \<Rightarrow> int"
    and frozen :: "'r \<Rightarrow> bool"
begin

abbreviation evo :: "'r list \<Rightarrow> 'r list \<Rightarrow> bool" where
  "evo \<equiv> evolves ok conf key ver frozen"

lemma advances_refl: "advances key ver frozen t t"
  by (auto simp: advances_def)

lemma advances_trans:
  assumes "advances key ver frozen t u" and "advances key ver frozen u v"
  shows "advances key ver frozen t v"
  unfolding advances_def
proof
  fix r assume "r \<in> set t"
  with assms(1) obtain q where q: "q \<in> set u" "key q = key r" "q = r \<or> ver r < ver q \<and> \<not> frozen r"
    unfolding advances_def by blast
  with assms(2) obtain p where "p \<in> set v" "key p = key q" "p = q \<or> ver q < ver p \<and> \<not> frozen q"
    unfolding advances_def by blast
  with q show "\<exists>p \<in> set v. key p = key r \<and> (p = r \<or> ver r < ver p \<and> \<not> frozen r)"
    by (intro bexI [of _ p]) auto
qed

lemma advances_append: "advances key ver frozen t (t @ u)"
  by (auto simp: advances_def)

lemma evolves_update:
  assumes "sql_update ok conf w f t = Inr (rows, t')"
    and "\<And>r. table_ok ok conf t \<Longrightarrow> r \<in> set t \<Longrightarrow> w r \<Longrightarrow>
      key (f r) = key r \<and> ver r < ver (f r) \<and> \<not> frozen r"
  shows "evo t t'"
  unfolding evolves_def
proof
  assume ok: "table_ok ok conf t"
  from assms(1) have "t' = map (\<lambda>r. if w r then f r else r) t"
    by (auto simp: sql_update_def Let_def split: if_splits)
  then have "advances key ver frozen t t'" using assms(2) [OF ok] by (auto simp: advances_def)
  with table_ok_update [OF ok assms(1)] show "table_ok ok conf t' \<and> advances key ver frozen t t'"
    by simp
qed

lemma evolves_insert: "sql_insert ok conf r t = Inr (x, t') \<Longrightarrow> evo t t'"
  using table_ok_insert [of t r x t'] advances_append [of t "[r]"] by (auto simp: evolves_def)

lemma evolves_insert_or_skip:
  assumes "sql_insert_or_skip ok arbiter conf r t = Inr (x, t')"
  shows "evo t t'"
proof -
  from assms have "t' = t \<or> t' = t @ [r]"
    by (auto simp: sql_insert_or_skip_def split: if_splits)
  then show ?thesis
    using table_ok_insert_or_skip [OF _ assms] advances_append [of t "[r]"] advances_refl [of t]
    by (auto simp: evolves_def)
qed

lemma evolves_insert_referencing:
  assumes "sql_insert_referencing ok conf refs r t = Inr (x, t')"
  shows "evo t t'"
proof -
  from assms have "t' = t \<or> t' = t @ [r]"
    by (auto simp: sql_insert_referencing_def split: if_splits)
  then show ?thesis
    using table_ok_insert_referencing [OF _ assms] advances_append [of t "[r]"] advances_refl [of t]
    by (auto simp: evolves_def)
qed

text \<open>An observed version stays a sound fence: the same version means the same row.\<close>

lemma fence_sound:
  assumes "advances key ver frozen t t'" and "table_ok ok conf t'"
    and "r \<in> set t" and "r' \<in> set t'" and "key r' = key r" and "ver r' \<le> ver r"
  shows "r' = r"
proof -
  from assms(1,3) obtain q where "q \<in> set t'" "key q = key r" "q = r \<or> ver r < ver q"
    unfolding advances_def by blast
  with key_unique [OF assms(2), of r' q] assms(4-6) show ?thesis by auto
qed

end

sublocale fenced_table \<subseteq> ev: step_order "evolves ok conf key ver frozen"
  by unfold_locales (auto simp: evolves_def advances_refl intro: advances_trans)

text \<open>
  A machine over a versioned table: any number of operations, in any order, none of which
  rewrites a row without advancing its version.
\<close>

locale fenced_machine = fenced_table ok conf key ver frozen
  for ok :: "'r \<Rightarrow> bool" and conf :: "'r \<Rightarrow> 'r \<Rightarrow> bool" and key :: "'r \<Rightarrow> 'k"
    and ver :: "'r \<Rightarrow> int" and frozen :: "'r \<Rightarrow> bool" +
  fixes step :: "'r list \<Rightarrow> 'r list \<Rightarrow> bool"
  assumes step_evolves: "step t t' \<Longrightarrow> evo t t'"
begin

lemma run_evolves: "step\<^sup>*\<^sup>* t t' \<Longrightarrow> evo t t'"
  by (induction rule: rtranclp_induct)
    (blast intro: ev.order_refl, blast intro: ev.order_trans step_evolves)

lemma run_keeps:
  assumes "step\<^sup>*\<^sup>* t t'" and "table_ok ok conf t"
  shows "table_ok ok conf t'" and "advances key ver frozen t t'"
  using run_evolves [OF assms(1)] assms(2) by (auto simp: evolves_def)

lemma no_lost_update:
  assumes "step\<^sup>*\<^sup>* t t'" and "table_ok ok conf t"
    and "r \<in> set t" and "r' \<in> set t'" and "key r' = key r" and "ver r' \<le> ver r"
  shows "r' = r"
  using run_keeps [OF assms(1,2)] assms(3-6) by (auto intro: fence_sound)

lemma frozen_stays:
  assumes "step\<^sup>*\<^sup>* t t'" and "table_ok ok conf t" and "r \<in> set t" and "frozen r"
  shows "r \<in> set t'"
  using run_keeps [OF assms(1,2)] assms(3,4) by (auto simp: advances_def)

end

subsection \<open>Steps on one component of a larger state\<close>

definition tx_on :: "('s \<Rightarrow> 't) \<Rightarrow> ('t \<Rightarrow> 's \<Rightarrow> 's) \<Rightarrow> ('t, 'a) tx \<Rightarrow> ('s, 'a) tx" where
  "tx_on get put m s = (case m (get s) of (r, t) \<Rightarrow> (r, put t s))"

lemma tx_on_success [tx_success]:
  "tx_on get put m s = (Inr y, s') \<longleftrightarrow> (\<exists>t. m (get s) = (Inr y, t) \<and> s' = put t s)"
  by (auto simp: tx_on_def split: prod.splits)

lemma tx_on_failure:
  "tx_on get put m s = (Inl e, s') \<longleftrightarrow> (\<exists>t. m (get s) = (Inl e, t) \<and> s' = put t s)"
  by (auto simp: tx_on_def split: prod.splits)

lemma tx_rel_on:
  assumes "tx_rel Q m" and "\<And>s t. Q (get s) t \<Longrightarrow> R s (put t s)"
  shows "tx_rel R (tx_on get put m)"
  using assms by (auto simp: tx_rel_def tx_on_def split: prod.split) (metis snd_conv)

text \<open>A step that reads only.\<close>

lemma tx_read_only_bind:
  assumes "\<And>s. snd (m s) = s"
  shows "tx_bind m k s = (case fst (m s) of Inl e \<Rightarrow> (Inl e, s) | Inr x \<Rightarrow> k x s)"
proof (cases "m s")
  case (Pair r t)
  with assms [of s] show ?thesis by (auto simp: tx_bind_def split: sum.splits)
qed

end
