(* ===== verification/Domain.thy ===== *)
theory Domain
  imports Sql
begin

text \<open>
  The host-neutral values of \<open>domain.py\<close>: canonical identifiers, digests, UTC instants, the
  bounded deep copy \<open>freeze_domain_value\<close> and the value classes built on them; and the argument
  checks of \<open>repositories/__init__.py\<close> the modelled repositories call.
\<close>

subsection \<open>Identifiers, digests, instants\<close>

definition canonical_identifier :: "string \<Rightarrow> bool" where
  "canonical_identifier s =
     (s \<noteq> [] \<and> length s \<le> 128 \<and> hd s \<in> set alnum_chars \<and> last s \<in> set alnum_chars \<and>
      (\<forall>c \<in> set s. c \<in> set (alnum_chars @ ''._:@/-'')))"

definition require_identifier :: "string \<Rightarrow> string res" where
  "require_identifier s =
     (if canonical_identifier s then Inr s else Inl (err DomainValidationError))"

definition require_sha256 :: "string \<Rightarrow> string res" where
  "require_sha256 s = (if lower_hex 64 s then Inr s else Inl (err DomainValidationError))"

definition astimezone_utc :: "int \<Rightarrow> int \<Rightarrow> instant res" where
  "astimezone_utc local offset =
     (if in_datetime_range (local - offset) then Inr (local - offset) else Inl PyOverflowError)"

definition require_utc :: "pytime \<Rightarrow> instant res" where
  "require_utc t =
     (case t of Naive _ \<Rightarrow> Inl (err DomainValidationError)
      | Aware local offset \<Rightarrow> astimezone_utc local offset)"

lemma require_identifier_Inr [simp]:
  "require_identifier s = Inr t \<longleftrightarrow> canonical_identifier s \<and> t = s"
  by (auto simp: require_identifier_def)

lemma require_sha256_Inr [simp]: "require_sha256 s = Inr t \<longleftrightarrow> lower_hex 64 s \<and> t = s"
  by (auto simp: require_sha256_def)

lemma require_utc_instant: "in_datetime_range t \<Longrightarrow> require_utc (utc t) = Inr t"
  by (simp add: require_utc_def astimezone_utc_def)

lemma require_utc_range: "require_utc t = Inr i \<Longrightarrow> in_datetime_range i"
  by (auto simp: require_utc_def astimezone_utc_def split: pytime.splits if_splits)

subsection \<open>Bounded deep copies\<close>

datatype pyfloat = Nan | PosInf | NegInf | Finite int int  \<comment> \<open>mantissa and binary exponent\<close>

datatype pyval =
    PNone | PBool bool | PInt int | PFloat pyfloat | PStr string
  | PList "pyval list" | PTuple "pyval list" | PDict "(pyval \<times> pyval) list"
  | PContainer  \<comment> \<open>any other mapping or sequence\<close>
  | PObject     \<comment> \<open>anything else\<close>

datatype domain_value =
    VNone | VBool bool | VInt int | VFloat pyfloat | VStr string
  | VTuple "domain_value list" | VMap "(string \<times> domain_value) list"

definition MAX_DEPTH :: nat where "MAX_DEPTH = 12"
definition MAX_ITEMS :: int where "MAX_ITEMS = 4096"
definition MAX_TEXT :: nat where "MAX_TEXT = 16384"

lemmas domain_limits = MAX_DEPTH_def MAX_ITEMS_def MAX_TEXT_def

definition text_ok :: "string \<Rightarrow> bool" where
  "text_ok s = (length s \<le> MAX_TEXT \<and> CHR 0x00 \<notin> set s)"

definition map_key_ok :: "string \<Rightarrow> bool" where
  "map_key_ok k = (k \<noteq> [] \<and> length k \<le> 256 \<and> CHR 0x00 \<notin> set k)"

abbreviation "invalid_value \<equiv> Inl (err DomainValidationError)"

text \<open>
  The budget is the shared counter of the source: each visited value spends one unit, and what
  is left is passed on to the next sibling.
\<close>

fun freeze :: "nat \<Rightarrow> int \<Rightarrow> pyval \<Rightarrow> (domain_value \<times> int) res"
  and freeze_items :: "nat \<Rightarrow> int \<Rightarrow> pyval list \<Rightarrow> (domain_value list \<times> int) res"
  and freeze_entries ::
    "nat \<Rightarrow> int \<Rightarrow> string list \<Rightarrow> (pyval \<times> pyval) list \<Rightarrow> ((string \<times> domain_value) list \<times> int) res"
  where
  "freeze depth budget v =
     (if MAX_DEPTH < depth then invalid_value
      else if budget - 1 < 0 then invalid_value
      else case v of
        PNone \<Rightarrow> Inr (VNone, budget - 1)
      | PBool b \<Rightarrow> Inr (VBool b, budget - 1)
      | PInt i \<Rightarrow> Inr (VInt i, budget - 1)
      | PFloat x \<Rightarrow> (case x of Finite m e \<Rightarrow> Inr (VFloat x, budget - 1) | _ \<Rightarrow> invalid_value)
      | PStr s \<Rightarrow> if text_ok s then Inr (VStr s, budget - 1) else invalid_value
      | PList xs \<Rightarrow> (case freeze_items (depth + 1) (budget - 1) xs of
            Inl e \<Rightarrow> Inl e | Inr (ys, b) \<Rightarrow> Inr (VTuple ys, b))
      | PTuple xs \<Rightarrow> (case freeze_items (depth + 1) (budget - 1) xs of
            Inl e \<Rightarrow> Inl e | Inr (ys, b) \<Rightarrow> Inr (VTuple ys, b))
      | PDict es \<Rightarrow> (case freeze_entries (depth + 1) (budget - 1) [] es of
            Inl e \<Rightarrow> Inl e | Inr (ys, b) \<Rightarrow> Inr (VMap ys, b))
      | PContainer \<Rightarrow> invalid_value
      | PObject \<Rightarrow> invalid_value)"
| "freeze_items depth budget [] = Inr ([], budget)"
| "freeze_items depth budget (x # xs) =
     (case freeze depth budget x of Inl e \<Rightarrow> Inl e
      | Inr (y, b) \<Rightarrow> (case freeze_items depth b xs of Inl e \<Rightarrow> Inl e
                       | Inr (ys, b') \<Rightarrow> Inr (y # ys, b')))"
| "freeze_entries depth budget seen [] = Inr ([], budget)"
| "freeze_entries depth budget seen ((k, x) # es) =
     (case k of
        PStr key \<Rightarrow>
          if \<not> map_key_ok key then invalid_value
          else if key \<in> set seen then invalid_value
          else (case freeze depth budget x of Inl e \<Rightarrow> Inl e
                | Inr (y, b) \<Rightarrow> (case freeze_entries depth b (key # seen) es of Inl e \<Rightarrow> Inl e
                                 | Inr (ys, b') \<Rightarrow> Inr ((key, y) # ys, b')))
      | _ \<Rightarrow> invalid_value)"

declare freeze.simps [simp del]

definition freeze_domain_value :: "pyval \<Rightarrow> domain_value res" where
  "freeze_domain_value v = map_sum id fst (freeze 0 MAX_ITEMS v)"

subsection \<open>Owner context and versioned identities\<close>

datatype mutation_state = APPLIED | REPLAYED | CONFLICT | NOT_FOUND

record owner_context =
  ctx_owner_id :: string
  ctx_actor_id :: string
  ctx_correlation_id :: string
  ctx_tenant_id :: "string option"

definition owner_context_ok :: "owner_context \<Rightarrow> bool" where
  "owner_context_ok c =
     (canonical_identifier (ctx_owner_id c) \<and> canonical_identifier (ctx_actor_id c) \<and>
      canonical_identifier (ctx_correlation_id c) \<and>
      (\<forall>t \<in> set_option (ctx_tenant_id c). canonical_identifier t))"

record versioned_identity =
  vi_owner_id :: string
  vi_record_id :: string
  vi_version :: int

definition versioned_identity_ok :: "versioned_identity \<Rightarrow> bool" where
  "versioned_identity_ok v =
     (canonical_identifier (vi_owner_id v) \<and> canonical_identifier (vi_record_id v) \<and>
      0 \<le> vi_version v)"

record mutation_receipt =
  mr_identity :: versioned_identity
  mr_state :: mutation_state
  mr_operation_id :: string
  mr_committed_at :: instant
  mr_metadata :: "(string \<times> domain_value) list"

definition make_mutation_receipt ::
  "versioned_identity \<Rightarrow> mutation_state \<Rightarrow> string \<Rightarrow> pytime \<Rightarrow> (pyval \<times> pyval) list
     \<Rightarrow> mutation_receipt res" where
  "make_mutation_receipt ident st op moment md =
     (case require_identifier op of Inl e \<Rightarrow> Inl e | Inr op' \<Rightarrow>
      (case require_utc moment of Inl e \<Rightarrow> Inl e | Inr t \<Rightarrow>
       (case freeze_domain_value (PDict md) of Inl e \<Rightarrow> Inl e
        | Inr (VMap es) \<Rightarrow>
            Inr \<lparr>mr_identity = ident, mr_state = st, mr_operation_id = op',
                 mr_committed_at = t, mr_metadata = es\<rparr>
        | Inr _ \<Rightarrow> invalid_value)))"

subsection \<open>Argument checks of the repositories\<close>

definition required_id :: "nat \<Rightarrow> string \<Rightarrow> string res" where
  "required_id maximum s =
     (if py_strip s = [] then Inl (err RepositoryValidationError)
      else if maximum < length s then Inl (err RepositoryValidationError)
      else Inr s)"

definition bounded_text :: "nat \<Rightarrow> bool \<Rightarrow> string \<Rightarrow> string res" where
  "bounded_text maximum allow_empty s =
     (if \<not> allow_empty \<and> py_strip s = [] then Inl (err RepositoryValidationError)
      else if maximum < length s then Inl (err RepositoryValidationError)
      else Inr s)"

definition bounded_limit :: "int \<Rightarrow> int \<Rightarrow> int res" where
  "bounded_limit maximum limit =
     (if limit < 1 \<or> maximum < limit then Inl (err RepositoryValidationError) else Inr limit)"

text \<open>On integers; the source also takes whole floats and decimals and digit texts.\<close>

definition non_negative_int :: "int \<Rightarrow> int res" where
  "non_negative_int n = (if n < 0 then Inl (err RepositoryValidationError) else Inr n)"

lemma non_negative_int_Inr [simp]: "non_negative_int n = Inr m \<longleftrightarrow> m = n \<and> 0 \<le> n"
  by (auto simp: non_negative_int_def)

lemma required_id_Inr [simp]:
  "required_id n s = Inr t \<longleftrightarrow> t = s \<and> py_strip s \<noteq> [] \<and> length s \<le> n"
  by (auto simp: required_id_def)

lemma bounded_text_Inr [simp]:
  "bounded_text n e s = Inr t \<longleftrightarrow> t = s \<and> (e \<or> py_strip s \<noteq> []) \<and> length s \<le> n"
  by (auto simp: bounded_text_def)

subsection \<open>What a frozen value satisfies\<close>

fun nodes :: "domain_value \<Rightarrow> int" where
  "nodes (VTuple vs) = 1 + sum_list (map nodes vs)"
| "nodes (VMap es) = 1 + sum_list (map (\<lambda>(k, v). nodes v) es)"
| "nodes _ = 1"

fun within :: "nat \<Rightarrow> domain_value \<Rightarrow> bool" where
  "within d (VTuple vs) = (\<forall>v \<in> set vs. 0 < d \<and> within (d - 1) v)"
| "within d (VMap es) = (distinct (map fst es) \<and>
     (\<forall>(k, v) \<in> set es. map_key_ok k \<and> 0 < d \<and> within (d - 1) v))"
| "within d (VStr s) = text_ok s"
| "within d (VFloat x) = (\<exists>m e. x = Finite m e)"
| "within d _ = True"

text \<open>The value read back: tuples and lists of the input both read as tuples.\<close>

fun thaw :: "domain_value \<Rightarrow> pyval" where
  "thaw VNone = PNone"
| "thaw (VBool b) = PBool b"
| "thaw (VInt i) = PInt i"
| "thaw (VFloat x) = PFloat x"
| "thaw (VStr s) = PStr s"
| "thaw (VTuple vs) = PTuple (map thaw vs)"
| "thaw (VMap es) = PDict (map (\<lambda>(k, v). (PStr k, thaw v)) es)"

fun tupled :: "pyval \<Rightarrow> pyval" where
  "tupled (PList xs) = PTuple (map tupled xs)"
| "tupled (PTuple xs) = PTuple (map tupled xs)"
| "tupled (PDict es) = PDict (map (\<lambda>(k, v). (k, tupled v)) es)"
| "tupled v = v"

lemma freeze_sound:
  "freeze d b v = Inr (x, b') \<Longrightarrow>
     b' = b - nodes x \<and> 0 \<le> b' \<and> d \<le> MAX_DEPTH \<and> within (MAX_DEPTH - d) x \<and> thaw x = tupled v"
  "freeze_items d b vs = Inr (xs, b') \<Longrightarrow>
     b' = b - sum_list (map nodes xs) \<and> (vs \<noteq> [] \<longrightarrow> 0 \<le> b' \<and> d \<le> MAX_DEPTH) \<and>
     (\<forall>x \<in> set xs. within (MAX_DEPTH - d) x) \<and> map thaw xs = map tupled vs"
  "freeze_entries d b seen es = Inr (ys, b') \<Longrightarrow>
     b' = b - sum_list (map (\<lambda>(k, v). nodes v) ys) \<and> (es \<noteq> [] \<longrightarrow> 0 \<le> b' \<and> d \<le> MAX_DEPTH) \<and>
     distinct (map fst ys) \<and> set (map fst ys) \<inter> set seen = {} \<and>
     (\<forall>(k, v) \<in> set ys. map_key_ok k \<and> within (MAX_DEPTH - d) v) \<and>
     map (\<lambda>(k, v). (PStr k, thaw v)) ys = map (\<lambda>(k, v). (k, tupled v)) es"
proof (induction d b v and d b vs and d b seen es arbitrary: x b' and xs b' and ys b'
    rule: freeze_freeze_items_freeze_entries.induct)
  case (1 depth budget v)
  from "1.prems" have guard: "depth \<le> MAX_DEPTH" "1 \<le> budget"
    by (auto simp: freeze.simps split: if_splits)
  have deeper: "MAX_DEPTH - (depth + 1) = MAX_DEPTH - depth - 1" by simp
  show ?case
  proof (cases v)
    case (PList vs)
    with "1.prems" guard obtain ys where
      ys: "freeze_items (depth + 1) (budget - 1) vs = Inr (ys, b')" and x: "x = VTuple ys"
      by (auto simp: freeze.simps split: sum.splits)
    from "1.IH"(1) [OF _ _ PList ys] guard x PList show ?thesis by (cases vs) (auto simp: deeper)
  next
    case (PTuple vs)
    with "1.prems" guard obtain ys where
      ys: "freeze_items (depth + 1) (budget - 1) vs = Inr (ys, b')" and x: "x = VTuple ys"
      by (auto simp: freeze.simps split: sum.splits)
    from "1.IH"(2) [OF _ _ PTuple ys] guard x PTuple show ?thesis by (cases vs) (auto simp: deeper)
  next
    case (PDict es)
    with "1.prems" guard obtain ys where
      ys: "freeze_entries (depth + 1) (budget - 1) [] es = Inr (ys, b')" and x: "x = VMap ys"
      by (auto simp: freeze.simps split: sum.splits)
    from "1.IH"(3) [OF _ _ PDict ys] guard x PDict show ?thesis by (cases es) (auto simp: deeper)
  qed (use "1.prems" guard in \<open>auto simp: freeze.simps split: if_splits pyfloat.splits\<close>)
next
  case (3 depth budget v vs)
  then show ?case by (fastforce split: sum.splits prod.splits)
next
  case (5 depth budget seen k v es)
  then show ?case by (fastforce split: sum.splits prod.splits pyval.splits if_splits)
qed auto

text \<open>
  C35. A successful freeze is a faithful bounded copy: it spends one unit of the 4096-item budget
  per node, nests at most 12 levels deep, holds only finite floats, NUL-free text of at most
  16384 characters and distinct valid keys, and reads back as the input with lists as tuples.
\<close>

theorem freeze_domain_value_bounded:
  assumes "freeze_domain_value v = Inr x"
  shows "nodes x \<le> 4096 \<and> within 12 x \<and> thaw x = tupled v"
proof -
  from assms obtain b where "freeze 0 MAX_ITEMS v = Inr (x, b)"
    by (auto simp: freeze_domain_value_def map_sum_def split: sum.splits)
  from freeze_sound(1) [OF this] show ?thesis by (simp add: domain_limits)
qed

theorem freeze_domain_value_bounded_witness:
  "freeze_domain_value (PDict [(PStr ''a'', PList [PInt 1, PNone])])
     = Inr (VMap [(''a'', VTuple [VInt 1, VNone])]) \<and>
   nodes (VMap [(''a'', VTuple [VInt 1, VNone])]) \<le> 4096"
proof -
  have h: "freeze_domain_value (PDict [(PStr ''a'', PList [PInt 1, PNone])])
     = Inr (VMap [(''a'', VTuple [VInt 1, VNone])])"
    by (simp add: freeze_domain_value_def freeze.simps domain_limits map_key_ok_def)
  show ?thesis using h freeze_domain_value_bounded [OF h] by blast
qed

end
