(* ===== verification/Sha256.thy ===== *)
theory Sha256
  imports Prelude
begin

text \<open>
  The digests the source takes from the standard library: \<open>hashlib.sha256(...).digest()\<close> and
  \<open>.hexdigest()\<close>, \<open>bytes.hex()\<close> and \<open>hmac.new(key, payload, sha256).digest()\<close>, as FIPS 180-4
  and RFC 2104 define them. The components only rest on their shape, which is proved here: a
  digest has 32 bytes, and its hexadecimal form is 64 lowercase digits.
\<close>

unbundle bit_operations_syntax

type_synonym w32 = "32 word"

definition rotr :: "nat \<Rightarrow> w32 \<Rightarrow> w32" where
  "rotr n x = drop_bit n x OR push_bit (32 - n) x"

text \<open>
  The round constants (fractional parts of the cube roots of the first 64 primes) and the initial
  hash value (square roots of the first eight), in decimal.
\<close>

definition sha_k :: "w32 list" where
  "sha_k = [
    1116352408, 1899447441, 3049323471, 3921009573, 961987163, 1508970993, 2453635748,
    2870763221, 3624381080, 310598401, 607225278, 1426881987, 1925078388, 2162078206,
    2614888103, 3248222580, 3835390401, 4022224774, 264347078, 604807628, 770255983,
    1249150122, 1555081692, 1996064986, 2554220882, 2821834349, 2952996808, 3210313671,
    3336571891, 3584528711, 113926993, 338241895, 666307205, 773529912, 1294757372,
    1396182291, 1695183700, 1986661051, 2177026350, 2456956037, 2730485921, 2820302411,
    3259730800, 3345764771, 3516065817, 3600352804, 4094571909, 275423344, 430227734,
    506948616, 659060556, 883997877, 958139571, 1322822218, 1537002063, 1747873779,
    1955562222, 2024104815, 2227730452, 2361852424, 2428436474, 2756734187, 3204031479,
    3329325298]"

definition sha_h0 :: "w32 list" where
  "sha_h0 = [
    1779033703, 3144134277, 1013904242, 2773480762, 1359893119, 2600822924, 528734635,
    1541459225]"

definition be32 :: "bytes \<Rightarrow> w32" where
  "be32 bs = foldl (\<lambda>acc b. push_bit 8 acc OR ucast b) 0 bs"

definition be_bytes :: "nat \<Rightarrow> nat \<Rightarrow> bytes" where
  "be_bytes n x = map (\<lambda>i. of_nat (x div 256 ^ (n - 1 - i) mod 256)) [0..<n]"

definition sha_pad :: "bytes \<Rightarrow> bytes" where
  "sha_pad m = m @ [0x80] @ replicate ((119 - length m mod 64) mod 64) 0 @ be_bytes 8 (8 * length m)"

fun chunks :: "nat \<Rightarrow> 'a list \<Rightarrow> 'a list list" where
  "chunks n xs = (if n = 0 \<or> xs = [] then [] else take n xs # chunks n (drop n xs))"

declare chunks.simps [simp del]

definition next_word :: "w32 list \<Rightarrow> w32" where
  "next_word ws =
     (let t = length ws; a = ws ! (t - 15); b = ws ! (t - 2);
          s0 = rotr 7 a XOR rotr 18 a XOR drop_bit 3 a;
          s1 = rotr 17 b XOR rotr 19 b XOR drop_bit 10 b
      in ws ! (t - 16) + s0 + ws ! (t - 7) + s1)"

definition message_schedule :: "w32 list \<Rightarrow> w32 list" where
  "message_schedule ws = ((\<lambda>vs. vs @ [next_word vs]) ^^ 48) ws"

fun sha_round :: "w32 list \<Rightarrow> w32 \<times> w32 \<Rightarrow> w32 list" where
  "sha_round [a, b, c, d, e, f, g, h] (k, w) =
     (let t1 = h + (rotr 6 e XOR rotr 11 e XOR rotr 25 e)
               + ((e AND f) XOR (NOT e AND g)) + k + w;
          t2 = (rotr 2 a XOR rotr 13 a XOR rotr 22 a)
               + ((a AND b) XOR (a AND c) XOR (b AND c))
      in [t1 + t2, a, b, c, d + t1, e, f, g])"
| "sha_round s _ = s"

definition sha_block :: "w32 list \<Rightarrow> bytes \<Rightarrow> w32 list" where
  "sha_block hs blk =
     (let ws = message_schedule (map be32 (chunks 4 blk))
      in map2 (+) hs (foldl sha_round hs (zip sha_k ws)))"

definition sha256 :: "bytes \<Rightarrow> bytes" where
  "sha256 m = concat (map (\<lambda>w. be_bytes 4 (unat w)) (foldl sha_block sha_h0 (chunks 64 (sha_pad m))))"

definition hex_digit :: "nat \<Rightarrow> char" where
  "hex_digit n = hex_chars ! (n mod 16)"

definition to_hex :: "bytes \<Rightarrow> string" where
  "to_hex bs = concat (map (\<lambda>b. [hex_digit (unat b div 16), hex_digit (unat b mod 16)]) bs)"


definition sha256_hex :: "bytes \<Rightarrow> string" where
  "sha256_hex m = to_hex (sha256 m)"

text \<open>HMAC with SHA-256: a key longer than a block is hashed first, then padded to 64 bytes.\<close>

definition hmac_key :: "bytes \<Rightarrow> bytes" where
  "hmac_key key = (let k = (if 64 < length key then sha256 key else key)
                   in k @ replicate (64 - length k) 0)"

definition hmac_sha256 :: "bytes \<Rightarrow> bytes \<Rightarrow> bytes" where
  "hmac_sha256 key m =
     (let k = hmac_key key
      in sha256 (map (\<lambda>b. b XOR 0x5c) k @ sha256 (map (\<lambda>b. b XOR 0x36) k @ m)))"

subsection \<open>Shape of the digests\<close>

lemma length_be_bytes [simp]: "length (be_bytes n x) = n"
  by (simp add: be_bytes_def)

lemma length_sha_round [simp]: "length (sha_round s kw) = length s"
  by (cases "(s, kw)" rule: sha_round.cases) (auto simp: Let_def)

lemma length_foldl_keep:
  "(\<And>s x. length (f s x) = length s) \<Longrightarrow> length (foldl f s xs) = length s"
  by (induction xs arbitrary: s) auto

lemma length_sha_block [simp]: "length (sha_block hs blk) = length hs"
  by (simp add: sha_block_def Let_def length_foldl_keep)

lemma length_concat_uniform:
  "(\<And>x. length (f x) = n) \<Longrightarrow> length (concat (map f xs)) = n * length xs"
  by (induction xs) auto

lemma length_sha256 [simp]: "length (sha256 m) = 32"
proof -
  have "length (foldl sha_block sha_h0 (chunks 64 (sha_pad m))) = 8"
    by (subst length_foldl_keep) (simp_all add: sha_h0_def)
  then show ?thesis
    by (simp add: sha256_def length_concat_uniform [where n = 4])
qed

lemma length_hmac_sha256 [simp]: "length (hmac_sha256 key m) = 32"
  by (simp add: hmac_sha256_def Let_def)

lemma hex_digit_hex: "hex_digit n \<in> set hex_chars"
  unfolding hex_digit_def by (rule nth_mem) (simp add: hex_chars_def)

lemma to_hex_canonical: "lower_hex (2 * length bs) (to_hex bs)"
  by (induction bs) (auto simp: lower_hex_def to_hex_def hex_digit_hex)

lemma sha256_hex_canonical [simp]: "lower_hex 64 (sha256_hex m)"
  using to_hex_canonical [of "sha256 m"] by (simp add: sha256_hex_def)

end
