(* ===== verification/Outbox.thy ===== *)
theory Outbox
  imports Domain Sha256
begin

text \<open>
  The transactional outbox of \<open>outbox.py\<close> over the table \<open>astralplane_outbox\<close> of
  \<open>database/migrations.py\<close>: enqueue with an idempotency key, claim under a lease, acknowledge,
  retry, dead-letter and reclaim under a version fence.

  Two facts of the database are arguments: \<open>coll\<close> gives the sort key of the collation of
  \<open>entry_id\<close>, and \<open>locked\<close> says which rows a concurrent transaction holds, which
  \<open>SKIP LOCKED\<close> passes over.
\<close>

subsection \<open>Rows and values\<close>

datatype outbox_status = Pending | Retry | Claimed | Succeeded | Dead_letter

record outbox_entry =
  oe_entry_id :: string
  oe_topic :: string
  oe_canonical_payload :: bytes
  oe_payload_sha256 :: string
  oe_idempotency_key :: string
  oe_available_at :: pytime

record claimed_outbox_entry =
  ce_entry :: outbox_entry
  ce_worker_id :: string
  ce_lease_expires_at :: instant
  ce_expected_version :: int
  ce_attempt :: int

record reclaimed_outbox_entry =
  re_entry_id :: string
  re_previous_worker_id :: string
  re_expected_version :: int
  re_available_at :: instant

record outbox_row =
  ob_entry_id :: string
  ob_topic :: string
  ob_canonical_payload :: bytes
  ob_payload_sha256 :: string
  ob_idempotency_key :: string
  ob_available_at :: instant
  ob_status :: outbox_status
  ob_lease_owner :: "string option"
  ob_lease_expires_at :: "instant option"
  ob_version :: int
  ob_attempt_count :: int
  ob_last_error_code :: "string option"
  ob_created_at :: instant
  ob_updated_at :: instant

definition safe_id :: "string \<Rightarrow> bool" where
  "safe_id s = head_then alnum_chars (alnum_chars @ ''._:@/-'') 254 s"

definition safe_topic :: "string \<Rightarrow> bool" where
  "safe_topic s = head_then alnum_chars (alnum_chars @ ''._:-'') 127 s"

definition safe_error_code :: "string \<Rightarrow> bool" where
  "safe_error_code s = head_then lower_chars (lower_chars @ digit_chars @ ''_.-'') 63 s"

definition MAX_PAYLOAD_BYTES :: nat where
  "MAX_PAYLOAD_BYTES = 1048576"

definition MAX_LEASE_DURATION :: int where
  "MAX_LEASE_DURATION = 24 * 3600 * 1000000"

text \<open>Column ranges and \<open>CHECK\<close> clauses of the table.\<close>

definition outbox_row_ok :: "outbox_row \<Rightarrow> bool" where
  "outbox_row_ok r =
     (lower_hex 64 (ob_payload_sha256 r) \<and>
      0 \<le> ob_version r \<and> ob_version r \<le> MAX_BIGINT \<and>
      0 \<le> ob_attempt_count r \<and> ob_attempt_count r \<le> MAX_INTEGER \<and>
      (ob_status r = Claimed \<and> ob_lease_owner r \<noteq> None \<and> ob_lease_expires_at r \<noteq> None \<or>
       ob_status r \<noteq> Claimed \<and> ob_lease_owner r = None \<and> ob_lease_expires_at r = None) \<and>
      (ob_status r \<in> {Pending, Claimed, Succeeded} \<and> ob_last_error_code r = None \<or>
       ob_status r \<in> {Retry, Dead_letter} \<and> ob_last_error_code r \<noteq> None) \<and>
      1 \<le> length (ob_canonical_payload r) \<and> length (ob_canonical_payload r) \<le> MAX_PAYLOAD_BYTES \<and>
      safe_topic (ob_topic r))"

text \<open>Primary key \<open>entry_id\<close>, \<open>UNIQUE\<close> \<open>idempotency_key\<close>.\<close>

definition outbox_conflict :: "outbox_row \<Rightarrow> outbox_row \<Rightarrow> bool" where
  "outbox_conflict r s =
     (ob_entry_id r = ob_entry_id s \<or> ob_idempotency_key r = ob_idempotency_key s)"

abbreviation outbox_table_ok :: "outbox_row list \<Rightarrow> bool" where
  "outbox_table_ok \<equiv> table_ok outbox_row_ok outbox_conflict"

subsection \<open>Validation\<close>

definition bounded_ident :: "(string \<Rightarrow> bool) \<Rightarrow> string \<Rightarrow> string res" where
  "bounded_ident pattern s = (if pattern s then Inr s else Inl (err SQLContractError))"

definition utc_instant :: "pytime \<Rightarrow> instant res" where
  "utc_instant t =
     (case t of Naive _ \<Rightarrow> Inl (err SQLContractError)
      | Aware local offset \<Rightarrow> astimezone_utc local offset)"

definition positive_limit :: "int \<Rightarrow> int res" where
  "positive_limit limit = (if 1 \<le> limit \<and> limit \<le> 1000 then Inr limit else Inl (err SQLContractError))"

definition validate_entry :: "outbox_entry \<Rightarrow> outbox_entry res" where
  "validate_entry e =
     (case bounded_ident safe_id (oe_entry_id e) of Inl x \<Rightarrow> Inl x | Inr entry_id \<Rightarrow>
      (case bounded_ident safe_topic (oe_topic e) of Inl x \<Rightarrow> Inl x | Inr topic \<Rightarrow>
       (case bounded_ident safe_id (oe_idempotency_key e) of Inl x \<Rightarrow> Inl x | Inr key \<Rightarrow>
        (let payload = oe_canonical_payload e; digest = py_lower (oe_payload_sha256 e)
         in if payload = [] \<or> MAX_PAYLOAD_BYTES < length payload then Inl (err SQLContractError)
            else if \<not> lower_hex 64 digest then Inl (err SQLContractError)
            else if sha256_hex payload \<noteq> digest then Inl (err SQLContractError)
            else (case utc_instant (oe_available_at e) of Inl x \<Rightarrow> Inl x | Inr t \<Rightarrow>
              Inr \<lparr>oe_entry_id = entry_id, oe_topic = topic, oe_canonical_payload = payload,
                   oe_payload_sha256 = digest, oe_idempotency_key = key,
                   oe_available_at = utc t\<rparr>)))))"

definition entry_from_row :: "outbox_row \<Rightarrow> outbox_entry res" where
  "entry_from_row r =
     validate_entry \<lparr>oe_entry_id = ob_entry_id r, oe_topic = ob_topic r,
       oe_canonical_payload = ob_canonical_payload r, oe_payload_sha256 = ob_payload_sha256 r,
       oe_idempotency_key = ob_idempotency_key r, oe_available_at = utc (ob_available_at r)\<rparr>"

definition fence_inputs :: "string \<Rightarrow> string \<Rightarrow> int \<Rightarrow> (string \<times> string \<times> int) res" where
  "fence_inputs entry_id worker_id expected_version =
     (case bounded_ident safe_id entry_id of Inl x \<Rightarrow> Inl x | Inr e \<Rightarrow>
      (case bounded_ident safe_id worker_id of Inl x \<Rightarrow> Inl x | Inr w \<Rightarrow>
       if expected_version < 1 then Inl (err SQLContractError) else Inr (e, w, expected_version)))"

definition require_single_update :: "'a list \<Rightarrow> int res" where
  "require_single_update rows =
     (if length rows \<noteq> 1 then Inl (err_code PlaneError ''outbox_fence_conflict'')
      else Inr (int (length rows)))"

subsection \<open>Enqueue\<close>

definition pending_row :: "outbox_entry \<Rightarrow> instant \<Rightarrow> instant \<Rightarrow> outbox_row" where
  "pending_row e available clock =
     \<lparr>ob_entry_id = oe_entry_id e, ob_topic = oe_topic e,
      ob_canonical_payload = oe_canonical_payload e, ob_payload_sha256 = oe_payload_sha256 e,
      ob_idempotency_key = oe_idempotency_key e, ob_available_at = available,
      ob_status = Pending, ob_lease_owner = None, ob_lease_expires_at = None, ob_version = 0,
      ob_attempt_count = 0, ob_last_error_code = None, ob_created_at = clock,
      ob_updated_at = clock\<rparr>"

lemma pending_row_fields [simp]:
  "ob_entry_id (pending_row x a clock) = oe_entry_id x"
  "ob_idempotency_key (pending_row x a clock) = oe_idempotency_key x"
  "ob_available_at (pending_row x a clock) = a"
  by (simp_all add: pending_row_def)

fun instant_of :: "pytime \<Rightarrow> instant" where
  "instant_of (Naive t) = t"
| "instant_of (Aware local offset) = local - offset"

definition enqueue :: "instant \<Rightarrow> outbox_entry \<Rightarrow> (outbox_row list, int) tx" where
  "enqueue clock entry =
     tx_bind (tx_lift (validate_entry entry)) (\<lambda>exact.
     tx_bind (tx_stmt (sql_insert_or_skip outbox_row_ok
         (\<lambda>r s. ob_idempotency_key r = ob_idempotency_key s) outbox_conflict
         (pending_row exact (instant_of (oe_available_at exact)) clock))) (\<lambda>inserted.
     let rowcount = (if inserted = None then 0 else 1) in
     if rowcount = 1 then tx_return rowcount
     else if rowcount \<noteq> 0 then tx_raise (err_code PlaneError ''outbox_write_invalid'')
     else
       tx_bind (tx_read (List.find (\<lambda>r. ob_idempotency_key r = oe_idempotency_key exact)))
         (\<lambda>existing. case existing of
            None \<Rightarrow> tx_raise (err_code PlaneError ''outbox_idempotency_conflict'')
          | Some row \<Rightarrow>
              tx_bind (tx_lift (entry_from_row row)) (\<lambda>found.
              if found \<noteq> exact then tx_raise (err_code PlaneError ''outbox_idempotency_conflict'')
              else tx_return rowcount))))"

subsection \<open>Claim\<close>

definition claimable :: "(string \<Rightarrow> bool) \<Rightarrow> string list \<Rightarrow> instant \<Rightarrow> outbox_row \<Rightarrow> bool" where
  "claimable locked topics now r =
     (ob_status r \<in> {Pending, Retry} \<and> ob_topic r \<in> set topics \<and> ob_available_at r \<le> now \<and>
      \<not> locked (ob_entry_id r))"

definition claim_row :: "string \<Rightarrow> instant \<Rightarrow> instant \<Rightarrow> outbox_row \<Rightarrow> outbox_row" where
  "claim_row worker expires now r =
     r\<lparr>ob_status := Claimed, ob_lease_owner := Some worker, ob_lease_expires_at := Some expires,
       ob_attempt_count := ob_attempt_count r + 1, ob_version := ob_version r + 1,
       ob_last_error_code := None, ob_updated_at := now\<rparr>"

definition claim_sql ::
  "(string \<Rightarrow> string) \<Rightarrow> (string \<Rightarrow> bool) \<Rightarrow> string list \<Rightarrow> instant \<Rightarrow> int \<Rightarrow> string \<Rightarrow> instant
     \<Rightarrow> outbox_row list \<Rightarrow> sql_error + outbox_row list \<times> outbox_row list" where
  "claim_sql coll locked topics now limit worker expires t =
     (let candidates = map ob_entry_id (sql_page (claimable locked topics now)
            (\<lambda>r. (ob_available_at r, coll (ob_entry_id r))) (nat limit) t)
      in sql_update outbox_row_ok outbox_conflict (\<lambda>r. ob_entry_id r \<in> set candidates)
           (claim_row worker expires now) t)"

definition claimed_from_row :: "outbox_row \<Rightarrow> claimed_outbox_entry res" where
  "claimed_from_row r =
     (case entry_from_row r of Inl x \<Rightarrow> Inl x | Inr entry \<Rightarrow>
      (case (ob_lease_owner r, ob_lease_expires_at r) of
         (Some owner, Some expires) \<Rightarrow>
           Inr \<lparr>ce_entry = entry, ce_worker_id = owner, ce_lease_expires_at = expires,
                ce_expected_version = ob_version r, ce_attempt = ob_attempt_count r\<rparr>
       | _ \<Rightarrow> Inl (err_code PlaneError ''outbox_record_invalid'')))"

definition lease_duration_ok :: "int \<Rightarrow> bool" where
  "lease_duration_ok d = (0 < d \<and> d \<le> MAX_LEASE_DURATION)"

definition claim ::
  "(string \<Rightarrow> string) \<Rightarrow> (string \<Rightarrow> bool) \<Rightarrow> string \<Rightarrow> string list \<Rightarrow> pytime \<Rightarrow> int \<Rightarrow> int
     \<Rightarrow> (outbox_row list, claimed_outbox_entry list) tx" where
  "claim coll locked worker_id topics now lease_duration limit =
     tx_bind (tx_lift (bounded_ident safe_id worker_id)) (\<lambda>worker.
     tx_bind (tx_require (topics \<noteq> []) (err SQLContractError)) (\<lambda>_.
     tx_bind (tx_lift (traverse (bounded_ident safe_topic) topics)) (\<lambda>exact_topics.
     tx_bind (tx_require (distinct exact_topics) (err SQLContractError)) (\<lambda>_.
     tx_bind (tx_lift (utc_instant now)) (\<lambda>exact_now.
     tx_bind (tx_require (lease_duration_ok lease_duration) (err SQLContractError)) (\<lambda>_.
     let expires = exact_now + lease_duration in
     tx_bind (tx_require (in_datetime_range expires) PyOverflowError) (\<lambda>_.
     tx_bind (tx_lift (positive_limit limit)) (\<lambda>exact_limit.
     tx_bind (tx_stmt (claim_sql coll locked exact_topics exact_now exact_limit worker expires))
       (\<lambda>rows.
     tx_bind (tx_lift (traverse claimed_from_row rows)) (\<lambda>claimed.
     tx_bind (tx_require (\<forall>c \<in> set claimed. ce_worker_id c = worker)
         (err_code PlaneError ''outbox_record_invalid'')) (\<lambda>_.
     tx_return (sort_key
       (\<lambda>c. (instant_of (oe_available_at (ce_entry c)), oe_entry_id (ce_entry c)))
       claimed))))))))))))"

subsection \<open>Acknowledge, retry, dead-letter\<close>

definition fence :: "string \<Rightarrow> string \<Rightarrow> int \<Rightarrow> instant \<Rightarrow> outbox_row \<Rightarrow> bool" where
  "fence entry_id worker version now r =
     (ob_entry_id r = entry_id \<and> ob_status r = Claimed \<and> ob_lease_owner r = Some worker \<and>
      ob_version r = version \<and> (\<exists>x \<in> set_option (ob_lease_expires_at r). now < x))"

definition ack_row :: "instant \<Rightarrow> outbox_row \<Rightarrow> outbox_row" where
  "ack_row now r =
     r\<lparr>ob_status := Succeeded, ob_lease_owner := None, ob_lease_expires_at := None,
       ob_version := ob_version r + 1, ob_last_error_code := None, ob_updated_at := now\<rparr>"

definition retry_row :: "instant \<Rightarrow> string \<Rightarrow> instant \<Rightarrow> outbox_row \<Rightarrow> outbox_row" where
  "retry_row available code now r =
     r\<lparr>ob_status := Retry, ob_available_at := available, ob_lease_owner := None,
       ob_lease_expires_at := None, ob_version := ob_version r + 1,
       ob_last_error_code := Some code, ob_updated_at := now\<rparr>"

definition dead_letter_row :: "string \<Rightarrow> instant \<Rightarrow> outbox_row \<Rightarrow> outbox_row" where
  "dead_letter_row code now r =
     r\<lparr>ob_status := Dead_letter, ob_lease_owner := None, ob_lease_expires_at := None,
       ob_version := ob_version r + 1, ob_last_error_code := Some code, ob_updated_at := now\<rparr>"

definition ack :: "string \<Rightarrow> string \<Rightarrow> int \<Rightarrow> pytime \<Rightarrow> (outbox_row list, int) tx" where
  "ack entry_id worker_id expected_version now =
     tx_bind (tx_lift (fence_inputs entry_id worker_id expected_version)) (\<lambda>(e, w, v).
     tx_bind (tx_lift (utc_instant now)) (\<lambda>exact_now.
     tx_bind (tx_stmt (sql_update outbox_row_ok outbox_conflict (fence e w v exact_now)
         (ack_row exact_now))) (\<lambda>rows.
     tx_lift (require_single_update rows))))"

definition retry ::
  "string \<Rightarrow> string \<Rightarrow> int \<Rightarrow> pytime \<Rightarrow> string \<Rightarrow> pytime \<Rightarrow> (outbox_row list, int) tx" where
  "retry entry_id worker_id expected_version available_at error_code now =
     tx_bind (tx_lift (fence_inputs entry_id worker_id expected_version)) (\<lambda>(e, w, v).
     tx_bind (tx_lift (bounded_ident safe_error_code error_code)) (\<lambda>code.
     tx_bind (tx_lift (utc_instant now)) (\<lambda>exact_now.
     tx_bind (tx_lift (utc_instant available_at)) (\<lambda>available.
     tx_bind (tx_stmt (sql_update outbox_row_ok outbox_conflict (fence e w v exact_now)
         (retry_row available code exact_now))) (\<lambda>rows.
     tx_lift (require_single_update rows))))))"

definition dead_letter ::
  "string \<Rightarrow> string \<Rightarrow> int \<Rightarrow> string \<Rightarrow> pytime \<Rightarrow> (outbox_row list, int) tx" where
  "dead_letter entry_id worker_id expected_version error_code now =
     tx_bind (tx_lift (fence_inputs entry_id worker_id expected_version)) (\<lambda>(e, w, v).
     tx_bind (tx_lift (bounded_ident safe_error_code error_code)) (\<lambda>code.
     tx_bind (tx_lift (utc_instant now)) (\<lambda>exact_now.
     tx_bind (tx_stmt (sql_update outbox_row_ok outbox_conflict (fence e w v exact_now)
         (dead_letter_row code exact_now))) (\<lambda>rows.
     tx_lift (require_single_update rows)))))"

subsection \<open>Reclaim\<close>

definition malformed_claim :: "outbox_row \<Rightarrow> bool" where
  "malformed_claim r =
     (ob_status r = Claimed \<and> (ob_lease_owner r = None \<or> ob_lease_expires_at r = None))"

definition expired_claim :: "(string \<Rightarrow> bool) \<Rightarrow> instant \<Rightarrow> outbox_row \<Rightarrow> bool" where
  "expired_claim locked now r =
     (ob_status r = Claimed \<and> (\<exists>x \<in> set_option (ob_lease_expires_at r). x \<le> now) \<and>
      \<not> locked (ob_entry_id r))"

definition reclaim_row :: "instant \<Rightarrow> outbox_row \<Rightarrow> outbox_row" where
  "reclaim_row now r =
     r\<lparr>ob_status := Retry, ob_available_at := now, ob_lease_owner := None,
       ob_lease_expires_at := None, ob_version := ob_version r + 1,
       ob_last_error_code := Some ''lease_expired'', ob_updated_at := now\<rparr>"

definition expired_page ::
  "(string \<Rightarrow> string) \<Rightarrow> (string \<Rightarrow> bool) \<Rightarrow> instant \<Rightarrow> int \<Rightarrow> outbox_row list \<Rightarrow> string list" where
  "expired_page coll locked now limit t =
     map ob_entry_id (sql_page (expired_claim locked now)
       (\<lambda>r. (case_option 0 id (ob_lease_expires_at r), coll (ob_entry_id r))) (nat limit) t)"

text \<open>The returned rows carry the lease owner they had before the update.\<close>

definition reclaim_sql ::
  "(string \<Rightarrow> string) \<Rightarrow> (string \<Rightarrow> bool) \<Rightarrow> instant \<Rightarrow> int \<Rightarrow> outbox_row list
     \<Rightarrow> sql_error + (string option \<times> outbox_row) list \<times> outbox_row list" where
  "reclaim_sql coll locked now limit t =
     (let w = (\<lambda>r. ob_entry_id r \<in> set (expired_page coll locked now limit t))
      in case sql_update outbox_row_ok outbox_conflict w (reclaim_row now) t of
           Inl x \<Rightarrow> Inl x
         | Inr (rows, t') \<Rightarrow> Inr (zip (map ob_lease_owner (filter w t)) rows, t'))"

definition record_bounded_text :: "string option \<Rightarrow> string res" where
  "record_bounded_text v =
     (case v of Some s \<Rightarrow> if safe_id s then Inr s else Inl (err_code PlaneError ''outbox_record_invalid'')
      | None \<Rightarrow> Inl (err_code PlaneError ''outbox_record_invalid''))"

definition reclaimed_from_row ::
  "string option \<times> outbox_row \<Rightarrow> reclaimed_outbox_entry res" where
  "reclaimed_from_row p =
     (case p of (previous, r) \<Rightarrow>
      (case record_bounded_text (Some (ob_entry_id r)) of Inl x \<Rightarrow> Inl x | Inr entry_id \<Rightarrow>
       (case record_bounded_text previous of Inl x \<Rightarrow> Inl x | Inr worker \<Rightarrow>
        if ob_version r < 1 then Inl (err_code PlaneError ''outbox_record_invalid'')
        else Inr \<lparr>re_entry_id = entry_id, re_previous_worker_id = worker,
                  re_expected_version = ob_version r, re_available_at = ob_available_at r\<rparr>)))"

definition reclaim_expired ::
  "(string \<Rightarrow> string) \<Rightarrow> (string \<Rightarrow> bool) \<Rightarrow> pytime \<Rightarrow> int
     \<Rightarrow> (outbox_row list, reclaimed_outbox_entry list) tx" where
  "reclaim_expired coll locked now limit =
     tx_bind (tx_lift (utc_instant now)) (\<lambda>exact_now.
     tx_bind (tx_read (List.find malformed_claim)) (\<lambda>malformed.
     tx_bind (tx_require (malformed = None) (err_code PlaneError ''outbox_lease_invalid'')) (\<lambda>_.
     tx_bind (tx_lift (positive_limit limit)) (\<lambda>exact_limit.
     tx_bind (tx_stmt (reclaim_sql coll locked exact_now exact_limit)) (\<lambda>rows.
     tx_bind (tx_lift (traverse reclaimed_from_row rows)) (\<lambda>reclaimed.
     tx_return (sort_key (\<lambda>i. (re_available_at i, re_entry_id i)) reclaimed)))))))"

subsection \<open>The table contract\<close>

definition outbox_terminal :: "outbox_row \<Rightarrow> bool" where
  "outbox_terminal r = (ob_status r \<in> {Succeeded, Dead_letter})"

interpretation obx: fenced_table outbox_row_ok outbox_conflict ob_entry_id ob_version
  outbox_terminal
  by unfold_locales (auto simp: outbox_conflict_def)

interpretation obk: keyed_table outbox_row_ok outbox_conflict ob_idempotency_key
  by unfold_locales (auto simp: outbox_conflict_def)

text \<open>Every call of the store, by any worker with any arguments, returning or raising.\<close>

inductive outbox_step :: "outbox_row list \<Rightarrow> outbox_row list \<Rightarrow> bool" where
  enqueue: "enqueue clock e t = (x, t') \<Longrightarrow> outbox_step t t'"
| claim: "claim coll locked w topics now d n t = (y, t') \<Longrightarrow> outbox_step t t'"
| ack: "ack e w v now t = (x, t') \<Longrightarrow> outbox_step t t'"
| retry: "retry e w v available code now t = (x, t') \<Longrightarrow> outbox_step t t'"
| dead_letter: "dead_letter e w v code now t = (x, t') \<Longrightarrow> outbox_step t t'"
| reclaim: "reclaim_expired coll locked now n t = (z, t') \<Longrightarrow> outbox_step t t'"

lemmas outbox_row_updates = claim_row_def ack_row_def retry_row_def dead_letter_row_def
  reclaim_row_def

lemma outbox_row_identity [simp]:
  "ob_entry_id (claim_row w x now r) = ob_entry_id r"
  "ob_entry_id (ack_row now r) = ob_entry_id r"
  "ob_entry_id (retry_row a c now r) = ob_entry_id r"
  "ob_entry_id (dead_letter_row c now r) = ob_entry_id r"
  "ob_entry_id (reclaim_row now r) = ob_entry_id r"
  "ob_idempotency_key (claim_row w x now r) = ob_idempotency_key r"
  "ob_idempotency_key (ack_row now r) = ob_idempotency_key r"
  "ob_idempotency_key (retry_row a c now r) = ob_idempotency_key r"
  "ob_idempotency_key (dead_letter_row c now r) = ob_idempotency_key r"
  "ob_idempotency_key (reclaim_row now r) = ob_idempotency_key r"
  by (simp_all add: outbox_row_updates)

lemma outbox_row_version [simp]:
  "ob_version (claim_row w x now r) = ob_version r + 1"
  "ob_version (ack_row now r) = ob_version r + 1"
  "ob_version (retry_row a c now r) = ob_version r + 1"
  "ob_version (dead_letter_row c now r) = ob_version r + 1"
  "ob_version (reclaim_row now r) = ob_version r + 1"
  by (simp_all add: outbox_row_updates)

lemmas obx_intros = obx.ev.rel_intros obx.ev.rel_stmt

lemma claim_sql_evolves:
  "claim_sql coll locked topics now limit worker expires t = Inr (rows, t') \<Longrightarrow> obx.evo t t'"
  unfolding claim_sql_def Let_def
  by (erule obx.evolves_update, drule (2) obx.page_key(2))
    (auto simp: claim_row_def outbox_terminal_def claimable_def)

lemma reclaim_sql_update:
  "reclaim_sql coll locked now limit t = Inr (rows, t') \<Longrightarrow>
   \<exists>rs. sql_update outbox_row_ok outbox_conflict
     (\<lambda>r. ob_entry_id r \<in> set (expired_page coll locked now limit t)) (reclaim_row now) t = Inr (rs, t')"
  by (auto simp: reclaim_sql_def Let_def split: sum.splits prod.splits)

lemma reclaim_sql_evolves:
  assumes "reclaim_sql coll locked now limit t = Inr (rows, t')"
  shows "obx.evo t t'"
proof -
  from reclaim_sql_update [OF assms] obtain rs where
    "sql_update outbox_row_ok outbox_conflict
      (\<lambda>r. ob_entry_id r \<in> set (expired_page coll locked now limit t)) (reclaim_row now) t = Inr (rs, t')"
    ..
  then show ?thesis
    unfolding expired_page_def
    by - (erule obx.evolves_update, drule (2) obx.page_key(2),
        auto simp: reclaim_row_def outbox_terminal_def expired_claim_def)
qed

lemma settle_evolves:
  assumes "sql_update outbox_row_ok outbox_conflict (fence e w v now) f t = Inr (rows, t')"
    and "\<And>r. ob_entry_id (f r) = ob_entry_id r" and "\<And>r. ob_version (f r) = ob_version r + 1"
  shows "obx.evo t t'"
  using assms(1) by (rule obx.evolves_update) (auto simp: fence_def outbox_terminal_def assms(2,3))

lemma enqueue_rel: "tx_rel obx.evo (enqueue clock e)"
  unfolding enqueue_def by (intro obx_intros) (rule obx.evolves_insert_or_skip)

lemma claim_rel: "tx_rel obx.evo (claim coll locked w topics now d n)"
  unfolding claim_def by (intro obx_intros) (rule claim_sql_evolves)

lemma ack_rel: "tx_rel obx.evo (ack e w v now)"
  unfolding ack_def by (intro obx_intros) (erule settle_evolves; simp add: outbox_row_updates)

lemma retry_rel: "tx_rel obx.evo (retry e w v available code now)"
  unfolding retry_def by (intro obx_intros) (erule settle_evolves; simp add: outbox_row_updates)

lemma dead_letter_rel: "tx_rel obx.evo (dead_letter e w v code now)"
  unfolding dead_letter_def
  by (intro obx_intros) (erule settle_evolves; simp add: outbox_row_updates)

lemma reclaim_rel: "tx_rel obx.evo (reclaim_expired coll locked now n)"
  unfolding reclaim_expired_def by (intro obx_intros) (rule reclaim_sql_evolves)

lemmas outbox_rels = tx_relD [OF enqueue_rel] tx_relD [OF claim_rel] tx_relD [OF ack_rel]
  tx_relD [OF retry_rel] tx_relD [OF dead_letter_rel] tx_relD [OF reclaim_rel]

interpretation obm: fenced_machine outbox_row_ok outbox_conflict ob_entry_id ob_version
  outbox_terminal outbox_step
proof
  fix t t' assume "outbox_step t t'"
  then show "obx.evo t t'"
    by cases (erule outbox_rels)+
qed

subsection \<open>Settling a claim\<close>

text \<open>
  The contract of \<open>ack\<close>, \<open>retry\<close> and \<open>dead_letter\<close>, in terms of the entry's row alone: look the
  entry up by its identity; if it is claimed by this worker at this version and the lease has not
  run out, end the claim with the given status, availability and error code; otherwise change
  nothing and raise the fence conflict.
\<close>

definition settled ::
  "outbox_status \<Rightarrow> instant option \<Rightarrow> string option \<Rightarrow> instant \<Rightarrow> outbox_row \<Rightarrow> outbox_row" where
  "settled status available code now r =
     \<lparr>ob_entry_id = ob_entry_id r, ob_topic = ob_topic r,
      ob_canonical_payload = ob_canonical_payload r, ob_payload_sha256 = ob_payload_sha256 r,
      ob_idempotency_key = ob_idempotency_key r,
      ob_available_at = (case available of None \<Rightarrow> ob_available_at r | Some x \<Rightarrow> x),
      ob_status = status, ob_lease_owner = None, ob_lease_expires_at = None,
      ob_version = ob_version r + 1, ob_attempt_count = ob_attempt_count r,
      ob_last_error_code = code, ob_created_at = ob_created_at r, ob_updated_at = now\<rparr>"

definition settle ::
  "(outbox_row \<Rightarrow> outbox_row) \<Rightarrow> string \<Rightarrow> string \<Rightarrow> int \<Rightarrow> instant \<Rightarrow> (outbox_row list, int) tx" where
  "settle f e w v now t =
     (let conflict = (Inl (err_code PlaneError ''outbox_fence_conflict''), t) in
      case List.find (\<lambda>r. ob_entry_id r = e) t of
        None \<Rightarrow> conflict
      | Some r \<Rightarrow>
          (case (ob_status r, ob_lease_owner r, ob_lease_expires_at r) of
             (Claimed, Some owner, Some expires) \<Rightarrow>
               if owner \<noteq> w \<or> ob_version r \<noteq> v \<or> expires \<le> now then conflict
               else if v < MAX_BIGINT then (Inr 1, map (\<lambda>x. if x = r then f x else x) t)
               else (Inl (DriverError RowRejected), t)
           | _ \<Rightarrow> conflict))"

lemma settled_rows:
  "ack_row now = settled Succeeded None None now"
  "retry_row available code now = settled Retry (Some available) (Some code) now"
  "dead_letter_row code now = settled Dead_letter None (Some code) now"
  by (rule ext, simp add: settled_def ack_row_def retry_row_def dead_letter_row_def)+

lemma fence_id: "fence e w v now r \<Longrightarrow> ob_entry_id r = e"
  by (simp add: fence_def)

lemma fence_claim:
  "ob_entry_id r = e \<Longrightarrow> fence e w v now r \<longleftrightarrow>
     (case (ob_status r, ob_lease_owner r, ob_lease_expires_at r) of
        (Claimed, Some owner, Some expires) \<Rightarrow> \<not> (owner \<noteq> w \<or> ob_version r \<noteq> v \<or> expires \<le> now)
      | _ \<Rightarrow> False)"
  by (cases "ob_status r"; cases "ob_lease_owner r"; cases "ob_lease_expires_at r")
    (auto simp: fence_def)

lemma settle_refused:
  assumes "\<forall>r \<in> set t. \<not> fence e w v now r"
  shows "settle f e w v now t = (Inl (err_code PlaneError ''outbox_fence_conflict''), t)"
proof (cases "List.find (\<lambda>r. ob_entry_id r = e) t")
  case None
  then show ?thesis by (simp add: settle_def)
next
  case (Some r)
  then have "r \<in> set t" "ob_entry_id r = e" by (auto simp: find_Some_iff)
  with assms have "\<not> fence e w v now r" by blast
  then show ?thesis unfolding fence_claim [OF \<open>ob_entry_id r = e\<close>]
    by (cases "ob_status r"; cases "ob_lease_owner r"; cases "ob_lease_expires_at r")
      (simp_all add: settle_def Some)
qed

lemma settle_accepted:
  assumes ok: "outbox_table_ok t" and r: "r \<in> set t" "fence e w v now r"
  shows "settle f e w v now t =
    (if v < MAX_BIGINT then (Inr 1, map (\<lambda>x. if fence e w v now x then f x else x) t)
     else (Inl (DriverError RowRejected), t))"
proof -
  have id: "ob_entry_id r = e" using r(2) by (rule fence_id)
  have only: "x = r" if "x \<in> set t" "ob_entry_id x = e" for x
    using obx.key_unique [OF ok that(1) r(1)] that(2) id by simp
  have "List.find (\<lambda>x. ob_entry_id x = e) t \<noteq> None"
    using r(1) id by (auto simp: find_None_iff)
  then obtain q where q: "List.find (\<lambda>x. ob_entry_id x = e) t = Some q" by blast
  then have "q \<in> set t" "ob_entry_id q = e" by (auto simp: find_Some_iff)
  then have "q = r" by (rule only)
  have "fence e w v now x \<longleftrightarrow> x = r" if "x \<in> set t" for x
    using only [OF that] fence_id [of e w v now x] r(2) by blast
  then have "map (\<lambda>x. if x = r then f x else x) t = map (\<lambda>x. if fence e w v now x then f x else x) t"
    by simp
  moreover have "settle f e w v now t =
      (if v < MAX_BIGINT then (Inr 1, map (\<lambda>x. if x = r then f x else x) t)
       else (Inl (DriverError RowRejected), t))"
    using r(2) unfolding fence_claim [OF id]
    by (cases "ob_status r"; cases "ob_lease_owner r"; cases "ob_lease_expires_at r")
      (simp_all add: settle_def q \<open>q = r\<close>)
  ultimately show ?thesis by simp
qed

lemma settle_update:
  assumes ok: "outbox_table_ok t"
    and keep: "\<And>r. ob_entry_id (f r) = ob_entry_id r" "\<And>r. ob_idempotency_key (f r) = ob_idempotency_key r"
    and shape: "\<And>r. outbox_row_ok r \<Longrightarrow> fence e w v now r \<Longrightarrow> outbox_row_ok (f r) \<longleftrightarrow> v < MAX_BIGINT"
  shows "tx_bind (tx_stmt (sql_update outbox_row_ok outbox_conflict (fence e w v now) f))
      (\<lambda>rows. tx_lift (require_single_update rows)) t = settle f e w v now t"
proof (cases "\<exists>r \<in> set t. fence e w v now r")
  case False
  then have none: "\<forall>r \<in> set t. \<not> fence e w v now r" by blast
  then have "filter (fence e w v now) t = []" "map (\<lambda>r. if fence e w v now r then f r else r) t = t"
    by (auto intro: map_idI)
  with none ok show ?thesis
    by (simp add: settle_refused sql_update_def tx_bind_def tx_stmt_def require_single_update_def
        tx_lift_def table_ok_def)
next
  case True
  then obtain r where r: "r \<in> set t" "fence e w v now r" by blast
  have flt: "filter (fence e w v now) t = [r]"
    using ok r by (rule obx.filter_key) (metis fence_id r(2))
  have row: "outbox_row_ok r" using ok r(1) by (simp add: table_ok_def)
  show ?thesis
  proof (cases "v < MAX_BIGINT")
    case True
    have "sql_update outbox_row_ok outbox_conflict (fence e w v now) f t =
        Inr (map f (filter (fence e w v now) t), map (\<lambda>s. if fence e w v now s then f s else s) t)"
      using ok
    proof (rule obx.update_succeeds)
      show "outbox_row_ok (f s)" if "s \<in> set t" "fence e w v now s" for s
        using shape that True ok by (auto simp: table_ok_def)
    qed (auto simp: outbox_conflict_def keep split: if_splits)
    then show ?thesis
      using True flt settle_accepted [OF ok r]
      by (simp add: tx_bind_def tx_stmt_def require_single_update_def tx_lift_def)
  next
    case False
    with shape [OF row r(2)] r have "\<exists>s \<in> set t. fence e w v now s \<and> \<not> outbox_row_ok (f s)" by blast
    with False settle_accepted [OF ok r] show ?thesis
      by (simp add: sql_update_def tx_bind_def tx_stmt_def)
  qed
qed

lemma settle_shapes:
  assumes "outbox_row_ok r" and "fence e w v now r"
  shows "outbox_row_ok (ack_row now r) \<longleftrightarrow> v < MAX_BIGINT"
    and "outbox_row_ok (retry_row available code now r) \<longleftrightarrow> v < MAX_BIGINT"
    and "outbox_row_ok (dead_letter_row code now r) \<longleftrightarrow> v < MAX_BIGINT"
  using assms by (auto simp: outbox_row_ok_def fence_def outbox_row_updates)

lemma fence_inputs_ok:
  "safe_id e \<Longrightarrow> safe_id w \<Longrightarrow> 1 \<le> v \<Longrightarrow> fence_inputs e w v = Inr (e, w, v)"
  by (simp add: fence_inputs_def bounded_ident_def)

lemma utc_instant_utc [simp]: "in_datetime_range t \<Longrightarrow> utc_instant (utc t) = Inr t"
  by (simp add: utc_instant_def astimezone_utc_def)

lemmas settle_calls = tx_bind_simps fence_inputs_ok bounded_ident_def

lemma ack_settles:
  assumes "outbox_table_ok t" and "safe_id e" and "safe_id w" and "1 \<le> v" and "in_datetime_range now"
  shows "ack e w v (utc now) t = settle (ack_row now) e w v now t"
  unfolding ack_def using assms
  by (simp add: settle_calls) (rule settle_update; simp add: settle_shapes)

text \<open>
  C29. \<open>ack\<close>, \<open>retry\<close> and \<open>dead_letter\<close> settle exactly the live claim they name. On a table that
  satisfies its constraints and with well-formed arguments: the entry's row is looked up, and if it
  is claimed by this worker, at this version, with a lease that ends after now, it becomes
  Succeeded, Retry at the new time, or Dead_letter, without lease, at the next version, with the
  error code given, and everything else about it unchanged; one row is reported. In every other case the
  fence conflict is raised and nothing changes. The one constraint a call can trip is the range of the
  version column, at its last value.
\<close>

theorem settlement_refines_fence:
  assumes "outbox_table_ok t" and "safe_id e" and "safe_id w" and "1 \<le> v"
    and "in_datetime_range now" and "in_datetime_range available" and "safe_error_code code"
  shows "ack e w v (utc now) t = settle (settled Succeeded None None now) e w v now t \<and>
    retry e w v (utc available) code (utc now) t =
      settle (settled Retry (Some available) (Some code) now) e w v now t \<and>
    dead_letter e w v code (utc now) t = settle (settled Dead_letter None (Some code) now) e w v now t"
  unfolding ack_settles [OF assms(1-5)] retry_def dead_letter_def settled_rows [symmetric] using assms
  by (simp add: settle_calls, intro conjI) (rule settle_update; simp add: settle_shapes)+

text \<open>A claimed row for the witnesses.\<close>

definition sample_row :: outbox_row where
  "sample_row =
     \<lparr>ob_entry_id = ''job-1'', ob_topic = ''mail'', ob_canonical_payload = [1],
      ob_payload_sha256 = replicate 64 (CHR ''a''), ob_idempotency_key = ''op-1'',
      ob_available_at = 0, ob_status = Claimed, ob_lease_owner = Some ''worker-1'',
      ob_lease_expires_at = Some 100, ob_version = 1, ob_attempt_count = 1,
      ob_last_error_code = None, ob_created_at = 0, ob_updated_at = 0\<rparr>"

lemma sample_names: "safe_topic ''mail''" "safe_id ''job-1''" "safe_id ''worker-1''"
  "safe_error_code ''timeout''" "lower_hex 64 (replicate 64 (CHR ''a''))"
  by code_simp+

lemma sample_table_ok: "outbox_table_ok [sample_row]"
  by (simp add: table_ok_def outbox_row_ok_def sample_row_def sample_names MAX_BIGINT_def
      MAX_INTEGER_def MAX_PAYLOAD_BYTES_def)

lemma sample_settled:
  "settle (ack_row 50) ''job-1'' ''worker-1'' 1 50 [sample_row] = (Inr 1, [ack_row 50 sample_row])"
  by (simp add: settle_def sample_row_def MAX_BIGINT_def)

lemma sample_acked:
  "ack ''job-1'' ''worker-1'' 1 (utc 50) [sample_row] = (Inr 1, [ack_row 50 sample_row])"
  using ack_settles [OF sample_table_ok sample_names(2,3)] sample_settled
  by (simp add: in_datetime_range_def min_instant_def max_instant_def)

theorem settlement_refines_fence_witness:
  "ack ''job-1'' ''worker-1'' 1 (utc 50) [sample_row] =
     (Inr 1, [settled Succeeded None None 50 sample_row]) \<and>
   fst (retry ''job-1'' ''worker-1'' 1 (utc 200) ''timeout'' (utc 150) [sample_row]) =
     Inl (err_code PlaneError ''outbox_fence_conflict'')"
proof -
  have args: "in_datetime_range 50" "in_datetime_range 150" "in_datetime_range 200"
    by code_simp+
  have "settle (settled Succeeded None None 50) ''job-1'' ''worker-1'' 1 50 [sample_row] =
      (Inr 1, [settled Succeeded None None 50 sample_row])"
    using sample_settled by (simp add: settled_rows)
  moreover have
    "fst (settle (settled Retry (Some 200) (Some ''timeout'') 150) ''job-1'' ''worker-1'' 1 150 [sample_row]) =
      Inl (err_code PlaneError ''outbox_fence_conflict'')"
    by (simp add: settle_def sample_row_def)
  ultimately show ?thesis
    using settlement_refines_fence [OF sample_table_ok sample_names(2,3) _ args(1,3) sample_names(4), of 1]
      settlement_refines_fence [OF sample_table_ok sample_names(2,3) _ args(2,3) sample_names(4), of 1]
    by simp
qed

subsection \<open>A claim ends once\<close>

text \<open>
  The claim of \<open>e\<close> at version \<open>v\<close> ends when its holder settles it or when the reclaimer takes
  the expired lease away.
\<close>

inductive ends_claim :: "string \<Rightarrow> int \<Rightarrow> outbox_row list \<Rightarrow> outbox_row list \<Rightarrow> bool" where
  acked: "ack e w v now t = (Inr n, t') \<Longrightarrow> ends_claim e v t t'"
| retried: "retry e w v available code now t = (Inr n, t') \<Longrightarrow> ends_claim e v t t'"
| dead_lettered: "dead_letter e w v code now t = (Inr n, t') \<Longrightarrow> ends_claim e v t t'"
| reclaimed: "reclaim_expired coll locked now n t = (Inr items, t') \<Longrightarrow> i \<in> set items \<Longrightarrow>
    re_entry_id i = e \<Longrightarrow> re_expected_version i = v + 1 \<Longrightarrow> ends_claim e v t t'"

definition has_version :: "string \<Rightarrow> int \<Rightarrow> outbox_row list \<Rightarrow> bool" where
  "has_version e v t = (\<exists>r \<in> set t. ob_entry_id r = e \<and> ob_version r = v)"

lemma settled_versions:
  assumes "sql_update outbox_row_ok outbox_conflict (fence e w v now) f t = Inr (rows, t')"
    and "rows \<noteq> []"
    and "\<And>r. ob_entry_id (f r) = ob_entry_id r" and "\<And>r. ob_version (f r) = ob_version r + 1"
  shows "has_version e v t \<and> has_version e (v + 1) t'"
proof -
  from assms(1) have "rows = map f (filter (fence e w v now) t)"
    and t': "t' = map (\<lambda>r. if fence e w v now r then f r else r) t"
    by (auto simp: sql_update_def Let_def split: if_splits)
  with assms(2) obtain r where r: "r \<in> set t" "fence e w v now r"
    by (auto simp: filter_empty_conv)
  then have "f r \<in> set t'" by (force simp: t')
  with r assms(3,4) show ?thesis by (auto simp: has_version_def fence_def intro: bexI)
qed

lemma reclaimed_versions:
  assumes "reclaim_sql coll locked now limit t = Inr (rows, t')"
    and "traverse reclaimed_from_row rows = Inr items" and "i \<in> set items"
  shows "has_version (re_entry_id i) (re_expected_version i - 1) t \<and>
    has_version (re_entry_id i) (re_expected_version i) t'"
proof -
  let ?w = "\<lambda>r. ob_entry_id r \<in> set (expired_page coll locked now limit t)"
  from assms(1) have rows: "rows = zip (map ob_lease_owner (filter ?w t)) (map (reclaim_row now) (filter ?w t))"
    and t': "t' = map (\<lambda>r. if ?w r then reclaim_row now r else r) t"
    by (auto simp: reclaim_sql_def sql_update_def Let_def split: if_splits sum.splits)
  from assms(2,3) obtain p where p: "p \<in> set rows" "reclaimed_from_row p = Inr i"
    by (meson traverse_set)
  then have "re_entry_id i = ob_entry_id (snd p) \<and> re_expected_version i = ob_version (snd p)"
    by (auto simp: reclaimed_from_row_def record_bounded_text_def
        split: prod.splits option.splits if_splits sum.splits)
  moreover from p(1) have "snd p \<in> set (map (reclaim_row now) (filter ?w t))"
    unfolding rows by (metis prod.collapse set_zip_rightD)
  then obtain r where r: "r \<in> set t" "?w r" "snd p = reclaim_row now r" by auto
  moreover from r have "reclaim_row now r \<in> set t'" by (force simp: t')
  ultimately show ?thesis unfolding has_version_def by (intro conjI bexI) auto
qed

lemma ends_claim_versions:
  "ends_claim e v t t' \<Longrightarrow> has_version e v t \<and> has_version e (v + 1) t'"
proof (induction rule: ends_claim.induct)
  case (acked e w v now t n t')
  then show ?case
    by (clarsimp simp: ack_def fence_inputs_def bounded_ident_def require_single_update_def
        tx_success split: if_splits) (erule settled_versions; force)
next
  case (retried e w v available code now t n t')
  then show ?case
    by (clarsimp simp: retry_def fence_inputs_def bounded_ident_def require_single_update_def
        tx_success split: if_splits) (erule settled_versions; force)
next
  case (dead_lettered e w v code now t n t')
  then show ?case
    by (clarsimp simp: dead_letter_def fence_inputs_def bounded_ident_def
        require_single_update_def tx_success split: if_splits) (erule settled_versions; force)
next
  case (reclaimed coll locked now n t items t' i e v)
  then obtain m l rows xs where "reclaim_sql coll locked m l t = Inr (rows, t')"
    and "traverse reclaimed_from_row rows = Inr xs" and "i \<in> set xs"
    by (auto simp: reclaim_expired_def tx_success)
  from reclaimed_versions [OF this] reclaimed(3,4) show ?case by simp
qed

lemma ends_claim_step: "ends_claim e v t t' \<Longrightarrow> outbox_step t t'"
  by (induction rule: ends_claim.induct) (rule outbox_step.intros, assumption)+

text \<open>
  C1. A claim ends at most once. When a claim of an entry at some version has been acknowledged,
  retried, dead-lettered or reclaimed, then after any further calls of the store by any workers
  no call with that version succeeds on the entry again.
\<close>

theorem claim_ends_once:
  assumes "outbox_table_ok t" and "ends_claim e v t t1" and "outbox_step\<^sup>*\<^sup>* t1 t2"
  shows "\<not> ends_claim e v t2 t3"
proof
  assume "ends_claim e v t2 t3"
  then obtain q where q: "q \<in> set t2" "ob_entry_id q = e" "ob_version q = v"
    using ends_claim_versions [of e v t2 t3] by (auto simp: has_version_def)
  from assms(2) obtain r where r: "r \<in> set t1" "ob_entry_id r = e" "ob_version r = v + 1"
    using ends_claim_versions [of e v t t1] by (auto simp: has_version_def)
  have "outbox_table_ok t1"
    using obm.run_keeps(1) [OF r_into_rtranclp] ends_claim_step [OF assms(2)] assms(1) .
  from obm.no_lost_update [OF assms(3) this r(1) q(1)] q r show False by simp
qed

theorem claim_ends_once_witness:
  "\<forall>t3. \<not> ends_claim ''job-1'' 1 [ack_row 50 sample_row] t3"
  using claim_ends_once [OF sample_table_ok acked [OF sample_acked] rtranclp.rtrancl_refl] by blast

subsection \<open>The work an entry stands for\<close>

text \<open>
  No call rewrites what an entry stands for. Only the time it becomes available moves, to a
  time a \<open>datetime\<close> can hold.
\<close>

definition same_work :: "outbox_row \<Rightarrow> outbox_row \<Rightarrow> bool" where
  "same_work r s =
     (ob_entry_id s = ob_entry_id r \<and> ob_topic s = ob_topic r \<and>
      ob_canonical_payload s = ob_canonical_payload r \<and> ob_payload_sha256 s = ob_payload_sha256 r \<and>
      ob_idempotency_key s = ob_idempotency_key r \<and>
      (ob_available_at s = ob_available_at r \<or> in_datetime_range (ob_available_at s)))"

definition work_kept :: "outbox_row list \<Rightarrow> outbox_row list \<Rightarrow> bool" where
  "work_kept t t' = (\<forall>r \<in> set t. \<exists>s \<in> set t'. same_work r s)"

lemma same_work_refl [simp]: "same_work r r"
  by (simp add: same_work_def)

lemma same_work_trans: "same_work r s \<Longrightarrow> same_work s q \<Longrightarrow> same_work r q"
  by (auto simp: same_work_def)

interpretation obw: step_order work_kept
proof
  show "work_kept s s" for s by (meson same_work_refl work_kept_def)
  show "work_kept s t \<Longrightarrow> work_kept t u \<Longrightarrow> work_kept s u" for s t u
    unfolding work_kept_def by (meson same_work_trans)
qed

lemma work_kept_update:
  assumes "sql_update outbox_row_ok outbox_conflict w f t = Inr (rows, t')"
    and "\<And>r. same_work r (f r)"
  shows "work_kept t t'"
proof -
  from assms(1) have "t' = map (\<lambda>r. if w r then f r else r) t"
    by (auto simp: sql_update_def Let_def split: if_splits)
  then have "(if w r then f r else r) \<in> set t'" if "r \<in> set t" for r using that by auto
  with assms(2) show ?thesis unfolding work_kept_def by (metis same_work_refl)
qed

lemma work_kept_insert:
  assumes "sql_insert_or_skip outbox_row_ok a outbox_conflict r t = Inr (x, t')"
  shows "work_kept t t'"
proof -
  from assms have "set t \<subseteq> set t'" by (auto simp: sql_insert_or_skip_def split: if_splits)
  then show ?thesis unfolding work_kept_def by (meson same_work_refl subsetD)
qed

lemma utc_instant_range: "utc_instant t = Inr x \<Longrightarrow> in_datetime_range x"
  by (auto simp: utc_instant_def astimezone_utc_def split: pytime.splits if_splits)

lemmas obw_intros = obw.rel_bind_lift obw.rel_intros obw.rel_stmt

lemmas same_work_updates = same_work_def outbox_row_updates

lemma outbox_step_keeps_work: "outbox_step t t' \<Longrightarrow> work_kept t t'"
proof (induction rule: outbox_step.induct)
  case (enqueue clock e t x t')
  then show ?case
    by (rule tx_relD [rotated]) (unfold enqueue_def, intro obw_intros, rule work_kept_insert)
next
  case (claim coll locked w topics now d n t y t')
  then show ?case
    by (rule tx_relD [rotated])
      (unfold claim_def, intro obw_intros,
        auto simp: claim_sql_def same_work_updates elim!: work_kept_update)
next
  case (ack e w v now t x t')
  then show ?case
    by (rule tx_relD [rotated])
      (unfold ack_def, intro obw_intros, erule work_kept_update, simp add: same_work_updates)
next
  case (retry e w v available code now t x t')
  then show ?case
    by (rule tx_relD [rotated])
      (unfold retry_def, intro obw_intros, erule work_kept_update,
        auto simp: same_work_updates dest: utc_instant_range)
next
  case (dead_letter e w v code now t x t')
  then show ?case
    by (rule tx_relD [rotated])
      (unfold dead_letter_def, intro obw_intros, erule work_kept_update,
        simp add: same_work_updates)
next
  case (reclaim coll locked now n t z t')
  then show ?case
    by (rule tx_relD [rotated])
      (unfold reclaim_expired_def, intro obw_intros, drule reclaim_sql_update, clarify,
        erule work_kept_update, auto simp: same_work_updates dest: utc_instant_range)
qed

lemma outbox_run_keeps_work: "outbox_step\<^sup>*\<^sup>* t t' \<Longrightarrow> work_kept t t'"
  by (induction rule: rtranclp_induct)
    (blast intro: obw.order_refl, blast intro: obw.order_trans outbox_step_keeps_work)

lemma py_lower_hex: "lower_hex n s \<Longrightarrow> py_lower s = s"
proof -
  have "\<forall>c \<in> set hex_chars. py_lower_char c = c"
    by (simp add: char_class_defs py_lower_char_def)
  then show "lower_hex n s \<Longrightarrow> py_lower s = s"
    unfolding py_lower_def lower_hex_def by (metis map_idI)
qed

lemma validate_entry_Inr:
  assumes "validate_entry e = Inr x"
  obtains t where "safe_id (oe_entry_id x)" "safe_topic (oe_topic x)" "safe_id (oe_idempotency_key x)"
    "oe_canonical_payload x \<noteq> []" "length (oe_canonical_payload x) \<le> MAX_PAYLOAD_BYTES"
    "lower_hex 64 (oe_payload_sha256 x)" "sha256_hex (oe_canonical_payload x) = oe_payload_sha256 x"
    "oe_available_at x = utc t" "in_datetime_range t"
proof -
  from assms obtain t where "utc_instant (oe_available_at e) = Inr t"
    and "oe_available_at x = utc t" "safe_id (oe_entry_id x)" "safe_topic (oe_topic x)"
    "safe_id (oe_idempotency_key x)" "oe_canonical_payload x \<noteq> []"
    "length (oe_canonical_payload x) \<le> MAX_PAYLOAD_BYTES" "lower_hex 64 (oe_payload_sha256 x)"
    "sha256_hex (oe_canonical_payload x) = oe_payload_sha256 x"
    by (auto simp: validate_entry_def bounded_ident_def Let_def not_less split: if_splits sum.splits)
  with utc_instant_range [OF this(1)] show ?thesis by (intro that)
qed

lemma pending_row_ok:
  "validate_entry e = Inr x \<Longrightarrow> outbox_row_ok (pending_row x a clock)"
  by (erule validate_entry_Inr)
    (auto simp: pending_row_def outbox_row_ok_def MAX_BIGINT_def MAX_INTEGER_def Suc_le_eq)

lemma entry_from_same_work:
  assumes "validate_entry e = Inr x"
    and "same_work (pending_row x (instant_of (oe_available_at x)) clock) r"
  shows "entry_from_row r = Inr (x\<lparr>oe_available_at := utc (ob_available_at r)\<rparr>)"
proof -
  from assms(1) obtain t where x: "safe_id (oe_entry_id x)" "safe_topic (oe_topic x)"
    "safe_id (oe_idempotency_key x)" "oe_canonical_payload x \<noteq> []"
    "length (oe_canonical_payload x) \<le> MAX_PAYLOAD_BYTES" "lower_hex 64 (oe_payload_sha256 x)"
    "sha256_hex (oe_canonical_payload x) = oe_payload_sha256 x"
    "oe_available_at x = utc t" "in_datetime_range t"
    by (rule validate_entry_Inr)
  with assms(2) have "in_datetime_range (ob_available_at r)"
    by (auto simp: same_work_def pending_row_def)
  with x assms(2) show ?thesis
    by (simp add: entry_from_row_def validate_entry_def bounded_ident_def Let_def same_work_def
        pending_row_def py_lower_hex)
qed

lemma enqueue_known:
  assumes "outbox_table_ok t" and "validate_entry e = Inr x" and "r \<in> set t"
    and "ob_idempotency_key r = oe_idempotency_key x"
  shows "enqueue clock e t =
    (case entry_from_row r of Inl y \<Rightarrow> (Inl y, t)
     | Inr found \<Rightarrow>
         (if found = x then Inr 0 else Inl (err_code PlaneError ''outbox_idempotency_conflict''), t))"
proof -
  have "List.find (\<lambda>s. ob_idempotency_key s = oe_idempotency_key x) t = Some r"
    using obk.find_key [OF assms(1,3)] assms(4) by auto
  moreover have "sql_insert_or_skip outbox_row_ok
      (\<lambda>r s. ob_idempotency_key r = ob_idempotency_key s) outbox_conflict
      (pending_row x (instant_of (oe_available_at x)) clock) t = Inr (None, t)"
    using pending_row_ok [OF assms(2)] bexI [OF _ assms(3)] assms(4)
    by (simp add: sql_insert_or_skip_def)
  ultimately show ?thesis
    by (simp add: enqueue_def assms(2) tx_bind_simps tx_bind_stmt(1) tx_raise_def tx_return_def
        split: sum.split)
qed

lemma enqueue_inserts:
  assumes "enqueue clock e t = (Inr 1, t')"
  obtains x where "validate_entry e = Inr x"
    and "pending_row x (instant_of (oe_available_at x)) clock \<in> set t'"
  using assms
  by (auto simp: enqueue_def tx_success sql_insert_or_skip_def Let_def
      split: if_splits option.splits)

text \<open>
  C30. Enqueuing is idempotent exactly as long as the stored availability time is the enqueued
  one. After a successful enqueue and any further calls of the store, enqueuing the same entry
  again changes nothing; it reports zero rows when the row still carries the availability time of
  the entry, and the idempotency conflict when a retry or a reclaim has moved that time.
\<close>

theorem enqueue_replay:
  assumes "outbox_table_ok t" and "enqueue clock e t = (Inr 1, t1)" and "outbox_step\<^sup>*\<^sup>* t1 t2"
  shows "\<exists>x. validate_entry e = Inr x \<and> (\<exists>r \<in> set t2. ob_entry_id r = oe_entry_id x \<and>
    enqueue clock' e t2 =
      (if utc (ob_available_at r) = oe_available_at x then Inr 0
       else Inl (err_code PlaneError ''outbox_idempotency_conflict''), t2))"
proof -
  from assms(2) obtain x where x: "validate_entry e = Inr x"
    and "pending_row x (instant_of (oe_available_at x)) clock \<in> set t1" by (rule enqueue_inserts)
  with outbox_run_keeps_work [OF assms(3)] obtain r where r: "r \<in> set t2"
    and work: "same_work (pending_row x (instant_of (oe_available_at x)) clock) r"
    unfolding work_kept_def by blast
  then have id: "ob_entry_id r = oe_entry_id x" and key: "ob_idempotency_key r = oe_idempotency_key x"
    by (simp_all add: same_work_def)
  have "outbox_table_ok t2"
    using obm.run_keeps(1) [OF converse_rtranclp_into_rtranclp] outbox_step.enqueue [OF assms(2)]
      assms(3,1) .
  from enqueue_known [OF this x r key, of clock'] entry_from_same_work [OF x work]
  have "enqueue clock' e t2 =
      (if utc (ob_available_at r) = oe_available_at x then Inr 0
       else Inl (err_code PlaneError ''outbox_idempotency_conflict''), t2)"
    by (cases x) auto
  with x r id show ?thesis by blast
qed

definition sample_entry :: outbox_entry where
  "sample_entry =
     \<lparr>oe_entry_id = ''job-1'', oe_topic = ''mail'', oe_canonical_payload = [1],
      oe_payload_sha256 = sha256_hex [1], oe_idempotency_key = ''job-1'',
      oe_available_at = utc 0\<rparr>"

lemma sample_entry_valid: "validate_entry sample_entry = Inr sample_entry"
  by (simp add: validate_entry_def sample_entry_def bounded_ident_def sample_names Let_def
      MAX_PAYLOAD_BYTES_def py_lower_hex [of 64] in_datetime_range_def min_instant_def
      max_instant_def)

lemma sample_enqueue: "enqueue 5 sample_entry [] = (Inr 1, [pending_row sample_entry 0 5])"
  by (simp add: enqueue_def sample_entry_valid tx_bind_simps tx_bind_stmt sql_insert_or_skip_def
      pending_row_ok [OF sample_entry_valid] tx_return_def)
    (simp add: sample_entry_def)

theorem enqueue_replay_witness:
  "enqueue 9 sample_entry [pending_row sample_entry 0 5] = (Inr 0, [pending_row sample_entry 0 5])"
proof -
  have "outbox_table_ok []" by (simp add: table_ok_def)
  from enqueue_replay [OF this sample_enqueue rtranclp.rtrancl_refl, of 9] sample_entry_valid
  show ?thesis by (auto simp: sample_entry_def)
qed

subsection \<open>What a claim takes\<close>

abbreviation due_page ::
  "(string \<Rightarrow> string) \<Rightarrow> (string \<Rightarrow> bool) \<Rightarrow> string list \<Rightarrow> instant \<Rightarrow> nat \<Rightarrow> outbox_row list
     \<Rightarrow> outbox_row list" where
  "due_page coll locked topics now n \<equiv>
     sql_page (claimable locked topics now) (\<lambda>r. (ob_available_at r, coll (ob_entry_id r))) n"

lemma claim_sql_rows:
  assumes ok: "outbox_table_ok t"
    and sql: "claim_sql coll locked topics now n w x t = Inr (rows, t')"
  obtains ps where "rows = map (claim_row w x now) ps"
    and "set ps = set (due_page coll locked topics now (nat n) t)"
    and "length ps = length (due_page coll locked topics now (nat n) t)"
    and "t' = map (\<lambda>r. if r \<in> set (due_page coll locked topics now (nat n) t)
           then claim_row w x now r else r) t"
proof
  let ?pg = "due_page coll locked topics now (nat n) t"
  let ?w = "\<lambda>r. ob_entry_id r \<in> set (map ob_entry_id ?pg)"
  have w: "?w r \<longleftrightarrow> r \<in> set ?pg" if "r \<in> set t" for r
    using obx.page_key(1) [OF ok that] by auto
  have sub: "set ?pg \<subseteq> set t" by (meson sql_page_sound(1) subsetI)
  from sql show "rows = map (claim_row w x now) (filter ?w t)"
    by (auto simp: claim_sql_def sql_update_def Let_def split: if_splits)
  from w sub show set: "set (filter ?w t) = set ?pg" by auto
  have dist: "distinct t" using obx.distinct_rows [OF ok] by (simp add: distinct_map)
  then have "distinct ?pg" by (simp add: sql_page_def)
  with dist set show "length (filter ?w t) = length ?pg"
    using distinct_card [of "filter ?w t"] distinct_card [of ?pg] by simp
  from sql have "t' = map (\<lambda>r. if ?w r then claim_row w x now r else r) t"
    by (auto simp: claim_sql_def sql_update_def Let_def split: if_splits)
  with w show "t' = map (\<lambda>r. if r \<in> set ?pg then claim_row w x now r else r) t" by simp
qed

definition is_claim_of :: "string \<Rightarrow> instant \<Rightarrow> outbox_row \<Rightarrow> claimed_outbox_entry \<Rightarrow> bool" where
  "is_claim_of w x r c =
     (oe_entry_id (ce_entry c) = ob_entry_id r \<and> oe_topic (ce_entry c) = ob_topic r \<and>
      oe_canonical_payload (ce_entry c) = ob_canonical_payload r \<and>
      sha256_hex (ob_canonical_payload r) = oe_payload_sha256 (ce_entry c) \<and>
      ce_worker_id c = w \<and> ce_lease_expires_at c = x \<and>
      ce_expected_version c = ob_version r + 1 \<and> ce_attempt c = ob_attempt_count r + 1)"

lemma claimed_from_claim_row:
  "claimed_from_row (claim_row w x now r) = Inr c \<Longrightarrow> is_claim_of w x r c"
  by (auto simp: claimed_from_row_def claim_row_def entry_from_row_def validate_entry_def
      bounded_ident_def is_claim_of_def Let_def split: if_splits sum.splits)

lemma traverse_topics: "traverse (bounded_ident p) xs = Inr ys \<Longrightarrow> ys = xs"
  by (induction xs arbitrary: ys) (auto simp: bounded_ident_def split: if_splits sum.splits)

lemma claim_success:
  assumes "claim coll locked w topics (utc now) d n t = (Inr cs, t')"
  obtains rows cl where "claim_sql coll locked topics now n w (now + d) t = Inr (rows, t')"
    and "traverse claimed_from_row rows = Inr cl" and "set cs = set cl" and "length cs = length cl"
    and "safe_id w" and "1 \<le> n" and "n \<le> 1000"
    and "sorted (map (\<lambda>c. (instant_of (oe_available_at (ce_entry c)), oe_entry_id (ce_entry c))) cs)"
  using assms
  by (auto simp: claim_def tx_success bounded_ident_def positive_limit_def utc_instant_def
      astimezone_utc_def Let_def split: if_splits dest!: traverse_topics)

definition has_claim :: "claimed_outbox_entry list \<Rightarrow> outbox_row \<Rightarrow> bool" where
  "has_claim cs r = (\<exists>c \<in> set cs. oe_entry_id (ce_entry c) = ob_entry_id r)"

lemma claims_of_page:
  assumes ok: "outbox_table_ok t" and claims: "list_all2 (is_claim_of w x) ps cl"
    and "set ps = set (sql_page p k n t)" and "set cs = set cl" and r: "r \<in> set t"
  shows "has_claim cs r \<longleftrightarrow> r \<in> set (sql_page p k n t)"
proof -
  from claims have "map (\<lambda>c. oe_entry_id (ce_entry c)) cl = map ob_entry_id ps"
    by (induction rule: list_all2_induct) (auto simp: is_claim_of_def)
  then have "(\<lambda>c. oe_entry_id (ce_entry c)) ` set cl = ob_entry_id ` set ps"
    by (metis set_map)
  moreover have "has_claim cs r \<longleftrightarrow> ob_entry_id r \<in> (\<lambda>c. oe_entry_id (ce_entry c)) ` set cs"
    by (force simp: has_claim_def)
  ultimately have "has_claim cs r \<longleftrightarrow> ob_entry_id r \<in> set (map ob_entry_id (sql_page p k n t))"
    by (simp add: assms(3,4))
  then show ?thesis using obx.page_key(1) [OF ok r] by auto
qed

text \<open>
  C10. A claim takes the oldest due work and nothing else. A successful claim on a table that
  satisfies its constraints returns at most the requested number of entries, ordered by
  availability and identity. Each of them was pending or waiting for a retry, available by now, of a
  requested topic and not locked by another claimer, and is handed over with its payload under a
  verified digest. Its row becomes claimed by the worker until the lease runs out, at the next version and
  attempt, with no error code; every other row is unchanged. When some due row is left
  behind then the claim is full and no claimed row comes after it in the order of availability
  and collated identity.
\<close>

theorem claim_takes_oldest_due:
  assumes ok: "outbox_table_ok t" and res: "claim coll locked w topics (utc now) d n t = (Inr cs, t')"
  shows "let due = (\<lambda>r. (ob_status r = Pending \<or> ob_status r = Retry) \<and> ob_topic r \<in> set topics \<and>
          ob_available_at r \<le> now \<and> \<not> locked (ob_entry_id r));
        order = (\<lambda>r. (ob_available_at r, coll (ob_entry_id r))) in
    int (length cs) \<le> n \<and>
    sorted (map (\<lambda>c. (instant_of (oe_available_at (ce_entry c)), oe_entry_id (ce_entry c))) cs) \<and>
    (\<forall>c \<in> set cs. \<exists>r \<in> set t. due r \<and> is_claim_of w (now + d) r c) \<and>
    t' = map (\<lambda>r. if has_claim cs r
        then r\<lparr>ob_status := Claimed, ob_lease_owner := Some w, ob_lease_expires_at := Some (now + d),
          ob_version := ob_version r + 1, ob_attempt_count := ob_attempt_count r + 1,
          ob_last_error_code := None, ob_updated_at := now\<rparr>
        else r) t \<and>
    (\<forall>r \<in> set t. due r \<and> \<not> has_claim cs r \<longrightarrow>
       int (length cs) = n \<and> (\<forall>q \<in> set t. has_claim cs q \<longrightarrow> order q \<le> order r))"
proof -
  let ?pg = "due_page coll locked topics now (nat n) t"
  from res obtain rows cl where sql: "claim_sql coll locked topics now n w (now + d) t = Inr (rows, t')"
    and cl: "traverse claimed_from_row rows = Inr cl" "set cs = set cl" "length cs = length cl"
    and n: "1 \<le> n"
    and ord: "sorted (map (\<lambda>c. (instant_of (oe_available_at (ce_entry c)), oe_entry_id (ce_entry c))) cs)"
    by (rule claim_success)
  from ok sql obtain ps where ps: "rows = map (claim_row w (now + d) now) ps" "set ps = set ?pg"
      "length ps = length ?pg"
    and t': "t' = map (\<lambda>r. if r \<in> set ?pg then claim_row w (now + d) now r else r) t"
    by (rule claim_sql_rows)
  from cl(1) have claims: "list_all2 (is_claim_of w (now + d)) ps cl"
    unfolding ps(1) traverse_Inr_iff list_all2_map1
    by (rule list_all2_mono) (rule claimed_from_claim_row)
  have page: "has_claim cs r \<longleftrightarrow> r \<in> set ?pg" if "r \<in> set t" for r
    using claims_of_page [OF ok claims ps(2) cl(2) that] .
  have len: "length cs = length ?pg" using list_all2_lengthD [OF claims] ps(3) cl(3) by simp
  have one: "\<exists>r \<in> set t. claimable locked topics now r \<and> is_claim_of w (now + d) r c" if "c \<in> set cs" for c
  proof -
    from that cl(2) obtain p where "p \<in> set ps" "is_claim_of w (now + d) p c"
      using list_all2_source [OF claims] by auto
    with ps(2) show ?thesis by (metis sql_page_sound)
  qed
  have two: "int (length cs) = n \<and> (\<forall>q \<in> set t. has_claim cs q \<longrightarrow>
      (ob_available_at q, coll (ob_entry_id q)) \<le> (ob_available_at r, coll (ob_entry_id r)))"
    if r: "r \<in> set t" "claimable locked topics now r" "\<not> has_claim cs r" for r
  proof -
    from r page have out: "r \<notin> set ?pg" by simp
    have "(ob_available_at q, coll (ob_entry_id q)) \<le> (ob_available_at r, coll (ob_entry_id r))"
      if "q \<in> set t" "has_claim cs q" for q
      using sql_page_minimal [OF _ r(1,2) out, of q] that page by blast
    with sql_page_full [OF r(1,2) out] len n show ?thesis by simp
  qed
  have "length ?pg \<le> nat n" by (rule length_sql_page)
  with len n have "int (length cs) \<le> n" by linarith
  moreover have "t' = map (\<lambda>r. if has_claim cs r then claim_row w (now + d) now r else r) t"
    using t' page by simp
  ultimately show ?thesis
    using ord one two unfolding Let_def claimable_def claim_row_def by simp
qed

definition sample_claim :: claimed_outbox_entry where
  "sample_claim =
     \<lparr>ce_entry = sample_entry, ce_worker_id = ''worker-1'', ce_lease_expires_at = 110,
      ce_expected_version = 1, ce_attempt = 1\<rparr>"

lemma sample_claim_row_ok:
  "outbox_row_ok (claim_row ''worker-1'' 110 10 (pending_row sample_entry 0 5))"
  using pending_row_ok [OF sample_entry_valid, of 0 5]
  by (simp add: outbox_row_ok_def claim_row_def pending_row_def MAX_BIGINT_def MAX_INTEGER_def)

lemma sample_claimed_entry:
  "claimed_from_row (claim_row ''worker-1'' 110 10 (pending_row sample_entry 0 5)) = Inr sample_claim"
  using sample_entry_valid
  by (simp add: claimed_from_row_def entry_from_row_def claim_row_def pending_row_def sample_claim_def)
    (simp add: sample_entry_def)

lemma sample_claim_returns:
  "claim id (\<lambda>_. False) ''worker-1'' [''mail''] (utc 10) 100 5 [pending_row sample_entry 0 5] =
     (Inr [sample_claim], [claim_row ''worker-1'' 110 10 (pending_row sample_entry 0 5)])"
proof -
  have "claimable (\<lambda>_. False) [''mail''] 10 (pending_row sample_entry 0 5)"
    by (simp add: claimable_def pending_row_def) (simp add: sample_entry_def)
  then have "claim_sql id (\<lambda>_. False) [''mail''] 10 5 ''worker-1'' 110 [pending_row sample_entry 0 5] =
      Inr ([claim_row ''worker-1'' 110 10 (pending_row sample_entry 0 5)],
           [claim_row ''worker-1'' 110 10 (pending_row sample_entry 0 5)])"
    by (simp add: claim_sql_def sql_page_def sql_update_def sample_claim_row_ok)
  then show ?thesis
    by (simp add: claim_def bounded_ident_def sample_names tx_bind_simps tx_bind_stmt
        lease_duration_ok_def MAX_LEASE_DURATION_def positive_limit_def in_datetime_range_def
        min_instant_def max_instant_def sample_claimed_entry tx_return_def sample_claim_def)
qed

theorem claim_takes_oldest_due_witness:
  "\<exists>r \<in> set [pending_row sample_entry 0 5]. ob_status r = Pending \<and> ob_available_at r \<le> 10 \<and>
     is_claim_of ''worker-1'' 110 r sample_claim"
proof -
  have "outbox_table_ok [pending_row sample_entry 0 5]"
    by (simp add: table_ok_def pending_row_ok [OF sample_entry_valid])
  note claim_takes_oldest_due [OF this sample_claim_returns, unfolded Let_def]
  then have "is_claim_of ''worker-1'' (10 + 100) (pending_row sample_entry 0 5) sample_claim"
    by (elim conjE) simp
  then show ?thesis by (simp add: pending_row_def)
qed

end
