(* ===== verification/Transactions.thy ===== *)
theory Transactions
  imports Domain
begin

text \<open>
  Connections and transactions: \<open>database/sql.py\<close>, \<open>database/pool.py\<close> and
  \<open>database/transaction.py\<close>.

  The driver (psycopg2 and the PostgreSQL server behind it) is an argument: \<open>driver\<close> holds one
  function per driver call the source makes, over an opaque connection state. What the code relies
  on is \<open>pg_driver\<close>: a view of the connection as a session with the committed and the working
  tables, the savepoints, the aborted flag and the autocommit flag, and how each call moves it.
  A failed call may leave the session anywhere those laws allow, so every fault is covered.
\<close>

subsection \<open>Statements and rows\<close>

datatype py_params =
    Positional "pyval list"
  | Named "(pyval \<times> pyval) list"
  | OtherParams  \<comment> \<open>neither a mapping nor a sequence, or a string-like one\<close>

datatype native_params = NoParams | NativeSeq "pyval list" | NativeMap "(string \<times> pyval) list"

definition validate_statement :: "string \<Rightarrow> string res" where
  "validate_statement s =
     (if py_strip s = [] then Inl (err SQLContractError)
      else if CHR 0x00 \<in> set s then Inl (err SQLContractError)
      else Inr s)"

fun named_key :: "pyval \<times> pyval \<Rightarrow> (string \<times> pyval) res" where
  "named_key (PStr k, v) = (if k = [] then Inl (err SQLContractError) else Inr (k, v))"
| "named_key _ = Inl (err SQLContractError)"

fun normalize_parameters :: "py_params \<Rightarrow> native_params res" where
  "normalize_parameters (Named kvs) =
     (case traverse named_key kvs of Inl e \<Rightarrow> Inl e
      | Inr xs \<Rightarrow> Inr (if xs = [] then NoParams else NativeMap xs))"
| "normalize_parameters (Positional xs) = Inr (if xs = [] then NoParams else NativeSeq xs)"
| "normalize_parameters OtherParams = Inl (err SQLContractError)"

datatype db_command =
    Native string native_params
  | Begin string
  | Savepoint string
  | Rollback_to string
  | Release string

datatype driver_row =
    Mapping_row "(pyval \<times> pyval) list"
  | Sequence_row "pyval list"
  | Other_row

record cursor_result =
  cu_description :: "string list option"
  cu_rows :: "driver_row list"
  cu_rowcount :: int
  cu_statusmessage :: "string option"

type_synonym detached_record = "(string \<times> pyval) list"

record command_result =
  cr_rowcount :: int
  cr_status_message :: "string option"
  cr_returned_records :: "detached_record list"

fun freeze_value :: "pyval \<Rightarrow> pyval" where
  "freeze_value (PDict kvs) = PDict (map (\<lambda>(k, v). (k, freeze_value v)) kvs)"
| "freeze_value (PList xs) = PTuple (map freeze_value xs)"
| "freeze_value (PTuple xs) = PTuple (map freeze_value xs)"
| "freeze_value v = v"

fun str_key :: "pyval \<times> pyval \<Rightarrow> (string \<times> pyval) res" where
  "str_key (PStr k, v) = Inr (k, freeze_value v)"
| "str_key _ = Inl (err TransactionStateError)"

definition detached_record :: "(pyval \<times> pyval) list \<Rightarrow> detached_record res" where
  "detached_record kvs = traverse str_key kvs"

definition column_names :: "string list option \<Rightarrow> string list" where
  "column_names description = (case description of None \<Rightarrow> [] | Some names \<Rightarrow> names)"

text \<open>\<open>dict(zip(names, values))\<close>: a repeated name keeps its place and takes the last value.\<close>

fun dict_insert :: "string \<Rightarrow> pyval \<Rightarrow> (pyval \<times> pyval) list \<Rightarrow> (pyval \<times> pyval) list" where
  "dict_insert k v [] = [(PStr k, v)]"
| "dict_insert k v ((k', v') # d) =
     (if k' = PStr k then (k', v) # d else (k', v') # dict_insert k v d)"

definition dict_of :: "(string \<times> pyval) list \<Rightarrow> (pyval \<times> pyval) list" where
  "dict_of kvs = fold (\<lambda>(k, v). dict_insert k v) kvs []"

definition detach_row :: "string list option \<Rightarrow> driver_row \<Rightarrow> detached_record res" where
  "detach_row description row =
     (case row of Mapping_row kvs \<Rightarrow> detached_record kvs
      | _ \<Rightarrow>
        (let names = column_names description in
         if names = [] then Inl (err TransactionStateError)
         else case row of
             Sequence_row values \<Rightarrow>
               if length values \<noteq> length names then Inl (err TransactionStateError)
               else detached_record (dict_of (zip names values))
           | _ \<Rightarrow> Inl (err TransactionStateError)))"

subsection \<open>The driver and the transaction object\<close>

record 'c driver =
  dr_autocommit :: "'c \<Rightarrow> bool res option"   \<comment> \<open>\<open>None\<close>: the connection has no such attribute\<close>
  dr_set_autocommit :: "bool \<Rightarrow> ('c, unit) tx"
  dr_cursor :: "('c, unit) tx"
  dr_execute :: "db_command \<Rightarrow> ('c, cursor_result) tx"
  dr_close_cursor :: "('c, unit) tx"
  dr_commit :: "('c, unit) tx"
  dr_rollback :: "('c, unit) tx"
  dr_interrupted :: "'c \<Rightarrow> bool"

record 'c transaction =
  tr_connection :: 'c
  tr_isolation :: "string option"
  tr_active :: bool
  tr_failed :: bool
  tr_prior_autocommit :: "bool option"
  tr_discard_required :: bool

definition new_transaction :: "'c \<Rightarrow> string option \<Rightarrow> 'c transaction" where
  "new_transaction c isolation =
     \<lparr>tr_connection = c, tr_isolation = isolation, tr_active = False, tr_failed = False,
      tr_prior_autocommit = None, tr_discard_required = False\<rparr>"

text \<open>A driver call on the connection of the transaction.\<close>

definition on_conn :: "('c, 'a) tx \<Rightarrow> ('c transaction, 'a) tx" where
  "on_conn m t = (case m (tr_connection t) of (r, c) \<Rightarrow> (r, t\<lparr>tr_connection := c\<rparr>))"

abbreviation fail_tx :: "'c transaction \<Rightarrow> 'c transaction" where
  "fail_tx t \<equiv> t\<lparr>tr_failed := True\<rparr>"

fun untyped :: "plane_error \<Rightarrow> bool" where
  "untyped PyInterrupt = False"
| "untyped (Raised _ _) = False"
| "untyped _ = True"

text \<open>\<open>_raise_if_interrupted\<close> followed by the re-raise of its callers.\<close>

definition raise_if_interrupted ::
  "'c driver \<Rightarrow> plane_error \<Rightarrow> ('c transaction, 'a) tx" where
  "raise_if_interrupted d e t =
     (if untyped e \<and> dr_interrupted d (tr_connection t)
      then (Inl (err TransactionStatementError), t\<lparr>tr_discard_required := True\<rparr>)
      else (Inl e, t))"

definition control :: "'c driver \<Rightarrow> db_command \<Rightarrow> ('c transaction, unit) tx" where
  "control d cmd t =
     (case on_conn (dr_cursor d) t of
        (Inl e, t1) \<Rightarrow> (Inl e, t1)
      | (Inr _, t1) \<Rightarrow>
        (case on_conn (dr_execute d cmd) t1 of
           (Inl e, t2) \<Rightarrow>
             (case raise_if_interrupted d e t2 of (raised, t3) \<Rightarrow>
              (case on_conn (dr_close_cursor d) t3 of
                 (Inl e', t4) \<Rightarrow> (Inl e', t4)
               | (Inr _, t4) \<Rightarrow> (raised, t4)))
         | (Inr _, t2) \<Rightarrow> on_conn (dr_close_cursor d) t2))"

definition restore_autocommit :: "'c driver \<Rightarrow> ('c transaction, unit) tx" where
  "restore_autocommit d t =
     (case tr_prior_autocommit t of
        None \<Rightarrow> (Inr (), t)
      | Some prior \<Rightarrow> on_conn (dr_set_autocommit d prior) (t\<lparr>tr_prior_autocommit := None\<rparr>))"

text \<open>The first part of \<open>_begin\<close>: read the autocommit flag and switch it off.\<close>

definition setup_failed :: "plane_error \<Rightarrow> ('c transaction, unit) tx" where
  "setup_failed e t =
     (Inl (if e = PyInterrupt then e else err TransactionCleanupError),
      t\<lparr>tr_prior_autocommit := None, tr_discard_required := True\<rparr>)"

definition setup_autocommit :: "'c driver \<Rightarrow> ('c transaction, unit) tx" where
  "setup_autocommit d t =
     (case dr_autocommit d (tr_connection t) of
        None \<Rightarrow> (Inr (), t)
      | Some (Inl e) \<Rightarrow> setup_failed e t
      | Some (Inr prior) \<Rightarrow>
          (let t1 = t\<lparr>tr_prior_autocommit := Some prior\<rparr> in
           if prior
           then case on_conn (dr_set_autocommit d False) t1 of
                  (Inl e, t2) \<Rightarrow> setup_failed e t2
                | (Inr _, t2) \<Rightarrow> (Inr (), t2)
           else (Inr (), t1)))"

definition begin_tx :: "'c driver \<Rightarrow> ('c transaction, unit) tx" where
  "begin_tx d t =
     (if tr_active t then (Inl (err TransactionStateError), t)
      else case setup_autocommit d t of
        (Inl e, t1) \<Rightarrow> (Inl e, t1)
      | (Inr _, t1) \<Rightarrow>
          (let t2 = t1\<lparr>tr_active := True\<rparr> in
           case tr_isolation t2 of
             None \<Rightarrow> (Inr (), t2)
           | Some level \<Rightarrow>
             (case control d (Begin level) t2 of
                (Inr _, t3) \<Rightarrow> (Inr (), t3)
              | (Inl e, t3) \<Rightarrow>
                (case restore_autocommit d (t3\<lparr>tr_active := False\<rparr>) of
                   (Inl _, t4) \<Rightarrow> raise_if_interrupted d e (t4\<lparr>tr_discard_required := True\<rparr>)
                 | (Inr _, t4) \<Rightarrow> raise_if_interrupted d e t4))))"

subsection \<open>Statements of a transaction\<close>

definition ensure_usable :: "'c transaction \<Rightarrow> unit res" where
  "ensure_usable t =
     (if \<not> tr_active t then Inl (err TransactionStateError)
      else if tr_failed t then Inl (err TransactionStateError)
      else Inr ())"

definition open_cursor :: "'c driver \<Rightarrow> ('c transaction, unit) tx" where
  "open_cursor d t =
     (case ensure_usable t of Inl e \<Rightarrow> (Inl e, t)
      | Inr _ \<Rightarrow>
        (case on_conn (dr_cursor d) t of
           (Inl e, t1) \<Rightarrow> raise_if_interrupted d e (fail_tx t1)
         | (Inr _, t1) \<Rightarrow> (Inr (), t1)))"

definition execute_native ::
  "'c driver \<Rightarrow> string \<Rightarrow> py_params \<Rightarrow> ('c transaction, cursor_result) tx" where
  "execute_native d statement parameters =
     tx_bind (tx_lift (validate_statement statement)) (\<lambda>exact.
     tx_bind (tx_lift (normalize_parameters parameters)) (\<lambda>native.
     on_conn (dr_execute d (Native exact native))))"

text \<open>
  The common shape of \<open>execute\<close>, \<open>fetch_one\<close> and \<open>fetch_all\<close>: run the statement, read the
  cursor, close it. A failure of either part poisons the transaction; a failure to close is
  swallowed when another error is already on its way.
\<close>

definition with_cursor ::
  "'c driver \<Rightarrow> string \<Rightarrow> py_params \<Rightarrow> (cursor_result \<Rightarrow> 'a res) \<Rightarrow> ('c transaction, 'a) tx" where
  "with_cursor d statement parameters read =
     tx_bind (open_cursor d) (\<lambda>_ t.
       case tx_bind (execute_native d statement parameters) (\<lambda>cu. tx_lift (read cu)) t of
         (Inl e, t1) \<Rightarrow>
           (case raise_if_interrupted d e (fail_tx t1) of (raised, t2) \<Rightarrow>
            (case on_conn (dr_close_cursor d) t2 of
               (Inl _, t3) \<Rightarrow> (raised, fail_tx t3)
             | (Inr _, t3) \<Rightarrow> (raised, t3)))
       | (Inr x, t1) \<Rightarrow>
           (case on_conn (dr_close_cursor d) t1 of
              (Inl e, t2) \<Rightarrow> raise_if_interrupted d e (fail_tx t2)
            | (Inr _, t2) \<Rightarrow> (Inr x, t2)))"

definition execute_result :: "cursor_result \<Rightarrow> command_result res" where
  "execute_result cu =
     (case (case cu_description cu of
              None \<Rightarrow> Inr []
            | Some _ \<Rightarrow> traverse (detach_row (cu_description cu)) (cu_rows cu)) of
        Inl e \<Rightarrow> Inl e
      | Inr rows \<Rightarrow>
          Inr \<lparr>cr_rowcount = cu_rowcount cu, cr_status_message = cu_statusmessage cu,
               cr_returned_records = rows\<rparr>)"

definition execute ::
  "'c driver \<Rightarrow> string \<Rightarrow> py_params \<Rightarrow> ('c transaction, command_result) tx" where
  "execute d statement parameters = with_cursor d statement parameters execute_result"

definition fetch_one ::
  "'c driver \<Rightarrow> string \<Rightarrow> py_params \<Rightarrow> ('c transaction, detached_record option) tx" where
  "fetch_one d statement parameters =
     with_cursor d statement parameters (\<lambda>cu.
       case cu_rows cu of [] \<Rightarrow> Inr None
       | row # _ \<Rightarrow>
         (case detach_row (cu_description cu) row of Inl e \<Rightarrow> Inl e | Inr r \<Rightarrow> Inr (Some r)))"

definition fetch_all ::
  "'c driver \<Rightarrow> string \<Rightarrow> py_params \<Rightarrow> ('c transaction, detached_record list) tx" where
  "fetch_all d statement parameters =
     with_cursor d statement parameters
       (\<lambda>cu. traverse (detach_row (cu_description cu)) (cu_rows cu))"

subsection \<open>Savepoints\<close>

definition savepoint_name :: "string \<Rightarrow> bool" where
  "savepoint_name s =
     head_then (upper_chars @ lower_chars @ ''_'') (alnum_chars @ ''_'') 62 s"

definition rollback_to_savepoint ::
  "'c driver \<Rightarrow> string \<Rightarrow> bool \<Rightarrow> 'c transaction \<Rightarrow> 'c transaction" where
  "rollback_to_savepoint d name failed_before t =
     (case control d (Rollback_to name) (t\<lparr>tr_failed := False\<rparr>) of
        (Inl _, t1) \<Rightarrow> fail_tx t1
      | (Inr _, t1) \<Rightarrow>
        (case control d (Release name) t1 of
           (Inl _, t2) \<Rightarrow> fail_tx t2
         | (Inr _, t2) \<Rightarrow> t2\<lparr>tr_failed := failed_before\<rparr>))"

definition savepoint ::
  "'c driver \<Rightarrow> string \<Rightarrow> ('c transaction, 'a) tx \<Rightarrow> ('c transaction, 'a) tx" where
  "savepoint d name body t =
     (case ensure_usable t of
        Inl e \<Rightarrow> (Inl e, t)
      | Inr _ \<Rightarrow>
        if \<not> savepoint_name name then (Inl (err TransactionStateError), t)
        else case control d (Savepoint name) t of
            (Inl e, t1) \<Rightarrow> (Inl e, fail_tx t1)
          | (Inr _, t1) \<Rightarrow>
            (case body t1 of
               (Inl e, t2) \<Rightarrow> (Inl e, rollback_to_savepoint d name (tr_failed t1) t2)
             | (Inr x, t2) \<Rightarrow>
               (case control d (Release name) t2 of
                  (Inl e, t3) \<Rightarrow> (Inl e, fail_tx t3)
                | (Inr _, t3) \<Rightarrow> (Inr x, t3))))"

subsection \<open>Finishing a transaction\<close>

text \<open>\<open>rollback\<close> or \<open>commit\<close>; the error kept as \<open>primary_error\<close>.\<close>

definition finish_rollback :: "'c driver \<Rightarrow> 'c transaction \<Rightarrow> plane_error option \<times> 'c transaction" where
  "finish_rollback d t =
     (case on_conn (dr_rollback d) t of
        (Inl e, t1) \<Rightarrow> (Some e, t1\<lparr>tr_discard_required := True\<rparr>)
      | (Inr _, t1) \<Rightarrow> (None, t1))"

definition finish_commit :: "'c driver \<Rightarrow> 'c transaction \<Rightarrow> plane_error option \<times> 'c transaction" where
  "finish_commit d t =
     (case on_conn (dr_commit d) t of
        (Inl e, t1) \<Rightarrow>
          (Some e, snd (on_conn (dr_rollback d) (t1\<lparr>tr_discard_required := True\<rparr>)))
      | (Inr _, t1) \<Rightarrow> (None, t1))"

definition finish_tx :: "'c driver \<Rightarrow> bool \<Rightarrow> ('c transaction, unit) tx" where
  "finish_tx d failed t =
     (if \<not> tr_active t then (Inl (err TransactionStateError), t)
      else
        let should_rollback = failed \<or> tr_failed t;
            (primary_error, t1) = (if should_rollback then finish_rollback d t else finish_commit d t);
            (restored, t2) = restore_autocommit d (t1\<lparr>tr_active := False\<rparr>);
            t3 = (case restored of Inl _ \<Rightarrow> t2\<lparr>tr_discard_required := True\<rparr> | Inr _ \<Rightarrow> t2)
        in case primary_error of
             Some e \<Rightarrow>
               (Inl (if e = PyInterrupt then e
                     else if should_rollback then err TransactionRollbackError
                     else err TransactionCommitOutcomeUnknownError), t3)
           | None \<Rightarrow>
             (case restored of
                Inl e \<Rightarrow> (Inl (if e = PyInterrupt then e else err TransactionCleanupError), t3)
              | Inr _ \<Rightarrow>
                if tr_failed t3 \<and> \<not> failed then (Inl (err TransactionStateError), t3)
                else (Inr (), t3)))"

text \<open>\<open>PlaneDatabase.transaction\<close> on one connection: begin, the body, finish.\<close>

definition transaction_block ::
  "'c driver \<Rightarrow> string option \<Rightarrow> ('c transaction, 'a) tx \<Rightarrow> 'c \<Rightarrow> 'a res \<times> 'c transaction" where
  "transaction_block d isolation body c =
     (case begin_tx d (new_transaction c isolation) of
        (Inl e, t) \<Rightarrow> (Inl e, t)
      | (Inr _, t) \<Rightarrow>
        (case body t of
           (Inl e, t1) \<Rightarrow> (Inl e, snd (finish_tx d True t1))
         | (Inr x, t1) \<Rightarrow>
           (case finish_tx d False t1 of
              (Inl e, t2) \<Rightarrow> (Inl e, t2)
            | (Inr _, t2) \<Rightarrow> (Inr x, t2))))"

subsection \<open>The connection pool\<close>

text \<open>
  The driver pool is an argument too. A connection is handed out under its identity, the key of
  the discard marks.
\<close>

record ('p, 'c) driver_pool =
  dp_getconn :: "('p, nat \<times> 'c) tx"
  dp_putconn :: "nat \<Rightarrow> 'c \<Rightarrow> bool \<Rightarrow> ('p, unit) tx"
  dp_closeall :: "('p, unit) tx"

record 'p pool =
  po_driver_pool :: 'p
  po_borrowed :: int
  po_closed :: bool
  po_cleanup_complete :: bool
  po_cleanup_failed :: bool
  po_cleanup_attempts :: int
  po_discarded :: "nat set"

definition on_pool :: "('p, 'a) tx \<Rightarrow> ('p pool, 'a) tx" where
  "on_pool = tx_on po_driver_pool (\<lambda>p P. P\<lparr>po_driver_pool := p\<rparr>)"

abbreviation add_borrowed :: "int \<Rightarrow> 'p pool \<Rightarrow> 'p pool" where
  "add_borrowed n P \<equiv> P\<lparr>po_borrowed := po_borrowed P + n\<rparr>"

text \<open>\<open>_borrow\<close> counts the borrower under the lock before it asks the driver.\<close>

definition reserve :: "('p pool, unit) tx" where
  "reserve P =
     (if po_closed P then (Inl (err PoolClosedError), P) else (Inr (), add_borrowed 1 P))"

definition checkout :: "('p, 'c) driver_pool \<Rightarrow> ('p pool, nat \<times> 'c) tx" where
  "checkout dp P =
     (case on_pool (dp_getconn dp) P of
        (Inl e, P1) \<Rightarrow>
          (Inl (if untyped e then err PoolCheckoutError else e), add_borrowed (-1) P1)
      | (Inr c, P1) \<Rightarrow> (Inr c, P1))"

definition borrow :: "('p, 'c) driver_pool \<Rightarrow> ('p pool, nat \<times> 'c) tx" where
  "borrow dp = tx_bind reserve (\<lambda>_. checkout dp)"

definition discard_on_return :: "nat \<Rightarrow> 'p pool \<Rightarrow> 'p pool" where
  "discard_on_return i P = P\<lparr>po_discarded := insert i (po_discarded P)\<rparr>"

definition take_discard :: "nat \<Rightarrow> 'p pool \<Rightarrow> bool \<times> 'p pool" where
  "take_discard i P = (i \<in> po_discarded P, P\<lparr>po_discarded := po_discarded P - {i}\<rparr>)"

definition release :: "('p, 'c) driver_pool \<Rightarrow> nat \<Rightarrow> 'c \<Rightarrow> bool \<Rightarrow> ('p pool, unit) tx" where
  "release dp i c discard P =
     (case on_pool (dp_putconn dp i c discard) P of
        (Inl _, P1) \<Rightarrow> (Inl (err PoolReleaseError), add_borrowed (-1) P1)
      | (Inr _, P1) \<Rightarrow> (Inr (), add_borrowed (-1) P1))"

fun error_discards :: "'a res \<Rightarrow> bool" where
  "error_discards (Inl (Raised cls _)) = discard_connection cls"
| "error_discards _ = False"

text \<open>
  \<open>ConnectionPool.connection\<close>: the body gets the connection and the pool; on the way out the
  connection is rolled back (by the driver call that is the first argument) and returned, closed
  when it may be unsafe.
\<close>

definition pool_connection ::
  "('c, unit) tx \<Rightarrow> ('p, 'c) driver_pool
     \<Rightarrow> (nat \<Rightarrow> 'c \<Rightarrow> 'p pool \<Rightarrow> 'a res \<times> 'c \<times> 'p pool) \<Rightarrow> ('p pool, 'a) tx" where
  "pool_connection rollback_conn dp body P =
     (case borrow dp P of
        (Inl e, P1) \<Rightarrow> (Inl e, P1)
      | (Inr (i, c), P1) \<Rightarrow>
        (let (r, c1, P2) = body i c P1;
             (reset, c2) = rollback_conn c1;
             (marked, P3) = take_discard i P2;
             discard = (reset \<noteq> Inr () \<or> error_discards r \<or> marked);
             (released, P4) = release dp i c2 discard P3
         in case r of
              Inl e \<Rightarrow> (Inl e, P4)
            | Inr x \<Rightarrow>
              (case reset of
                 Inl _ \<Rightarrow> (Inl (err ConnectionResetError), P4)
               | Inr _ \<Rightarrow> (case released of Inl e \<Rightarrow> (Inl e, P4) | Inr _ \<Rightarrow> (Inr x, P4)))))"

definition plane_transaction ::
  "'c driver \<Rightarrow> ('p, 'c) driver_pool \<Rightarrow> string option \<Rightarrow> ('c transaction, 'a) tx
     \<Rightarrow> ('p pool, 'a) tx" where
  "plane_transaction d dp isolation body =
     pool_connection (dr_rollback d) dp (\<lambda>i c P.
       case transaction_block d isolation body c of
         (r, t) \<Rightarrow>
           (r, tr_connection t,
            case r of Inl _ \<Rightarrow> if tr_discard_required t then discard_on_return i P else P
            | Inr _ \<Rightarrow> P))"

text \<open>
  \<open>close\<close> runs in three locked sections, between which other threads may act: admission is
  closed, the attempt is counted, and the outcome of \<open>closeall\<close> is recorded. The first two
  return \<open>False\<close> when the pool is already clean.
\<close>

definition close_admission :: "('p pool, bool) tx" where
  "close_admission P =
     (if po_cleanup_complete P then (Inr False, P)
      else if po_borrowed P \<noteq> 0 then (Inl (err PoolInUseError), P)
      else (Inr True, P\<lparr>po_closed := True\<rparr>))"

definition count_attempt :: "('p pool, bool) tx" where
  "count_attempt P =
     (if po_cleanup_complete P then (Inr False, P)
      else (Inr True, P\<lparr>po_cleanup_attempts := po_cleanup_attempts P + 1\<rparr>))"

definition cleanup :: "('p, 'c) driver_pool \<Rightarrow> ('p pool, unit) tx" where
  "cleanup dp P =
     (case on_pool (dp_closeall dp) P of
        (Inl e, P1) \<Rightarrow>
          (Inl (if e = PyInterrupt then e else err PoolShutdownError), P1\<lparr>po_cleanup_failed := True\<rparr>)
      | (Inr _, P1) \<Rightarrow> (Inr (), P1\<lparr>po_cleanup_complete := True, po_cleanup_failed := False\<rparr>))"

definition close_pool :: "('p, 'c) driver_pool \<Rightarrow> ('p pool, unit) tx" where
  "close_pool dp =
     tx_bind close_admission (\<lambda>go.
     if \<not> go then tx_return ()
     else tx_bind count_attempt (\<lambda>go'. if \<not> go' then tx_return () else cleanup dp))"

subsection \<open>What the code relies on\<close>

record 's session =
  se_committed :: 's
  se_working :: 's
  se_savepoints :: "(string \<times> 's) list"
  se_aborted :: bool
  se_autocommit :: bool

text \<open>
  The documented behaviour of PostgreSQL behind a connection that is not in autocommit mode.
  \<open>plain\<close> are the statements that carry no transaction control of their own. A commit of an
  aborted transaction reports success and rolls back; a commit that reports an error may have
  happened or not.
\<close>

fun command_allowed :: "(string \<Rightarrow> bool) \<Rightarrow> db_command \<Rightarrow> bool" where
  "command_allowed plain (Native q _) = plain q"
| "command_allowed plain _ = True"

definition keeps_commit :: "'s session \<Rightarrow> 's session \<Rightarrow> bool" where
  "keeps_commit v v' = (se_committed v' = se_committed v \<and> se_autocommit v' = se_autocommit v)"

fun after_command :: "db_command \<Rightarrow> 's session \<Rightarrow> 's session \<Rightarrow> bool" where
  "after_command (Savepoint n) v v' =
     (se_working v' = se_working v \<and> se_savepoints v' = (n, se_working v) # se_savepoints v \<and>
      se_aborted v' = se_aborted v)"
| "after_command (Rollback_to n) v v' =
     (map_of (se_savepoints v) n = Some (se_working v') \<and>
      se_savepoints v' = dropWhile (\<lambda>p. fst p \<noteq> n) (se_savepoints v) \<and> \<not> se_aborted v')"
| "after_command (Release n) v v' =
     (se_working v' = se_working v \<and>
      se_savepoints v' = tl (dropWhile (\<lambda>p. fst p \<noteq> n) (se_savepoints v)) \<and>
      se_aborted v' = se_aborted v)"
| "after_command _ v v' =
     (se_savepoints v' = se_savepoints v \<and> se_aborted v' = se_aborted v)"

definition pg_driver :: "'c driver \<Rightarrow> (string \<Rightarrow> bool) \<Rightarrow> ('c \<Rightarrow> 's session) \<Rightarrow> bool" where
  "pg_driver d plain view \<longleftrightarrow>
     (\<forall>c r c'. dr_cursor d c = (r, c') \<longrightarrow> view c' = view c) \<and>
     (\<forall>c r c'. dr_close_cursor d c = (r, c') \<longrightarrow> view c' = view c) \<and>
     (\<forall>c. dr_autocommit d c = None \<longrightarrow> \<not> se_autocommit (view c)) \<and>
     (\<forall>c b. dr_autocommit d c = Some (Inr b) \<longrightarrow> se_autocommit (view c) = b) \<and>
     (\<forall>b c r c'. dr_set_autocommit d b c = (r, c') \<longrightarrow>
        se_committed (view c') = se_committed (view c) \<and>
        (r = Inr () \<longrightarrow> se_autocommit (view c') = b \<and> se_aborted (view c') = se_aborted (view c))) \<and>
     (\<forall>cmd c r c'. dr_execute d cmd c = (r, c') \<longrightarrow> command_allowed plain cmd \<longrightarrow>
        \<not> se_autocommit (view c) \<longrightarrow> keeps_commit (view c) (view c') \<and>
        (case r of Inr _ \<Rightarrow> after_command cmd (view c) (view c')
         | Inl _ \<Rightarrow> se_savepoints (view c') = se_savepoints (view c))) \<and>
     (\<forall>c r c'. dr_rollback d c = (r, c') \<longrightarrow> se_committed (view c') = se_committed (view c)) \<and>
     (\<forall>c r c'. dr_commit d c = (r, c') \<longrightarrow>
        (case r of
           Inr _ \<Rightarrow> se_committed (view c') =
             (if se_aborted (view c) then se_committed (view c) else se_working (view c))
         | Inl _ \<Rightarrow> se_committed (view c') \<in> {se_committed (view c), se_working (view c)}))"

subsection \<open>Sessions\<close>

abbreviation session_of :: "('c \<Rightarrow> 's session) \<Rightarrow> 'c transaction \<Rightarrow> 's session" where
  "session_of view t \<equiv> view (tr_connection t)"

text \<open>
  An open transaction whose connection is out of autocommit mode and that knows when the server
  has aborted it.
\<close>

definition session_ok :: "('c \<Rightarrow> 's session) \<Rightarrow> 'c transaction \<Rightarrow> bool" where
  "session_ok view t \<longleftrightarrow>
     tr_active t \<and> \<not> se_autocommit (session_of view t) \<and>
     (se_aborted (session_of view t) \<longrightarrow> tr_failed t)"

text \<open>
  What the body of a transaction block may do: stay in the session, commit nothing, and leave at
  most savepoints named in \<open>N\<close> on top of the stack.
\<close>

definition session_order ::
  "('c \<Rightarrow> 's session) \<Rightarrow> string set \<Rightarrow> 'c transaction \<Rightarrow> 'c transaction \<Rightarrow> bool" where
  "session_order view N t t' \<longleftrightarrow>
     (session_ok view t \<longrightarrow> session_ok view t' \<and>
        se_committed (session_of view t') = se_committed (session_of view t) \<and>
        (\<exists>ex. se_savepoints (session_of view t') = ex @ se_savepoints (session_of view t) \<and>
           fst ` set ex \<subseteq> N))"

interpretation so: step_order "session_order view N" for view N
proof
  show "session_order view N s s" for s by (auto simp: session_order_def)
  show "session_order view N s u" if "session_order view N s t" "session_order view N t u" for s t u
    unfolding session_order_def
  proof (intro impI conjI)
    assume ok: "session_ok view s"
    with that obtain e1 e2 where "session_ok view t" "session_ok view u"
      "se_committed (session_of view u) = se_committed (session_of view s)"
      "se_savepoints (session_of view t) = e1 @ se_savepoints (session_of view s)"
      "se_savepoints (session_of view u) = e2 @ se_savepoints (session_of view t)"
      "fst ` set e1 \<subseteq> N" "fst ` set e2 \<subseteq> N"
      unfolding session_order_def by auto
    then show "session_ok view u" "se_committed (session_of view u) = se_committed (session_of view s)"
      "\<exists>ex. se_savepoints (session_of view u) = ex @ se_savepoints (session_of view s) \<and> fst ` set ex \<subseteq> N"
      by (auto intro: exI [of _ "e2 @ e1"])
  qed
qed

lemma session_order_mono:
  "session_order view N t t' \<Longrightarrow> N \<subseteq> M \<Longrightarrow> session_order view M t t'"
  by (fastforce simp: session_order_def)

lemma raise_if_interrupted_cases:
  assumes "raise_if_interrupted d e t = (r, t')"
  obtains e' b where "r = Inl e'" and "t' = t\<lparr>tr_discard_required := b\<rparr>"
proof -
  from assms have "t' = t\<lparr>tr_discard_required := tr_discard_required t'\<rparr>" "\<exists>e'. r = Inl e'"
    by (auto simp: raise_if_interrupted_def split: if_splits)
  then show ?thesis using that by blast
qed

lemmas pg_law = pg_driver_def [THEN iffD1]

lemmas pg_cursor = pg_law [THEN conjunct1, rule_format]
lemmas pg_close = pg_law [THEN conjunct2, THEN conjunct1, rule_format]
lemmas pg_no_autocommit = pg_law [THEN conjunct2, THEN conjunct2, THEN conjunct1, rule_format]
lemmas pg_autocommit = pg_law [THEN conjunct2, THEN conjunct2, THEN conjunct2,
    THEN conjunct1, rule_format]
lemmas pg_set_autocommit = pg_law [THEN conjunct2, THEN conjunct2, THEN conjunct2,
    THEN conjunct2, THEN conjunct1, rule_format]
lemmas pg_execute = pg_law [THEN conjunct2, THEN conjunct2, THEN conjunct2, THEN conjunct2,
    THEN conjunct2, THEN conjunct1, rule_format]
lemmas pg_rollback = pg_law [THEN conjunct2, THEN conjunct2, THEN conjunct2, THEN conjunct2,
    THEN conjunct2, THEN conjunct2, THEN conjunct1, rule_format]
lemmas pg_commit = pg_law [THEN conjunct2, THEN conjunct2, THEN conjunct2, THEN conjunct2,
    THEN conjunct2, THEN conjunct2, THEN conjunct2, rule_format]

text \<open>A control statement takes effect or not; only its success says which.\<close>

lemma control_cases:
  assumes pg: "pg_driver d plain view" and auto: "\<not> se_autocommit (session_of view t)"
    and cmd: "\<forall>q ps. cmd \<noteq> Native q ps" and res: "control d cmd t = (r, t')"
  obtains c b where "t' = t\<lparr>tr_connection := c, tr_discard_required := b\<rparr>"
    and "keeps_commit (session_of view t) (view c)"
    and "after_command cmd (session_of view t) (view c) \<or>
      r \<noteq> Inr () \<and> se_savepoints (view c) = se_savepoints (session_of view t)"
proof -
  obtain r1 c1 where cur: "dr_cursor d (tr_connection t) = (r1, c1)" by fastforce
  note v1 = pg_cursor [OF pg cur]
  obtain r2 c2 where exe: "dr_execute d cmd c1 = (r2, c2)" by fastforce
  have allowed: "command_allowed plain cmd" using cmd by (cases cmd) auto
  note v2 = pg_execute [OF pg exe allowed, unfolded v1, OF auto]
  obtain r3 c3 where clo: "dr_close_cursor d c2 = (r3, c3)" by fastforce
  note v3 = pg_close [OF pg clo]
  show ?thesis
  proof (cases r1)
    case (Inl e)
    with res cur have "t' = t\<lparr>tr_connection := c1\<rparr>" "r = Inl e" by (auto simp: control_def on_conn_def)
    with v1 show ?thesis by (intro that [of "tr_discard_required t" c1]) (auto simp: keeps_commit_def)
  next
    case (Inr u)
    have "r2 = Inl e \<Longrightarrow> r \<noteq> Inr ()" for e
      using res cur exe clo Inr
      by (auto simp: control_def on_conn_def raise_if_interrupted_def split: sum.splits if_splits)
    moreover have "t' = t\<lparr>tr_connection := c3, tr_discard_required := tr_discard_required t'\<rparr>"
      using res cur exe clo Inr
      by (cases r2) (auto simp: control_def on_conn_def raise_if_interrupted_def split: sum.splits if_splits)
    ultimately show ?thesis
      using v2 v3 by (intro that [of "tr_discard_required t'" c3]) (auto split: sum.splits)
  qed
qed

lemma execute_native_cases:
  assumes pg: "pg_driver d plain view" and auto: "\<not> se_autocommit (session_of view t)"
    and q: "plain q" and res: "execute_native d q ps t = (r, t')"
  obtains c where "t' = t\<lparr>tr_connection := c\<rparr>" and "keeps_commit (session_of view t) (view c)"
    and "se_savepoints (view c) = se_savepoints (session_of view t)"
    and "(\<exists>e. r = Inl e) \<or> se_aborted (view c) = se_aborted (session_of view t)"
proof (cases "validate_statement q")
  case (Inl e)
  with res show ?thesis
    by (intro that [of "tr_connection t"]) (auto simp: execute_native_def tx_simps keeps_commit_def)
next
  case (Inr exact)
  then have exact: "exact = q" by (auto simp: validate_statement_def split: if_splits)
  show ?thesis
  proof (cases "normalize_parameters ps")
    case (Inl e)
    with res Inr show ?thesis
      by (intro that [of "tr_connection t"]) (auto simp: execute_native_def tx_simps keeps_commit_def)
  next
    case (Inr native)
    obtain x c where exe: "dr_execute d (Native q native) (tr_connection t) = (x, c)" by fastforce
    from pg_execute [OF pg exe] auto q
    have "keeps_commit (session_of view t) (view c)"
      "se_savepoints (view c) = se_savepoints (session_of view t)"
      "(\<exists>e. x = Inl e) \<or> se_aborted (view c) = se_aborted (session_of view t)"
      by (auto split: sum.splits)
    moreover have "t' = t\<lparr>tr_connection := c\<rparr>" "x = r"
      using res exe Inr \<open>validate_statement q = Inr exact\<close> exact
      by (auto simp: execute_native_def tx_simps on_conn_def)
    ultimately show ?thesis by (intro that [of c]) auto
  qed
qed

text \<open>A statement commits nothing, keeps the savepoints and notices when it is aborted.\<close>

lemma with_cursor_session:
  assumes pg: "pg_driver d plain view" and auto: "\<not> se_autocommit (session_of view t)"
    and q: "plain q" and res: "with_cursor d q ps read t = (r, t')"
  shows "tr_active t' = tr_active t \<and> keeps_commit (session_of view t) (session_of view t') \<and>
    se_savepoints (session_of view t') = se_savepoints (session_of view t) \<and>
    (tr_failed t' \<or> \<not> tr_failed t \<and> se_aborted (session_of view t') = se_aborted (session_of view t))"
proof (cases "ensure_usable t")
  case (Inl e)
  with res show ?thesis by (auto simp: with_cursor_def open_cursor_def keeps_commit_def)
next
  case usable: (Inr u)
  obtain r1 c1 where cur: "dr_cursor d (tr_connection t) = (r1, c1)" by fastforce
  note v1 = pg_cursor [OF pg cur]
  let ?t1 = "t\<lparr>tr_connection := c1\<rparr>"
  show ?thesis
  proof (cases r1)
    case (Inl e)
    with res usable cur v1 show ?thesis
      by (auto simp: with_cursor_def open_cursor_def on_conn_def raise_if_interrupted_def
          tx_bind_def keeps_commit_def split: if_splits)
  next
    case (Inr u)
    obtain x t2 where exe: "execute_native d q ps ?t1 = (x, t2)" by fastforce
    from pg _ q exe obtain c2 where t2: "t2 = ?t1\<lparr>tr_connection := c2\<rparr>"
      and v2: "keeps_commit (session_of view t) (view c2)"
        "se_savepoints (view c2) = se_savepoints (session_of view t)"
        "(\<exists>e. x = Inl e) \<or> se_aborted (view c2) = se_aborted (session_of view t)"
      by (rule execute_native_cases) (use auto v1 in auto)
    obtain r3 c3 where clo: "dr_close_cursor d c2 = (r3, c3)" by fastforce
    note v3 = pg_close [OF pg clo]
    from res usable cur Inr exe t2 clo v3 v2 show ?thesis
      by (auto simp: with_cursor_def open_cursor_def on_conn_def raise_if_interrupted_def
          tx_bind_def tx_lift_def split: if_splits sum.splits)
  qed
qed

lemma with_cursor_rel:
  assumes "pg_driver d plain view" and "plain q"
  shows "tx_rel (session_order view N) (with_cursor d q ps read)"
proof (rule tx_relI)
  fix t :: "'a transaction"
  obtain r t' where res: "with_cursor d q ps read t = (r, t')" by fastforce
  then show "session_order view N t (snd (with_cursor d q ps read t))"
    using with_cursor_session [OF assms(1) _ assms(2) res]
    by (auto simp: session_order_def session_ok_def keeps_commit_def)
qed

lemma statement_rels:
  assumes "pg_driver d plain view" and "plain q"
  shows "tx_rel (session_order view N) (execute d q ps)"
    and "tx_rel (session_order view N) (fetch_one d q ps)"
    and "tx_rel (session_order view N) (fetch_all d q ps)"
  using with_cursor_rel [OF assms] by (simp_all add: execute_def fetch_one_def fetch_all_def)

lemma savepoint_lookup:
  assumes "n \<notin> fst ` set ex"
  shows "dropWhile (\<lambda>p. fst p \<noteq> n) (ex @ (n, w) # base) = (n, w) # base"
    and "map_of (ex @ (n, w) # base) n = Some w"
  using assms by (induction ex) auto

text \<open>
  What leaving a savepoint block by an exception achieves: the transaction is poisoned, or its
  tables and its savepoint stack are those of the entry of the block.
\<close>

lemma rollback_to_savepoint_session:
  assumes pg: "pg_driver d plain view" and t: "tr_active t" "\<not> se_autocommit (session_of view t)"
    and sp: "se_savepoints (session_of view t) = ex @ (n, w) # base" "n \<notin> fst ` set ex"
    and res: "rollback_to_savepoint d n False t = t'"
  shows "session_ok view t' \<and> se_committed (session_of view t') = se_committed (session_of view t) \<and>
    se_savepoints (session_of view t') \<in> {ex @ (n, w) # base, (n, w) # base, base} \<and>
    (tr_failed t' \<or> se_working (session_of view t') = w \<and> se_savepoints (session_of view t') = base)"
proof -
  let ?t0 = "t\<lparr>tr_failed := False\<rparr>"
  note look = savepoint_lookup [OF sp(2)]
  obtain r1 t1 where undo: "control d (Rollback_to n) ?t0 = (r1, t1)" by fastforce
  from t(2) have "\<not> se_autocommit (session_of view ?t0)" by simp
  from pg this _ undo obtain c1 b1
    where t1: "t1 = ?t0\<lparr>tr_connection := c1, tr_discard_required := b1\<rparr>"
    and k1: "keeps_commit (session_of view ?t0) (view c1)"
    and a1: "after_command (Rollback_to n) (session_of view ?t0) (view c1) \<or>
      r1 \<noteq> Inr () \<and> se_savepoints (view c1) = se_savepoints (session_of view ?t0)"
    by (rule control_cases) auto
  show ?thesis
  proof (cases r1)
    case (Inl e)
    with res undo t1 have "t' = fail_tx t1" by (simp add: rollback_to_savepoint_def)
    with t t1 k1 a1 sp look show ?thesis by (auto simp: session_ok_def keeps_commit_def)
  next
    case (Inr u)
    with a1 sp look have v1: "se_working (view c1) = w" "se_savepoints (view c1) = (n, w) # base"
      "\<not> se_aborted (view c1)" by auto
    obtain r2 t2 where rel: "control d (Release n) t1 = (r2, t2)" by fastforce
    from t t1 k1 have "\<not> se_autocommit (session_of view t1)" by (simp add: keeps_commit_def)
    from pg this _ rel obtain c2 b2
      where t2: "t2 = t1\<lparr>tr_connection := c2, tr_discard_required := b2\<rparr>"
      and k2: "keeps_commit (session_of view t1) (view c2)"
      and a2: "after_command (Release n) (session_of view t1) (view c2) \<or>
        r2 \<noteq> Inr () \<and> se_savepoints (view c2) = se_savepoints (session_of view t1)"
      by (rule control_cases) auto
    from res undo Inr rel have "t' = (case r2 of Inl _ \<Rightarrow> fail_tx t2 | Inr _ \<Rightarrow> t2\<lparr>tr_failed := False\<rparr>)"
      by (auto simp: rollback_to_savepoint_def split: sum.splits)
    with t t1 t2 k1 k2 v1 a2 show ?thesis
      by (auto simp: session_ok_def keeps_commit_def split: sum.splits)
  qed
qed

lemma release_session:
  assumes pg: "pg_driver d plain view" and ok: "session_ok view t"
    and sp: "se_savepoints (session_of view t) = ex @ (n, w) # base" "n \<notin> fst ` set ex"
    and res: "control d (Release n) t = (r, t')"
  shows "se_committed (session_of view t') = se_committed (session_of view t) \<and>
    session_ok view (fail_tx t') \<and>
    se_savepoints (session_of view t') \<in> {ex @ (n, w) # base, base} \<and>
    (r = Inr () \<longrightarrow> session_ok view t' \<and> se_savepoints (session_of view t') = base \<and>
       se_working (session_of view t') = se_working (session_of view t) \<and> tr_failed t' = tr_failed t)"
proof -
  from ok have "\<not> se_autocommit (session_of view t)" by (simp add: session_ok_def)
  from pg this _ res obtain c b where t': "t' = t\<lparr>tr_connection := c, tr_discard_required := b\<rparr>"
    and k: "keeps_commit (session_of view t) (view c)"
    and a: "after_command (Release n) (session_of view t) (view c) \<or>
      r \<noteq> Inr () \<and> se_savepoints (view c) = se_savepoints (session_of view t)"
    by (rule control_cases) auto
  with ok sp savepoint_lookup [OF sp(2), of w base] show ?thesis
    by (auto simp: session_ok_def keeps_commit_def)
qed

lemma savepoint_session:
  assumes pg: "pg_driver d plain view" and body: "tx_rel (session_order view N) body" "n \<notin> N"
    and ok: "session_ok view t" and res: "savepoint d n body t = (r, t')"
  shows "session_ok view t' \<and> se_committed (session_of view t') = se_committed (session_of view t) \<and>
    (\<exists>ex. se_savepoints (session_of view t') = ex @ se_savepoints (session_of view t) \<and>
       fst ` set ex \<subseteq> insert n N) \<and>
    (tr_failed t' \<or> se_savepoints (session_of view t') = se_savepoints (session_of view t) \<and>
       ((\<exists>e. r = Inl e) \<longrightarrow> se_working (session_of view t') = se_working (session_of view t)))"
proof (cases "ensure_usable t = Inr () \<and> savepoint_name n")
  case False
  with res have "t' = t" by (auto simp: savepoint_def split: sum.splits if_splits)
  with ok show ?thesis by auto
next
  case True
  then have fresh: "\<not> tr_failed t" by (simp add: ensure_usable_def split: if_splits)
  let ?w = "se_working (session_of view t)" and ?base = "se_savepoints (session_of view t)"
  obtain r1 t1 where sav: "control d (Savepoint n) t = (r1, t1)" by fastforce
  from ok have "\<not> se_autocommit (session_of view t)" by (simp add: session_ok_def)
  from pg this _ sav obtain c1 b1
    where t1: "t1 = t\<lparr>tr_connection := c1, tr_discard_required := b1\<rparr>"
    and k1: "keeps_commit (session_of view t) (view c1)"
    and a1: "after_command (Savepoint n) (session_of view t) (view c1) \<or>
      r1 \<noteq> Inr () \<and> se_savepoints (view c1) = ?base"
    by (rule control_cases) auto
  show ?thesis
  proof (cases r1)
    case (Inl e)
    with res True sav have "t' = fail_tx t1" by (simp add: savepoint_def)
    with ok t1 k1 a1 show ?thesis by (auto simp: session_ok_def keeps_commit_def)
  next
    case (Inr u)
    with ok t1 k1 a1 fresh have s1: "session_ok view t1" "se_savepoints (session_of view t1) = (n, ?w) # ?base"
      "se_committed (session_of view t1) = se_committed (session_of view t)" "\<not> tr_failed t1"
      by (auto simp: session_ok_def keeps_commit_def)
    obtain b t2 where run: "body t1 = (b, t2)" by fastforce
    from tx_relD [OF body(1) run] s1 obtain ex where s2: "session_ok view t2"
      "se_committed (session_of view t2) = se_committed (session_of view t)"
      "se_savepoints (session_of view t2) = ex @ (n, ?w) # ?base" "fst ` set ex \<subseteq> N"
      unfolding session_order_def by auto
    from s2(4) body(2) have nex: "n \<notin> fst ` set ex" by auto
    have stack: "\<exists>ex. ys = ex @ ?base \<and> fst ` set ex \<subseteq> insert n N"
      if "ys \<in> {ex @ (n, ?w) # ?base, (n, ?w) # ?base, ?base}" for ys
    proof -
      from that have "ys = (ex @ [(n, ?w)]) @ ?base \<or> ys = [(n, ?w)] @ ?base \<or> ys = [] @ ?base" by auto
      moreover from s2(4) have "fst ` set (ex @ [(n, ?w)]) \<subseteq> insert n N"
        "fst ` set [(n, ?w)] \<subseteq> insert n N" "fst ` set [] \<subseteq> insert n N" by auto
      ultimately show ?thesis by blast
    qed
    show ?thesis
    proof (cases b)
      case (Inl e)
      with res True sav \<open>r1 = Inr u\<close> run s1(4)
      have r: "r = Inl e" "rollback_to_savepoint d n False t2 = t'" by (auto simp: savepoint_def)
      from s2(1) have t2: "tr_active t2" "\<not> se_autocommit (session_of view t2)"
        by (simp_all add: session_ok_def)
      note undone = rollback_to_savepoint_session [OF pg t2 s2(3) nex r(2)]
      then have "\<exists>ex. se_savepoints (session_of view t') = ex @ ?base \<and> fst ` set ex \<subseteq> insert n N"
        by (intro stack) simp
      with undone s2(2) show ?thesis by simp blast
    next
      case (Inr x)
      obtain r3 t3 where rel: "control d (Release n) t2 = (r3, t3)" by fastforce
      with res True sav \<open>r1 = Inr u\<close> run Inr
      have "(r, t') = (case r3 of Inl e \<Rightarrow> (Inl e, fail_tx t3) | Inr _ \<Rightarrow> (Inr x, t3))"
        by (auto simp: savepoint_def split: sum.splits)
      then have out: "r3 = Inr () \<and> t' = t3 \<and> r = Inr x \<or> t' = fail_tx t3" by (cases r3) auto
      note left = release_session [OF pg s2(1,3) nex rel]
      then have "\<exists>ex. se_savepoints (session_of view t3) = ex @ ?base \<and> fst ` set ex \<subseteq> insert n N"
        by (intro stack) auto
      with left out s2(2) show ?thesis by auto
    qed
  qed
qed

lemma savepoint_rel:
  assumes "pg_driver d plain view" and "tx_rel (session_order view N) body" and "n \<notin> N"
  shows "tx_rel (session_order view (insert n N)) (savepoint d n body)"
proof (rule tx_relI)
  fix t :: "'a transaction"
  obtain r t' where res: "savepoint d n body t = (r, t')" by fastforce
  then show "session_order view (insert n N) t (snd (savepoint d n body t))"
    using savepoint_session [OF assms _ res] by (auto simp: session_order_def)
qed

text \<open>
  C28. A savepoint block that raises undoes its work, provided its body opens no nested savepoint of
  the same name. For a body that runs statements and nested savepoints of other names, and whatever
  faults the driver has, leaving the block by an exception either poisons the transaction, which
  then can only roll back, or restores exactly the tables and the savepoints the block started
  with. Nothing is committed and an abort by the server is never missed. Without the proviso it
  fails: \<open>nested_same_name_not_undone\<close> below.
\<close>

theorem savepoint_undoes_failed_block:
  assumes "pg_driver d plain view" and "tx_rel (session_order view N) body" and "n \<notin> N"
    and "session_ok view t" and "savepoint d n body t = (Inl e, t')"
  shows "session_ok view t' \<and> se_committed (session_of view t') = se_committed (session_of view t) \<and>
    (tr_failed t' \<or>
     se_working (session_of view t') = se_working (session_of view t) \<and>
     se_savepoints (session_of view t') = se_savepoints (session_of view t) \<and>
     \<not> se_aborted (session_of view t'))"
  using savepoint_session [OF assms] by (auto simp: session_ok_def)

subsection \<open>Transactions are atomic\<close>

lemma restore_autocommit_session:
  assumes pg: "pg_driver d plain view" and res: "restore_autocommit d t = (r, t')"
  shows "se_committed (session_of view t') = se_committed (session_of view t) \<and>
    tr_failed t' = tr_failed t \<and> tr_discard_required t' = tr_discard_required t"
proof (cases "tr_prior_autocommit t")
  case None
  with res show ?thesis by (simp add: restore_autocommit_def)
next
  case (Some b)
  obtain x c where set: "dr_set_autocommit d b (tr_connection t) = (x, c)" by fastforce
  from pg_set_autocommit [OF pg set] res Some set show ?thesis
    by (auto simp: restore_autocommit_def on_conn_def)
qed

lemma setup_autocommit_session:
  assumes pg: "pg_driver d plain view" and res: "setup_autocommit d t = (r, t')"
  shows "se_committed (session_of view t') = se_committed (session_of view t) \<and>
    (r = Inr () \<longrightarrow> \<not> se_autocommit (session_of view t') \<and>
       se_aborted (session_of view t') = se_aborted (session_of view t) \<and>
       tr_failed t' = tr_failed t)"
proof (cases "dr_autocommit d (tr_connection t) = Some (Inr True)")
  case True
  obtain x c where set: "dr_set_autocommit d False (tr_connection t) = (x, c)" by fastforce
  from pg_set_autocommit [OF pg set] res True set show ?thesis
    by (auto simp: setup_autocommit_def setup_failed_def on_conn_def Let_def split: sum.splits)
next
  case False
  have "\<not> se_autocommit (session_of view t)" if "dr_autocommit d (tr_connection t) \<in> {None, Some (Inr False)}"
    using that pg_no_autocommit [OF pg] pg_autocommit [OF pg] by auto
  with res False show ?thesis
    by (auto simp: setup_autocommit_def setup_failed_def Let_def split: sum.splits option.splits if_splits)
qed

lemma begin_session:
  assumes pg: "pg_driver d plain view" and fresh: "\<not> se_aborted (view c)"
    and res: "begin_tx d (new_transaction c isolation) = (r, t')"
  shows "se_committed (session_of view t') = se_committed (view c) \<and>
    (r = Inr () \<longrightarrow> session_ok view t' \<and> \<not> tr_failed t')"
proof -
  obtain r1 t1 where prep: "setup_autocommit d (new_transaction c isolation) = (r1, t1)" by fastforce
  note s1 = setup_autocommit_session [OF pg prep, unfolded new_transaction_def, simplified]
  show ?thesis
  proof (cases r1)
    case (Inl e)
    with res prep s1 show ?thesis by (auto simp: begin_tx_def new_transaction_def)
  next
    case (Inr u)
    let ?t2 = "t1\<lparr>tr_active := True\<rparr>"
    from Inr s1 fresh have t1: "\<not> se_autocommit (session_of view ?t2)" "\<not> se_aborted (session_of view t1)"
      "\<not> tr_failed t1" by auto
    show ?thesis
    proof (cases "tr_isolation t1")
      case None
      with res prep Inr s1 t1 show ?thesis
        by (auto simp: begin_tx_def new_transaction_def session_ok_def)
    next
      case (Some level)
      obtain r3 t3 where ctl: "control d (Begin level) ?t2 = (r3, t3)" by fastforce
      from pg t1(1) _ ctl obtain c3 b3
        where t3: "t3 = ?t2\<lparr>tr_connection := c3, tr_discard_required := b3\<rparr>"
        and k3: "keeps_commit (session_of view ?t2) (view c3)"
        and a3: "after_command (Begin level) (session_of view ?t2) (view c3) \<or>
          r3 \<noteq> Inr () \<and> se_savepoints (view c3) = se_savepoints (session_of view ?t2)"
        by (rule control_cases) auto
      obtain r4 t4 where rst: "restore_autocommit d (t3\<lparr>tr_active := False\<rparr>) = (r4, t4)" by fastforce
      from restore_autocommit_session [OF pg rst] res prep Inr Some ctl rst t3 k3 a3 t1 s1
      show ?thesis
        by (cases r3) (auto simp: begin_tx_def new_transaction_def session_ok_def keeps_commit_def
            raise_if_interrupted_def split: sum.splits if_splits)
    qed
  qed
qed

lemma finish_end_session:
  assumes pg: "pg_driver d plain view" and ok: "session_ok view t"
    and last: "(if b then finish_rollback d t else finish_commit d t) = (p, t1)"
    and b: "tr_failed t \<longrightarrow> b"
  shows "tr_failed t1 = tr_failed t \<and>
    (if b then se_committed (session_of view t1) = se_committed (session_of view t)
     else se_committed (session_of view t1) \<in>
        {se_committed (session_of view t), se_working (session_of view t)} \<and>
        (p = None \<longrightarrow> se_committed (session_of view t1) = se_working (session_of view t)) \<and>
        (p \<noteq> None \<longrightarrow> tr_discard_required t1))"
proof -
  obtain rr cr where rb: "dr_rollback d (tr_connection t) = (rr, cr)" by fastforce
  obtain rc cc where co: "dr_commit d (tr_connection t) = (rc, cc)" by fastforce
  obtain r2 c2 where rb2: "dr_rollback d cc = (r2, c2)" by fastforce
  note laws = pg_rollback [OF pg rb] pg_commit [OF pg co] pg_rollback [OF pg rb2]
  have "\<not> b \<Longrightarrow> \<not> se_aborted (session_of view t)" using ok b by (auto simp: session_ok_def)
  with laws last rb co rb2 show ?thesis
    by (auto simp: finish_rollback_def finish_commit_def on_conn_def split: sum.splits if_splits)
qed

text \<open>
  How a block ends whose body completed: \<open>old\<close> is what was committed before, \<open>new\<close> the work of the
  body. After a failed commit, or an interrupt, either may be stored. A cleanup error follows a
  commit that succeeded.
\<close>

definition honest_end :: "plane_error \<Rightarrow> 'w \<Rightarrow> 'w \<Rightarrow> 'w \<Rightarrow> bool" where
  "honest_end e old new stored \<longleftrightarrow>
     (e = err TransactionCommitOutcomeUnknownError \<or> e = PyInterrupt) \<and> stored \<in> {old, new} \<or>
     e = err TransactionCleanupError \<and> stored = new"

lemma finish_session:
  assumes pg: "pg_driver d plain view" and ok: "session_ok view t"
    and res: "finish_tx d failed t = (r, t')"
  shows "failed \<or> tr_failed t \<Longrightarrow>
      se_committed (session_of view t') = se_committed (session_of view t) \<and> (r = Inr () \<longrightarrow> failed)"
    and "\<not> failed \<Longrightarrow> \<not> tr_failed t \<Longrightarrow>
      (case r of
         Inr _ \<Rightarrow> se_committed (session_of view t') = se_working (session_of view t)
       | Inl e \<Rightarrow> tr_discard_required t' \<and> honest_end e (se_committed (session_of view t))
           (se_working (session_of view t)) (se_committed (session_of view t')))"
proof -
  let ?b = "failed \<or> tr_failed t"
  obtain p t1 where last: "(if ?b then finish_rollback d t else finish_commit d t) = (p, t1)"
    by fastforce
  obtain x t2 where rst: "restore_autocommit d (t1\<lparr>tr_active := False\<rparr>) = (x, t2)" by fastforce
  have facts: "tr_active t" using ok by (simp add: session_ok_def)
  note s1 = finish_end_session [OF pg ok last]
  note s2 = restore_autocommit_session [OF pg rst, simplified]
  have out: "(r, t') =
      (let t3 = (case x of Inl _ \<Rightarrow> t2\<lparr>tr_discard_required := True\<rparr> | Inr _ \<Rightarrow> t2) in
       case p of
         Some e \<Rightarrow> (Inl (if e = PyInterrupt then e else if ?b then err TransactionRollbackError
            else err TransactionCommitOutcomeUnknownError), t3)
       | None \<Rightarrow> (case x of
            Inl e \<Rightarrow> (Inl (if e = PyInterrupt then e else err TransactionCleanupError), t3)
          | Inr _ \<Rightarrow> if tr_failed t3 \<and> \<not> failed then (Inl (err TransactionStateError), t3)
              else (Inr (), t3)))"
    using res facts last rst by (simp add: finish_tx_def Let_def)
  show "failed \<or> tr_failed t \<Longrightarrow>
      se_committed (session_of view t') = se_committed (session_of view t) \<and> (r = Inr () \<longrightarrow> failed)"
    using s1 s2 out by (auto simp: Let_def split: option.splits sum.splits if_splits)
  show "\<not> failed \<Longrightarrow> \<not> tr_failed t \<Longrightarrow>
      (case r of
         Inr _ \<Rightarrow> se_committed (session_of view t') = se_working (session_of view t)
       | Inl e \<Rightarrow> tr_discard_required t' \<and> honest_end e (se_committed (session_of view t))
           (se_working (session_of view t)) (se_committed (session_of view t')))"
    using s1 s2 out
    by (auto simp: Let_def honest_end_def split: option.splits sum.splits if_splits)
qed

text \<open>
  C7. A transaction block is atomic and honest about its outcome. On a connection with no aborted
  transaction and for a body that runs statements and savepoints, whatever the driver faults:
  a block that cannot begin, whose body raises, or whose body went on after a failed statement
  raises and commits nothing. After a body that completed, a block that returns has committed
  exactly the work of the body; one that raises marks the connection for disposal and raises
  the cleanup error, and then exactly the work of the body is committed, or the error that says the
  outcome is unknown or an interrupt, and then either all of that work is committed or nothing.
\<close>

theorem transaction_block_atomic:
  assumes pg: "pg_driver d plain view" and body: "tx_rel (session_order view N) body"
    and fresh: "\<not> se_aborted (view c)" and res: "transaction_block d isolation body c = (r, t')"
  shows "case begin_tx d (new_transaction c isolation) of
      (Inl e, _) \<Rightarrow> r = Inl e \<and> se_committed (session_of view t') = se_committed (view c)
    | (Inr _, t1) \<Rightarrow>
      (case body t1 of
         (Inl e, _) \<Rightarrow> r = Inl e \<and> se_committed (session_of view t') = se_committed (view c)
       | (Inr x, t2) \<Rightarrow>
         if tr_failed t2 then isl r \<and> se_committed (session_of view t') = se_committed (view c)
         else case r of
             Inr y \<Rightarrow> y = x \<and> se_committed (session_of view t') = se_working (session_of view t2)
           | Inl e \<Rightarrow> tr_discard_required t' \<and>
               (e = err TransactionCleanupError \<and>
                  se_committed (session_of view t') = se_working (session_of view t2) \<or>
                e \<in> {err TransactionCommitOutcomeUnknownError, PyInterrupt} \<and>
                  se_committed (session_of view t') \<in> {se_committed (view c), se_working (session_of view t2)}))"
proof -
  obtain r1 t1 where beg: "begin_tx d (new_transaction c isolation) = (r1, t1)" by fastforce
  note s1 = begin_session [OF pg fresh beg]
  show ?thesis
  proof (cases r1)
    case (Inl e)
    with res beg s1 show ?thesis by (auto simp: transaction_block_def)
  next
    case (Inr u)
    obtain b t2 where run: "body t1 = (b, t2)" by fastforce
    from tx_relD [OF body run] s1 Inr have s2: "session_ok view t2"
      "se_committed (session_of view t2) = se_committed (view c)"
      unfolding session_order_def by auto
    obtain rf tf where fin: "finish_tx d (\<exists>e. b = Inl e) t2 = (rf, tf)" by fastforce
    note s3 = finish_session [OF pg s2(1) fin]
    show ?thesis
    proof (cases b)
      case (Inl e)
      with res beg run fin s3(1) s2 \<open>r1 = Inr u\<close> show ?thesis
        by (auto simp: transaction_block_def)
    next
      case (Inr x)
      with res beg \<open>r1 = Inr u\<close> run fin
      have "(r, t') = (case rf of Inl e \<Rightarrow> (Inl e, tf) | Inr _ \<Rightarrow> (Inr x, tf))"
        by (simp add: transaction_block_def split: sum.splits)
      with s3 s2 beg run Inr \<open>r1 = Inr u\<close> show ?thesis
        by (cases "tr_failed t2") (auto simp: honest_end_def split: sum.splits if_splits)
    qed
  qed
qed

text \<open>
  A server that keeps one number: \<open>add\<close> counts it up, \<open>boom\<close> aborts the transaction. It meets
  the laws.
\<close>

fun demo_execute :: "db_command \<Rightarrow> (nat session, cursor_result) tx" where
  "demo_execute cmd v =
     (let ok = (Inr \<lparr>cu_description = None, cu_rows = [], cu_rowcount = 1, cu_statusmessage = None\<rparr>);
          bad = (Inl OperationalError, v\<lparr>se_aborted := True\<rparr>) in
      case cmd of
        Rollback_to n \<Rightarrow>
          (case map_of (se_savepoints v) n of None \<Rightarrow> bad
           | Some w \<Rightarrow> (ok, v\<lparr>se_working := w, se_aborted := False,
               se_savepoints := dropWhile (\<lambda>p. fst p \<noteq> n) (se_savepoints v)\<rparr>))
      | _ \<Rightarrow>
        if se_aborted v then bad
        else case cmd of
            Native q _ \<Rightarrow>
              if q = ''add'' then (ok, v\<lparr>se_working := se_working v + 1\<rparr>) else bad
          | Savepoint n \<Rightarrow> (ok, v\<lparr>se_savepoints := (n, se_working v) # se_savepoints v\<rparr>)
          | Release n \<Rightarrow>
              (ok, v\<lparr>se_savepoints := tl (dropWhile (\<lambda>p. fst p \<noteq> n) (se_savepoints v))\<rparr>)
          | _ \<Rightarrow> (ok, v))"

definition demo_driver :: "nat session driver" where
  "demo_driver =
     \<lparr>dr_autocommit = (\<lambda>v. Some (Inr (se_autocommit v))),
      dr_set_autocommit = (\<lambda>b v. (Inr (), v\<lparr>se_autocommit := b\<rparr>)),
      dr_cursor = (\<lambda>v. (Inr (), v)), dr_execute = demo_execute,
      dr_close_cursor = (\<lambda>v. (Inr (), v)),
      dr_commit = (\<lambda>v. (Inr (), v\<lparr>se_aborted := False, se_savepoints := [],
        se_committed := if se_aborted v then se_committed v else se_working v\<rparr>)),
      dr_rollback = (\<lambda>v. (Inr (), v\<lparr>se_aborted := False, se_savepoints := [],
        se_working := se_committed v\<rparr>)),
      dr_interrupted = (\<lambda>v. False)\<rparr>"

lemma demo_driver_laws: "pg_driver demo_driver (\<lambda>_. True) id"
  unfolding pg_driver_def demo_driver_def
  by (auto simp: keeps_commit_def Let_def split: db_command.splits option.splits if_splits sum.splits)

definition demo_session :: "nat session" where
  "demo_session = \<lparr>se_committed = 7, se_working = 7, se_savepoints = [], se_aborted = False,
     se_autocommit = True\<rparr>"

text \<open>Count up, try two more inside a savepoint that fails, swallow that error.\<close>

definition demo_inner :: "(nat session transaction, command_result) tx" where
  "demo_inner = savepoint demo_driver ''sp''
     (tx_bind (execute demo_driver ''add'' (Positional [])) (\<lambda>_.
      execute demo_driver ''boom'' (Positional [])))"

definition demo_body :: "(nat session transaction, nat) tx" where
  "demo_body t =
     (case execute demo_driver ''add'' (Positional []) t of
        (Inl e, t1) \<Rightarrow> (Inl e, t1)
      | (Inr _, t1) \<Rightarrow> (Inr 0, snd (demo_inner t1)))"

lemma demo_inner_rel: "tx_rel (session_order id {''sp''}) demo_inner"
  unfolding demo_inner_def
  by (rule savepoint_rel [OF demo_driver_laws, where N = "{}"])
    (intro so.rel_bind statement_rels [OF demo_driver_laws], simp_all)

lemma demo_body_rel: "tx_rel (session_order id {''sp''}) demo_body"
proof -
  have eq: "demo_body = tx_bind (execute demo_driver ''add'' (Positional []))
      (\<lambda>_ t. (Inr 0, snd (demo_inner t)))"
    by (rule ext) (auto simp: demo_body_def tx_bind_def split: prod.splits sum.splits)
  have inner: "tx_rel (session_order id {''sp''}) (\<lambda>t. (Inr 0 :: nat res, snd (demo_inner t)))"
    using demo_inner_rel by (simp add: tx_rel_def)
  show ?thesis unfolding eq
    by (rule so.rel_bind [OF statement_rels(1) [OF demo_driver_laws] inner]) simp
qed

definition demo_open :: "nat session transaction" where
  "demo_open = (new_transaction (demo_session\<lparr>se_working := 8, se_autocommit := False\<rparr>) None)
     \<lparr>tr_active := True\<rparr>"

lemma demo_inner_result: "demo_inner demo_open = (Inl OperationalError, demo_open)"
  by code_simp

theorem savepoint_undoes_failed_block_witness:
  "session_ok id demo_open \<and> fst (demo_inner demo_open) = Inl OperationalError \<and>
   \<not> se_aborted (tr_connection demo_open)"
proof -
  have ok: "session_ok id demo_open" by code_simp
  have body: "tx_rel (session_order id {}) (tx_bind (execute demo_driver ''add'' (Positional []))
      (\<lambda>_. execute demo_driver ''boom'' (Positional [])))"
    by (intro so.rel_bind statement_rels [OF demo_driver_laws]) simp_all
  from savepoint_undoes_failed_block [OF demo_driver_laws body _ ok demo_inner_result [unfolded demo_inner_def]]
  have "\<not> tr_failed demo_open \<longrightarrow> \<not> se_aborted (tr_connection demo_open)" by auto
  moreover have "\<not> tr_failed demo_open" by code_simp
  ultimately show ?thesis using ok demo_inner_result by simp
qed

text \<open>
  The proviso of the savepoint property is needed. Two nested blocks of one name, and a driver whose
  \<open>RELEASE\<close> is interrupted when the number is 10: the outer block's \<open>ROLLBACK TO\<close> then
  finds the inner savepoint, which is still there, and the outer block ends by the interrupt, not
  poisoned, with the number at 9 instead of 8.
\<close>

definition release_interrupted :: "nat session driver" where
  "release_interrupted = demo_driver\<lparr>dr_execute := (\<lambda>cmd v.
     if cmd = Release ''sp'' \<and> se_working v = 10 then (Inl PyInterrupt, v) else demo_execute cmd v)\<rparr>"

lemma release_interrupted_laws: "pg_driver release_interrupted (\<lambda>_. True) id"
  unfolding pg_driver_def release_interrupted_def demo_driver_def
  by (auto simp: keeps_commit_def Let_def split: db_command.splits option.splits if_splits sum.splits)

definition same_name_blocks :: "(nat session transaction, command_result) tx" where
  "same_name_blocks = savepoint release_interrupted ''sp''
     (tx_bind (execute release_interrupted ''add'' (Positional [])) (\<lambda>_.
      savepoint release_interrupted ''sp'' (execute release_interrupted ''add'' (Positional []))))"

lemma nested_same_name_not_undone:
  "case same_name_blocks demo_open of
     (r, t') \<Rightarrow> r = Inl PyInterrupt \<and> \<not> tr_failed t' \<and> se_working (tr_connection demo_open) = 8 \<and>
       se_working (tr_connection t') = 9"
  by code_simp

lemma demo_block_result:
  "fst (transaction_block demo_driver (Some ''SERIALIZABLE'') demo_body demo_session) = Inr 0"
  by code_simp

theorem transaction_block_atomic_witness:
  "se_committed (tr_connection
     (snd (transaction_block demo_driver (Some ''SERIALIZABLE'') demo_body demo_session))) = 8"
proof -
  obtain t' where res: "transaction_block demo_driver (Some ''SERIALIZABLE'') demo_body demo_session
      = (Inr 0, t')" using demo_block_result by (metis prod.collapse)
  have "\<not> se_aborted (id demo_session)" by (simp add: demo_session_def)
  have "\<not> tr_failed (snd (demo_body (snd (begin_tx demo_driver (new_transaction demo_session (Some ''SERIALIZABLE''))))))"
    "se_working (tr_connection (snd (demo_body (snd (begin_tx demo_driver
      (new_transaction demo_session (Some ''SERIALIZABLE''))))))) = 8"
    "\<not> isl (fst (begin_tx demo_driver (new_transaction demo_session (Some ''SERIALIZABLE''))))"
    "\<not> isl (fst (demo_body (snd (begin_tx demo_driver (new_transaction demo_session (Some ''SERIALIZABLE''))))))"
    by code_simp+
  with transaction_block_atomic [OF demo_driver_laws demo_body_rel \<open>\<not> se_aborted (id demo_session)\<close> res] res
  show ?thesis by (auto split: prod.splits sum.splits)
qed

subsection \<open>Custody of pooled connections\<close>

lemma borrow_cases:
  assumes "borrow dp P = (r, P1)"
  shows "po_closed P1 = po_closed P \<and> po_discarded P1 = po_discarded P \<and>
    po_borrowed P1 = po_borrowed P + (case r of Inl _ \<Rightarrow> 0 | Inr _ \<Rightarrow> 1) \<and>
    (po_driver_pool P1 = po_driver_pool P \<or>
     po_driver_pool P1 = snd (dp_getconn dp (po_driver_pool P)))"
  using assms
  by (auto simp: borrow_def reserve_def checkout_def on_pool_def tx_on_def tx_bind_def
      split: if_splits prod.splits sum.splits)

lemma release_cases:
  assumes "release dp i c b P = (r, P1)"
  shows "po_closed P1 = po_closed P \<and> po_discarded P1 = po_discarded P \<and>
    po_borrowed P1 = po_borrowed P - 1 \<and>
    po_driver_pool P1 = snd (dp_putconn dp i c b (po_driver_pool P))"
  using assms
  by (auto simp: release_def on_pool_def tx_on_def split: prod.splits sum.splits)

text \<open>
  C33. The pool keeps custody of its connections. However a transaction block ends, the borrow
  count, the admission flag and the discard marks are those of before, and a connection goes
  back for reuse only after its rollback succeeded: when every connection that the driver pool
  keeps was clean before, every one is clean afterwards.
\<close>

theorem plane_transaction_custody:
  assumes reset: "\<And>c c'. dr_rollback d c = (Inr (), c') \<Longrightarrow> clean c'"
    and get: "\<And>p. all_clean p \<Longrightarrow> all_clean (snd (dp_getconn dp p))"
    and put: "\<And>i c close p. all_clean p \<Longrightarrow> close \<or> clean c \<Longrightarrow> all_clean (snd (dp_putconn dp i c close p))"
    and P: "all_clean (po_driver_pool P)" "po_discarded P = {}"
    and res: "plane_transaction d dp isolation body P = (r, P')"
  shows "all_clean (po_driver_pool P') \<and> po_borrowed P' = po_borrowed P \<and>
    po_closed P' = po_closed P \<and> po_discarded P' = {}"
proof -
  obtain rb P1 where bor: "borrow dp P = (rb, P1)" by fastforce
  note s1 = borrow_cases [OF bor]
  then have clean1: "all_clean (po_driver_pool P1)" using P(1) get by auto
  show ?thesis
  proof (cases rb)
    case (Inl e)
    with res bor s1 clean1 P show ?thesis by (simp add: plane_transaction_def pool_connection_def)
  next
    case (Inr ic)
    obtain i c where ic: "ic = (i, c)" by fastforce
    obtain x t where blk: "transaction_block d isolation body c = (x, t)" by fastforce
    define P2 where "P2 = (case x of Inl _ \<Rightarrow> if tr_discard_required t then discard_on_return i P1 else P1
      | Inr _ \<Rightarrow> P1)"
    obtain rr c2 where rst: "dr_rollback d (tr_connection t) = (rr, c2)" by fastforce
    define b where "b = (rr \<noteq> Inr () \<or> error_discards x \<or> fst (take_discard i P2))"
    obtain rl P4 where rel: "release dp i c2 b (snd (take_discard i P2)) = (rl, P4)" by fastforce
    have "P' = P4"
      using res bor Inr ic blk rst rel unfolding b_def P2_def
      by (auto simp: plane_transaction_def pool_connection_def Let_def take_discard_def split: sum.splits)
    moreover have "b \<or> clean c2" using reset rst by (auto simp: b_def)
    moreover have "po_driver_pool P2 = po_driver_pool P1" "po_borrowed P2 = po_borrowed P1"
      "po_closed P2 = po_closed P1" "po_discarded P2 - {i} = {}"
      using s1 P(2) by (auto simp: P2_def discard_on_return_def split: sum.splits)
    ultimately show ?thesis
      using release_cases [OF rel] s1 clean1 Inr put by (simp add: take_discard_def)
  qed
qed

definition demo_pool :: "(nat session list, nat session) driver_pool" where
  "demo_pool =
     \<lparr>dp_getconn = (\<lambda>p. case p of [] \<Rightarrow> (Inl OperationalError, []) | v # vs \<Rightarrow> (Inr (0, v), vs)),
      dp_putconn = (\<lambda>i v close p. (Inr (), if close then p else v # p)),
      dp_closeall = (\<lambda>p. (Inr (), []))\<rparr>"

definition new_pool :: "'p \<Rightarrow> 'p pool" where
  "new_pool p = \<lparr>po_driver_pool = p, po_borrowed = 0, po_closed = False, po_cleanup_complete = False,
     po_cleanup_failed = False, po_cleanup_attempts = 0, po_discarded = {}\<rparr>"

theorem plane_transaction_custody_witness:
  "list_all (\<lambda>v. \<not> se_aborted v) (po_driver_pool (snd (plane_transaction demo_driver demo_pool None
     (execute demo_driver ''boom'' (Positional [])) (new_pool [demo_session]))))"
proof -
  let ?clean = "\<lambda>v :: nat session. \<not> se_aborted v"
  have "dr_rollback demo_driver c = (Inr (), c') \<Longrightarrow> ?clean c'" for c c'
    by (auto simp: demo_driver_def)
  moreover have "list_all ?clean p \<Longrightarrow> list_all ?clean (snd (dp_getconn demo_pool p))" for p
    by (cases p) (auto simp: demo_pool_def)
  moreover have "list_all ?clean p \<Longrightarrow> close \<or> ?clean c \<Longrightarrow>
      list_all ?clean (snd (dp_putconn demo_pool i c close p))" for i c close p
    by (auto simp: demo_pool_def)
  moreover have "list_all ?clean (po_driver_pool (new_pool [demo_session]))"
    "po_discarded (new_pool [demo_session]) = {}"
    by (simp_all add: new_pool_def demo_session_def)
  ultimately show ?thesis
    using plane_transaction_custody [of demo_driver ?clean "list_all ?clean" demo_pool
        "new_pool [demo_session]" None "execute demo_driver ''boom'' (Positional [])"]
    by (metis prod.collapse)
qed

text \<open>
  The pool among threads: each rule is one locked section or one driver call. The second
  component counts the borrowers between \<open>reserve\<close> and \<open>release\<close>, the third the threads
  inside \<open>close\<close>.
\<close>

inductive pool_step ::
  "('p, 'c) driver_pool \<Rightarrow> 'p pool \<times> nat \<times> nat \<Rightarrow> 'p pool \<times> nat \<times> nat \<Rightarrow> bool"
  for dp where
  reserved: "reserve P = (Inr u, P') \<Longrightarrow> pool_step dp (P, n, k) (P', n + 1, k)"
| refused: "reserve P = (Inl e, P') \<Longrightarrow> pool_step dp (P, n, k) (P', n, k)"
| checked_out: "0 < n \<Longrightarrow> checkout dp P = (Inr c, P') \<Longrightarrow> pool_step dp (P, n, k) (P', n, k)"
| not_checked_out: "0 < n \<Longrightarrow> checkout dp P = (Inl e, P') \<Longrightarrow> pool_step dp (P, n, k) (P', n - 1, k)"
| released: "0 < n \<Longrightarrow> release dp i c b P = (r, P') \<Longrightarrow> pool_step dp (P, n, k) (P', n - 1, k)"
| marked: "pool_step dp (P, n, k) (discard_on_return i P, n, k)"
| unmarked: "pool_step dp (P, n, k) (snd (take_discard i P), n, k)"
| closing: "close_admission P = (Inr True, P') \<Longrightarrow> pool_step dp (P, n, k) (P', n, k + 1)"
| not_closing: "close_admission P = (r, P') \<Longrightarrow> r \<noteq> Inr True \<Longrightarrow> pool_step dp (P, n, k) (P', n, k)"
| attempted: "0 < k \<Longrightarrow> count_attempt P = (Inr True, P') \<Longrightarrow> pool_step dp (P, n, k) (P', n, k)"
| already_clean: "0 < k \<Longrightarrow> count_attempt P = (Inr False, P') \<Longrightarrow> pool_step dp (P, n, k) (P', n, k - 1)"
| cleaned: "0 < k \<Longrightarrow> cleanup dp P = (r, P') \<Longrightarrow> pool_step dp (P, n, k) (P', n, k - 1)"

definition pool_inv :: "'p pool \<times> nat \<times> nat \<Rightarrow> bool" where
  "pool_inv s = (case s of (P, n, k) \<Rightarrow>
     po_borrowed P = int n \<and> (po_closed P \<longrightarrow> n = 0) \<and> (0 < k \<longrightarrow> po_closed P) \<and>
     (po_cleanup_complete P \<longrightarrow> po_closed P))"

lemma checkout_frame:
  assumes "checkout dp P = (r, P')"
  shows "po_closed P' = po_closed P \<and> po_cleanup_complete P' = po_cleanup_complete P \<and>
    po_borrowed P' = po_borrowed P - (case r of Inl _ \<Rightarrow> 1 | Inr _ \<Rightarrow> 0)"
  using assms
  by (auto simp: checkout_def on_pool_def tx_on_def split: prod.splits sum.splits)

lemma release_frame:
  "release dp i c b P = (r, P') \<Longrightarrow> po_cleanup_complete P' = po_cleanup_complete P"
  by (auto simp: release_def on_pool_def tx_on_def split: prod.splits sum.splits)

lemma cleanup_frame:
  assumes "cleanup dp P = (r, P')"
  shows "po_closed P' = po_closed P \<and> po_borrowed P' = po_borrowed P"
  using assms by (auto simp: cleanup_def on_pool_def tx_on_def split: prod.splits sum.splits)

lemma pool_step_inv: "pool_step dp s s' \<Longrightarrow> pool_inv s \<Longrightarrow> pool_inv s'"
proof (induction rule: pool_step.induct)
  case (released n i c b P r P' k)
  then show ?case using release_cases release_frame unfolding pool_inv_def by fastforce
next
  case (cleaned k P r P' n)
  then show ?case using cleanup_frame unfolding pool_inv_def by fastforce
qed (auto simp: pool_inv_def reserve_def close_admission_def count_attempt_def discard_on_return_def
    take_discard_def dest!: checkout_frame split: if_splits)

text \<open>
  C32. Shutdown is safe under any interleaving of threads. In every state the pool reaches from a
  new one, the borrow count is the number of borrowers; while some thread is inside \<open>close\<close>
  past admission, or once admission is closed, nobody holds or is fetching a connection and every
  new borrower is refused; and closing a cleaned pool again does nothing.
\<close>

theorem pool_shutdown_safe:
  assumes "(pool_step dp)\<^sup>*\<^sup>* (new_pool p, 0, 0) (P, n, k)"
  shows "po_borrowed P = int n \<and>
    (0 < k \<or> po_closed P \<longrightarrow> n = 0 \<and> borrow dp P = (Inl (err PoolClosedError), P)) \<and>
    (po_cleanup_complete P \<longrightarrow> close_pool dp P = (Inr (), P))"
proof -
  have "pool_inv (new_pool p, 0, 0)" by (simp add: pool_inv_def new_pool_def)
  with assms have "pool_inv (P, n, k)"
    by (induction rule: rtranclp_induct) (auto intro: pool_step_inv)
  then show ?thesis
    by (auto simp: pool_inv_def borrow_def reserve_def close_pool_def close_admission_def
        tx_bind_def tx_return_def)
qed

theorem pool_shutdown_safe_witness:
  "borrow demo_pool ((new_pool [])\<lparr>po_closed := True\<rparr>) =
     (Inl (err PoolClosedError), (new_pool [])\<lparr>po_closed := True\<rparr>)"
proof -
  have "pool_step demo_pool (new_pool [], 0, 0) ((new_pool [])\<lparr>po_closed := True\<rparr>, 0, 0 + 1)"
    by (rule closing) (simp add: close_admission_def new_pool_def)
  then have "(pool_step demo_pool)\<^sup>*\<^sup>* (new_pool [], 0, 0) ((new_pool [])\<lparr>po_closed := True\<rparr>, 0, 0 + 1)"
    by (rule r_into_rtranclp)
  from pool_shutdown_safe [OF this] show ?thesis by simp
qed

end
