(* ===== verification/StopEpochs.thy ===== *)
theory StopEpochs
  imports Domain
begin

text \<open>
  Owner stop epochs: \<open>repositories/stop_epochs.py\<close> over the tables of
  \<open>database/stop_schema.py\<close>. A stop of an owner opens a new epoch; peers acknowledge it; an
  operation is bound to the epoch it was admitted in and dies with it. The argument \<open>coll\<close> is
  the sort key of the collation of the identifier columns.
\<close>

subsection \<open>Rows and values\<close>

record stop_row =
  so_owner_id :: string
  so_epoch :: int
  so_revision :: int
  so_engaged :: bool
  so_engaged_at :: "instant option"
  so_engaged_by :: "string option"
  so_reason :: "string option"
  so_updated_at :: "instant option"

record owner_stop_record =
  os_owner_id :: string
  os_epoch :: int
  os_revision :: int
  os_engaged :: bool
  os_engaged_at :: "instant option"
  os_engaged_by :: "string option"
  os_reason :: "string option"

record peer_ack =
  pa_owner_id :: string
  pa_epoch :: int
  pa_mesh_id :: string
  pa_peer_id :: string
  pa_receipt_digest :: string
  pa_acknowledged_at :: instant

record op_binding =
  op_owner_id :: string
  op_operation_id :: string
  op_epoch :: int

record stop_db =
  sd_epochs :: "stop_row list"
  sd_acks :: "peer_ack list"
  sd_bindings :: "op_binding list"

text \<open>Column ranges and \<open>CHECK\<close> clauses.\<close>

definition text_between :: "nat \<Rightarrow> nat \<Rightarrow> string \<Rightarrow> bool" where
  "text_between a b s = (pg_text s \<and> a \<le> length s \<and> length s \<le> b)"

definition stop_row_ok :: "stop_row \<Rightarrow> bool" where
  "stop_row_ok r =
     (text_between 1 512 (so_owner_id r) \<and>
      0 \<le> so_epoch r \<and> so_epoch r \<le> MAX_BIGINT \<and> 0 \<le> so_revision r \<and> so_revision r \<le> MAX_BIGINT \<and>
      (case so_engaged_by r of None \<Rightarrow> True | Some s \<Rightarrow> text_between 1 512 s) \<and>
      (case so_reason r of None \<Rightarrow> True | Some s \<Rightarrow> text_between 0 280 s) \<and>
      (so_epoch r = 0 \<and> so_revision r = 0 \<and> \<not> so_engaged r \<and> so_engaged_at r = None \<and>
       so_engaged_by r = None \<and> so_reason r = None \<and> so_updated_at r = None \<or>
       1 \<le> so_epoch r \<and> so_epoch r \<le> so_revision r \<and> so_engaged_by r \<noteq> None \<and> so_reason r \<noteq> None \<and>
       (case (so_engaged_at r, so_updated_at r) of (Some a, Some u) \<Rightarrow> a \<le> u | _ \<Rightarrow> False)))"

definition stop_conflict :: "stop_row \<Rightarrow> stop_row \<Rightarrow> bool" where
  "stop_conflict r s = (so_owner_id r = so_owner_id s)"

definition peer_ack_ok :: "peer_ack \<Rightarrow> bool" where
  "peer_ack_ok a =
     (1 \<le> pa_epoch a \<and> pa_epoch a \<le> MAX_BIGINT \<and> text_between 1 64 (pa_mesh_id a) \<and>
      text_between 1 64 (pa_peer_id a) \<and> lower_hex 64 (pa_receipt_digest a))"

definition peer_ack_key :: "peer_ack \<Rightarrow> string \<times> int \<times> string \<times> string" where
  "peer_ack_key a = (pa_owner_id a, pa_epoch a, pa_mesh_id a, pa_peer_id a)"

definition peer_ack_conflict :: "peer_ack \<Rightarrow> peer_ack \<Rightarrow> bool" where
  "peer_ack_conflict a b = (peer_ack_key a = peer_ack_key b)"

definition op_binding_ok :: "op_binding \<Rightarrow> bool" where
  "op_binding_ok b = (0 \<le> op_epoch b \<and> op_epoch b \<le> MAX_BIGINT)"

definition op_binding_conflict :: "op_binding \<Rightarrow> op_binding \<Rightarrow> bool" where
  "op_binding_conflict b c =
     (op_owner_id b = op_owner_id c \<and> op_operation_id b = op_operation_id c)"

abbreviation on_epochs :: "(stop_row list, 'a) tx \<Rightarrow> (stop_db, 'a) tx" where
  "on_epochs \<equiv> tx_on sd_epochs (\<lambda>t d. d\<lparr>sd_epochs := t\<rparr>)"

subsection \<open>Validation\<close>

definition stop_integer :: "int \<Rightarrow> int res" where
  "stop_integer n =
     (if 0 \<le> n \<and> n \<le> MAX_BIGINT then Inr n else Inl (err RepositoryValidationError))"

fun stop_time :: "pytime \<Rightarrow> instant res" where
  "stop_time (Aware local offset) =
     (if offset = 0 then Inr local else Inl (err RepositoryValidationError))"
| "stop_time (Naive _) = Inl (err RepositoryValidationError)"

definition stop_record :: "stop_row \<Rightarrow> owner_stop_record" where
  "stop_record r =
     \<lparr>os_owner_id = so_owner_id r, os_epoch = so_epoch r, os_revision = so_revision r,
      os_engaged = so_engaged r, os_engaged_at = so_engaged_at r, os_engaged_by = so_engaged_by r,
      os_reason = so_reason r\<rparr>"

definition stop_fence :: "stop_row \<Rightarrow> int \<Rightarrow> unit res" where
  "stop_fence r revision =
     (if so_revision r \<noteq> revision then Inl (err StopEpochConflictError) else Inr ())"

definition transition_time :: "stop_row \<Rightarrow> instant \<Rightarrow> unit res" where
  "transition_time r at =
     (case so_updated_at r of
        Some u \<Rightarrow> if at < u then Inl (err StopEpochConflictError) else Inr ()
      | None \<Rightarrow> Inr ())"

subsection \<open>Operations\<close>

definition new_stop_row :: "string \<Rightarrow> stop_row" where
  "new_stop_row owner =
     \<lparr>so_owner_id = owner, so_epoch = 0, so_revision = 0, so_engaged = False, so_engaged_at = None,
      so_engaged_by = None, so_reason = None, so_updated_at = None\<rparr>"

text \<open>\<open>_locked\<close>: create the row when it is missing, then read it under a lock.\<close>

definition locked_epoch :: "string \<Rightarrow> (stop_db, stop_row) tx" where
  "locked_epoch owner = on_epochs (
     tx_bind (tx_stmt (sql_insert_or_skip stop_row_ok stop_conflict stop_conflict (new_stop_row owner)))
       (\<lambda>_.
     tx_bind (tx_read (List.find (\<lambda>r. so_owner_id r = owner))) (\<lambda>row.
     case row of Some r \<Rightarrow> tx_return r | None \<Rightarrow> tx_raise PyTypeError)))"

definition get_stop :: "string \<Rightarrow> bool \<Rightarrow> (stop_db, owner_stop_record option) tx" where
  "get_stop owner_id for_update =
     tx_bind (tx_lift (required_id 512 owner_id)) (\<lambda>owner.
     tx_bind (if for_update then tx_bind (locked_epoch owner) (\<lambda>r. tx_return (Some r))
              else tx_bind (text_parameter owner) (\<lambda>_.
                tx_read (\<lambda>d. List.find (\<lambda>r. so_owner_id r = owner) (sd_epochs d)))) (\<lambda>row.
     case row of
       None \<Rightarrow> tx_return None
     | Some r \<Rightarrow> tx_return (if so_revision r = 0 then None else Some (stop_record r))))"

definition engage_row :: "instant \<Rightarrow> string \<Rightarrow> string \<Rightarrow> stop_row \<Rightarrow> stop_row" where
  "engage_row at actor reason r =
     r\<lparr>so_epoch := so_epoch r + 1, so_revision := so_revision r + 1, so_engaged := True,
       so_engaged_at := Some at, so_engaged_by := Some actor, so_reason := Some reason,
       so_updated_at := Some at\<rparr>"

definition engage ::
  "string \<Rightarrow> int \<Rightarrow> string \<Rightarrow> string \<Rightarrow> pytime \<Rightarrow> (stop_db, owner_stop_record) tx" where
  "engage owner_id expected_revision reason_text actor_id moment =
     tx_bind (tx_lift (required_id 512 owner_id)) (\<lambda>owner.
     tx_bind (tx_lift (stop_integer expected_revision)) (\<lambda>revision.
     tx_bind (tx_lift (required_id 512 actor_id)) (\<lambda>actor.
     tx_bind (tx_lift (bounded_text 280 True reason_text)) (\<lambda>reason.
     tx_bind (tx_lift (stop_time moment)) (\<lambda>at.
     tx_bind (locked_epoch owner) (\<lambda>row.
     tx_bind (tx_lift (stop_fence row revision)) (\<lambda>_.
     if so_engaged row then
       (if (so_reason row, so_engaged_by row, so_engaged_at row) \<noteq> (Some reason, Some actor, Some at)
        then tx_raise (err StopEpochConflictError)
        else tx_return (stop_record row))
     else
       tx_bind (tx_lift (transition_time row at)) (\<lambda>_.
       tx_bind (tx_require (\<not> (so_epoch row = MAX_BIGINT \<or> revision = MAX_BIGINT))
           (err StopEpochConflictError)) (\<lambda>_.
       tx_bind (on_epochs (tx_stmt (sql_update stop_row_ok stop_conflict
           (\<lambda>r. so_owner_id r = owner \<and> so_revision r = revision \<and> \<not> so_engaged r)
           (engage_row at actor reason)))) (\<lambda>changed.
       case changed of
         [] \<Rightarrow> tx_raise (err StopEpochConflictError)
       | r # _ \<Rightarrow> tx_return (stop_record r)))))))))))"

definition resume_row :: "instant \<Rightarrow> stop_row \<Rightarrow> stop_row" where
  "resume_row at r =
     r\<lparr>so_revision := so_revision r + 1, so_engaged := False, so_updated_at := Some at\<rparr>"

definition resume :: "string \<Rightarrow> int \<Rightarrow> int \<Rightarrow> pytime \<Rightarrow> (stop_db, owner_stop_record) tx" where
  "resume owner_id expected_revision expected_epoch moment =
     tx_bind (tx_lift (required_id 512 owner_id)) (\<lambda>owner.
     tx_bind (tx_lift (stop_integer expected_revision)) (\<lambda>revision.
     tx_bind (tx_lift (stop_integer expected_epoch)) (\<lambda>epoch.
     tx_bind (tx_lift (stop_time moment)) (\<lambda>at.
     tx_bind (locked_epoch owner) (\<lambda>row.
     tx_bind (tx_lift (stop_fence row revision)) (\<lambda>_.
     tx_bind (tx_require (so_engaged row \<and> so_epoch row = epoch) (err StopEpochConflictError)) (\<lambda>_.
     tx_bind (tx_lift (transition_time row at)) (\<lambda>_.
     tx_bind (tx_require (revision \<noteq> MAX_BIGINT) (err StopEpochConflictError)) (\<lambda>_.
     tx_bind (on_epochs (tx_stmt (sql_update stop_row_ok stop_conflict
         (\<lambda>r. so_owner_id r = owner \<and> so_revision r = revision \<and> so_epoch r = epoch \<and> so_engaged r)
         (resume_row at)))) (\<lambda>changed.
     case changed of
       [] \<Rightarrow> tx_raise (err StopEpochConflictError)
     | r # _ \<Rightarrow> tx_return (stop_record r)))))))))))"

definition list_acknowledgments ::
  "(string \<Rightarrow> string) \<Rightarrow> string \<Rightarrow> int \<Rightarrow> (stop_db, peer_ack list) tx" where
  "list_acknowledgments coll owner_id ack_epoch =
     tx_bind (tx_lift (required_id 512 owner_id)) (\<lambda>owner.
     tx_bind (tx_lift (stop_integer ack_epoch)) (\<lambda>epoch.
     tx_bind (text_parameter owner) (\<lambda>_.
     tx_bind (tx_read (\<lambda>d. sql_page (\<lambda>a. pa_owner_id a = owner \<and> pa_epoch a = epoch)
         (\<lambda>a. (coll (pa_mesh_id a), coll (pa_peer_id a))) 65 (sd_acks d))) (\<lambda>rows.
     if 64 < length rows then tx_raise (err StopEpochConflictError) else tx_return rows))))"

text \<open>
  \<open>acknowledge\<close>: the work between the savepoint and its release. The insert and the update
  repeat the fence inside their statements.
\<close>

definition new_peer_ack :: "string \<Rightarrow> int \<Rightarrow> string \<Rightarrow> string \<Rightarrow> string \<Rightarrow> instant \<Rightarrow> peer_ack" where
  "new_peer_ack owner epoch mesh peer digest at =
     \<lparr>pa_owner_id = owner, pa_epoch = epoch, pa_mesh_id = mesh, pa_peer_id = peer,
      pa_receipt_digest = digest, pa_acknowledged_at = at\<rparr>"

definition active_epoch :: "string \<Rightarrow> int \<Rightarrow> int \<Rightarrow> stop_row \<Rightarrow> bool" where
  "active_epoch owner revision epoch r =
     (so_owner_id r = owner \<and> so_revision r = revision \<and> so_epoch r = epoch \<and> so_engaged r)"

definition insert_ack_sql ::
  "int \<Rightarrow> peer_ack \<Rightarrow> stop_db \<Rightarrow> sql_error + peer_ack option \<times> stop_db" where
  "insert_ack_sql revision a d =
     (if \<exists>r \<in> set (sd_epochs d). active_epoch (pa_owner_id a) revision (pa_epoch a) r
      then case sql_insert peer_ack_ok peer_ack_conflict a (sd_acks d) of
             Inl x \<Rightarrow> Inl x
           | Inr (_, t) \<Rightarrow> Inr (Some a, d\<lparr>sd_acks := t\<rparr>)
      else Inr (None, d))"

definition bump_revision :: "instant \<Rightarrow> stop_row \<Rightarrow> stop_row" where
  "bump_revision at r = r\<lparr>so_revision := so_revision r + 1, so_updated_at := Some at\<rparr>"

definition acknowledge_block ::
  "(string \<Rightarrow> string) \<Rightarrow> string \<Rightarrow> string \<Rightarrow> string \<Rightarrow> int \<Rightarrow> int \<Rightarrow> string \<Rightarrow> instant
     \<Rightarrow> (stop_db, peer_ack) tx" where
  "acknowledge_block coll owner mesh peer epoch revision digest at =
     tx_bind (text_parameter mesh) (\<lambda>_.
     tx_bind (text_parameter peer) (\<lambda>_.
     tx_bind (tx_read (\<lambda>d. List.find (\<lambda>a. peer_ack_key a = (owner, epoch, mesh, peer)) (sd_acks d)))
       (\<lambda>existing.
     case existing of
       Some a \<Rightarrow>
         if pa_receipt_digest a \<noteq> digest then tx_raise (err StopEpochConflictError) else tx_return a
     | None \<Rightarrow>
       tx_bind (tx_require (revision \<noteq> MAX_BIGINT) (err StopEpochConflictError)) (\<lambda>_.
       tx_bind (list_acknowledgments coll owner epoch) (\<lambda>acks.
       tx_bind (tx_require (length acks < 64) (err StopEpochConflictError)) (\<lambda>_.
       tx_bind (tx_stmt (insert_ack_sql revision (new_peer_ack owner epoch mesh peer digest at)))
         (\<lambda>inserted.
       tx_bind (on_epochs (tx_stmt (sql_update stop_row_ok stop_conflict
           (active_epoch owner revision epoch) (bump_revision at)))) (\<lambda>changed.
       case inserted of
         None \<Rightarrow> tx_raise (err StopEpochConflictError)
       | Some a \<Rightarrow>
           if changed = [] then tx_raise (err StopEpochConflictError) else tx_return a))))))))"

definition acknowledge ::
  "(string \<Rightarrow> string) \<Rightarrow> string \<Rightarrow> string \<Rightarrow> string \<Rightarrow> int \<Rightarrow> int \<Rightarrow> string \<Rightarrow> pytime
     \<Rightarrow> (stop_db, peer_ack) tx" where
  "acknowledge coll owner_id mesh_id peer_id ack_epoch expected_revision receipt_digest moment =
     tx_bind (tx_lift (required_id 512 owner_id)) (\<lambda>owner.
     tx_bind (tx_lift (required_id 64 mesh_id)) (\<lambda>mesh.
     tx_bind (tx_lift (required_id 64 peer_id)) (\<lambda>peer.
     tx_bind (tx_lift (stop_integer ack_epoch)) (\<lambda>epoch.
     tx_bind (tx_lift (stop_integer expected_revision)) (\<lambda>revision.
     tx_bind (tx_lift (required_id 64 receipt_digest)) (\<lambda>digest.
     tx_bind (tx_require (lower_hex 64 digest) (err RepositoryValidationError)) (\<lambda>_.
     tx_bind (tx_lift (stop_time moment)) (\<lambda>at.
     tx_bind (locked_epoch owner) (\<lambda>row.
     tx_bind (tx_lift (stop_fence row revision)) (\<lambda>_.
     tx_bind (tx_require (so_engaged row \<and> so_epoch row = epoch) (err StopEpochConflictError)) (\<lambda>_.
     tx_bind (tx_lift (transition_time row at)) (\<lambda>_.
     tx_savepoint (acknowledge_block coll owner mesh peer epoch revision digest at)))))))))))))"

definition assert_running :: "string \<Rightarrow> int option \<Rightarrow> (stop_db, owner_stop_record option) tx" where
  "assert_running owner_id expected_epoch =
     tx_bind (tx_lift (required_id 512 owner_id)) (\<lambda>owner.
     tx_bind (tx_lift (case expected_epoch of None \<Rightarrow> Inr None
         | Some e \<Rightarrow> (case stop_integer e of Inl x \<Rightarrow> Inl x | Inr n \<Rightarrow> Inr (Some n)))) (\<lambda>epoch.
     tx_bind (locked_epoch owner) (\<lambda>row.
     tx_bind (tx_require (\<not> so_engaged row) (err OwnerStoppedError)) (\<lambda>_.
     tx_bind (tx_require (epoch = None \<or> epoch = Some (so_epoch row)) (err StopEpochConflictError)) (\<lambda>_.
     tx_return (if so_revision row = 0 then None else Some (stop_record row)))))))"

definition insert_binding_sql ::
  "op_binding \<Rightarrow> stop_db \<Rightarrow> sql_error + op_binding option \<times> stop_db" where
  "insert_binding_sql b d =
     (if \<exists>r \<in> set (sd_epochs d). so_owner_id r = op_owner_id b \<and> so_epoch r = op_epoch b \<and> \<not> so_engaged r
      then case sql_insert op_binding_ok op_binding_conflict b (sd_bindings d) of
             Inl x \<Rightarrow> Inl x
           | Inr (_, t) \<Rightarrow> Inr (Some b, d\<lparr>sd_bindings := t\<rparr>)
      else Inr (None, d))"

abbreviation find_binding :: "string \<Rightarrow> string \<Rightarrow> stop_db \<Rightarrow> op_binding option" where
  "find_binding owner operation d \<equiv>
     List.find (\<lambda>b. op_owner_id b = owner \<and> op_operation_id b = operation) (sd_bindings d)"

definition bind_operation :: "string \<Rightarrow> string \<Rightarrow> (stop_db, int) tx" where
  "bind_operation owner_id operation =
     tx_bind (tx_lift (required_id 512 owner_id)) (\<lambda>owner.
     tx_bind (locked_epoch owner) (\<lambda>row.
     tx_bind (tx_require (\<not> so_engaged row) (err OwnerStoppedError)) (\<lambda>_.
     tx_bind (tx_read (find_binding owner operation)) (\<lambda>existing.
     case existing of
       Some b \<Rightarrow>
         if op_epoch b \<noteq> so_epoch row then tx_raise (err StopEpochConflictError)
         else tx_return (op_epoch b)
     | None \<Rightarrow>
       tx_bind (tx_stmt (insert_binding_sql
           \<lparr>op_owner_id = owner, op_operation_id = operation, op_epoch = so_epoch row\<rparr>)) (\<lambda>inserted.
       case inserted of
         None \<Rightarrow> tx_raise (err StopEpochConflictError)
       | Some b \<Rightarrow> tx_return (op_epoch b))))))"

definition assert_operation :: "string \<Rightarrow> string \<Rightarrow> (stop_db, unit) tx" where
  "assert_operation owner_id operation =
     tx_bind (tx_lift (required_id 512 owner_id)) (\<lambda>owner.
     tx_bind (locked_epoch owner) (\<lambda>row.
     tx_bind (tx_require (\<not> so_engaged row) (err OwnerStoppedError)) (\<lambda>_.
     tx_bind (tx_read (find_binding owner operation)) (\<lambda>binding.
     tx_require (case binding of None \<Rightarrow> so_epoch row = 0 | Some b \<Rightarrow> op_epoch b = so_epoch row)
       (err StopEpochConflictError)))))"

subsection \<open>The tables over time\<close>

interpretation ste: keyed_table stop_row_ok stop_conflict so_owner_id
  by unfold_locales (auto simp: stop_conflict_def)

interpretation sta: keyed_table peer_ack_ok peer_ack_conflict peer_ack_key
  by unfold_locales (auto simp: peer_ack_conflict_def)

interpretation stb: keyed_table op_binding_ok op_binding_conflict "\<lambda>b. (op_owner_id b, op_operation_id b)"
  by unfold_locales (auto simp: op_binding_conflict_def)

abbreviation acks_of :: "string \<Rightarrow> int \<Rightarrow> peer_ack list \<Rightarrow> peer_ack list" where
  "acks_of owner epoch \<equiv> filter (\<lambda>a. pa_owner_id a = owner \<and> pa_epoch a = epoch)"

text \<open>
  The constraints of the three tables, the foreign keys, and what the repository keeps beyond
  them: no acknowledgment or binding is from a later epoch than its owner's, and an epoch has at
  most 64 acknowledgments.
\<close>

definition stop_ok :: "stop_db \<Rightarrow> bool" where
  "stop_ok d \<longleftrightarrow>
     table_ok stop_row_ok stop_conflict (sd_epochs d) \<and>
     table_ok peer_ack_ok peer_ack_conflict (sd_acks d) \<and>
     table_ok op_binding_ok op_binding_conflict (sd_bindings d) \<and>
     (\<forall>a \<in> set (sd_acks d). \<exists>r \<in> set (sd_epochs d). so_owner_id r = pa_owner_id a \<and> pa_epoch a \<le> so_epoch r) \<and>
     (\<forall>b \<in> set (sd_bindings d). \<exists>r \<in> set (sd_epochs d). so_owner_id r = op_owner_id b \<and> op_epoch b \<le> so_epoch r) \<and>
     (\<forall>owner epoch. length (acks_of owner epoch (sd_acks d)) \<le> 64)"

text \<open>
  How the row of an owner may move: forward in epoch and revision, and into the engaged state only
  by opening a new epoch.
\<close>

definition row_advances :: "stop_row \<Rightarrow> stop_row \<Rightarrow> bool" where
  "row_advances r s \<longleftrightarrow>
     so_owner_id s = so_owner_id r \<and> so_epoch r \<le> so_epoch s \<and>
     (s = r \<or> so_revision r < so_revision s) \<and>
     (so_engaged s \<longrightarrow> so_engaged r \<or> so_epoch r < so_epoch s)"

definition epochs_order :: "stop_row list \<Rightarrow> stop_row list \<Rightarrow> bool" where
  "epochs_order t t' \<longleftrightarrow>
     (table_ok stop_row_ok stop_conflict t \<longrightarrow> table_ok stop_row_ok stop_conflict t' \<and>
        (\<forall>r \<in> set t. \<exists>s \<in> set t'. row_advances r s))"

definition stop_order :: "stop_db \<Rightarrow> stop_db \<Rightarrow> bool" where
  "stop_order d d' \<longleftrightarrow>
     (stop_ok d \<longrightarrow> stop_ok d' \<and> (\<forall>r \<in> set (sd_epochs d). \<exists>s \<in> set (sd_epochs d'). row_advances r s) \<and>
        set (sd_acks d) \<subseteq> set (sd_acks d') \<and> set (sd_bindings d) \<subseteq> set (sd_bindings d'))"

lemma row_advances_refl: "row_advances r r"
  by (simp add: row_advances_def)

lemma row_advances_trans: "row_advances r s \<Longrightarrow> row_advances s q \<Longrightarrow> row_advances r q"
  by (auto simp: row_advances_def)

interpretation eo: step_order epochs_order
proof
  show "epochs_order t t" for t unfolding epochs_order_def using row_advances_refl by blast
  show "epochs_order t u \<Longrightarrow> epochs_order u v \<Longrightarrow> epochs_order t v" for t u v
    unfolding epochs_order_def using row_advances_trans by meson
qed

interpretation sto: step_order stop_order
proof
  show "stop_order d d" for d unfolding stop_order_def using row_advances_refl by blast
  show "stop_order c d \<Longrightarrow> stop_order d e \<Longrightarrow> stop_order c e" for c d e
    unfolding stop_order_def using row_advances_trans by (meson subset_trans)
qed

lemma stop_order_epochs: "epochs_order (sd_epochs d) t \<Longrightarrow> stop_order d (d\<lparr>sd_epochs := t\<rparr>)"
proof -
  assume step: "epochs_order (sd_epochs d) t"
  show ?thesis unfolding stop_order_def
  proof (intro impI)
    assume ok: "stop_ok d"
    with step have t: "table_ok stop_row_ok stop_conflict t" "\<forall>r \<in> set (sd_epochs d). \<exists>s \<in> set t. row_advances r s"
      by (simp_all add: epochs_order_def stop_ok_def)
    have later: "\<exists>s \<in> set t. so_owner_id s = w \<and> e \<le> so_epoch s"
      if "\<exists>r \<in> set (sd_epochs d). so_owner_id r = w \<and> e \<le> so_epoch r" for w e
      using that t(2) by (force simp: row_advances_def)
    with ok t show "stop_ok (d\<lparr>sd_epochs := t\<rparr>) \<and>
        (\<forall>r \<in> set (sd_epochs d). \<exists>s \<in> set (sd_epochs (d\<lparr>sd_epochs := t\<rparr>)). row_advances r s) \<and>
        set (sd_acks d) \<subseteq> set (sd_acks (d\<lparr>sd_epochs := t\<rparr>)) \<and>
        set (sd_bindings d) \<subseteq> set (sd_bindings (d\<lparr>sd_epochs := t\<rparr>))"
      by (simp add: stop_ok_def)
  qed
qed

lemma epochs_order_update:
  assumes "sql_update stop_row_ok stop_conflict w f t = Inr (rows, t')"
    and "\<And>r. w r \<Longrightarrow> row_advances r (f r)"
  shows "epochs_order t t'"
proof -
  from assms(1) have t': "t' = map (\<lambda>r. if w r then f r else r) t"
    by (auto simp: sql_update_def Let_def split: if_splits)
  have "\<exists>s \<in> set t'. row_advances r s" if "r \<in> set t" for r
    using that assms(2) [of r] row_advances_refl [of r]
    by (intro bexI [of _ "if w r then f r else r"]) (auto simp: t')
  with ste.table_ok_update [OF _ assms(1)] show ?thesis by (simp add: epochs_order_def)
qed

lemma epochs_order_insert:
  assumes "sql_insert_or_skip stop_row_ok a stop_conflict r t = Inr (x, t')"
  shows "epochs_order t t'"
proof -
  from assms have "set t \<subseteq> set t'" by (auto simp: sql_insert_or_skip_def split: if_splits)
  with ste.table_ok_insert_or_skip [OF _ assms] row_advances_refl show ?thesis
    unfolding epochs_order_def by blast
qed

lemma locked_rel: "tx_rel stop_order (locked_epoch owner)"
  unfolding locked_epoch_def
  by (rule tx_rel_on [where Q = epochs_order])
    (intro eo.rel_intros eo.rel_stmt, erule epochs_order_insert, rule stop_order_epochs)

lemma update_rel:
  assumes "\<And>r. w r \<Longrightarrow> row_advances r (f r)"
  shows "tx_rel stop_order (on_epochs (tx_stmt (sql_update stop_row_ok stop_conflict w f)))"
  by (rule tx_rel_on [where Q = epochs_order])
    (rule eo.rel_stmt, erule epochs_order_update [OF _ assms], assumption, rule stop_order_epochs)

lemmas stop_row_updates = engage_row_def resume_row_def bump_revision_def

lemma update_rels:
  "tx_rel stop_order (on_epochs (tx_stmt (sql_update stop_row_ok stop_conflict
     (\<lambda>r. so_owner_id r = owner \<and> so_revision r = revision \<and> \<not> so_engaged r) (engage_row at actor reason))))"
  "tx_rel stop_order (on_epochs (tx_stmt (sql_update stop_row_ok stop_conflict
     (\<lambda>r. so_owner_id r = owner \<and> so_revision r = revision \<and> so_epoch r = epoch \<and> so_engaged r)
     (resume_row at))))"
  "tx_rel stop_order (on_epochs (tx_stmt (sql_update stop_row_ok stop_conflict
     (active_epoch owner revision epoch) (bump_revision at))))"
  by (rule update_rel, simp add: row_advances_def stop_row_updates active_epoch_def)+

lemmas sto_intros = sto.rel_intros sto.rel_savepoint locked_rel update_rels

lemma insert_ack_order:
  assumes "insert_ack_sql revision a d = Inr (x, d')"
    and "length (acks_of (pa_owner_id a) (pa_epoch a) (sd_acks d)) < 64"
  shows "stop_order d d'"
proof (cases x)
  case None
  with assms(1) have "d' = d" by (auto simp: insert_ack_sql_def split: if_splits sum.splits)
  then show ?thesis by (simp add: sto.order_refl)
next
  case (Some b)
  with assms(1) obtain t where ins: "sql_insert peer_ack_ok peer_ack_conflict a (sd_acks d) = Inr (a, t)"
    and d': "d' = d\<lparr>sd_acks := t\<rparr>"
    and act: "\<exists>r \<in> set (sd_epochs d). active_epoch (pa_owner_id a) revision (pa_epoch a) r"
    by (auto simp: insert_ack_sql_def sql_insert_def split: if_splits)
  from act have own: "\<exists>r \<in> set (sd_epochs d). so_owner_id r = pa_owner_id a \<and> pa_epoch a \<le> so_epoch r"
    by (force simp: active_epoch_def)
  from ins have t: "t = sd_acks d @ [a]" by (auto simp: sql_insert_def split: if_splits)
  have "length (acks_of w e t) \<le> 64" if "stop_ok d" for w e
    using that assms(2) by (auto simp: t stop_ok_def)
  with sta.table_ok_insert [OF _ ins] own show ?thesis
    unfolding stop_order_def stop_ok_def d' t
    using row_advances_refl by (auto simp: ball_Un)
qed

lemma insert_binding_order:
  assumes "insert_binding_sql b d = Inr (x, d')"
  shows "stop_order d d'"
proof (cases x)
  case None
  with assms(1) have "d' = d" by (auto simp: insert_binding_sql_def split: if_splits sum.splits)
  then show ?thesis by (simp add: sto.order_refl)
next
  case (Some c)
  with assms(1) obtain t where ins: "sql_insert op_binding_ok op_binding_conflict b (sd_bindings d) = Inr (b, t)"
    and d': "d' = d\<lparr>sd_bindings := t\<rparr>"
    and act: "\<exists>r \<in> set (sd_epochs d). so_owner_id r = op_owner_id b \<and> so_epoch r = op_epoch b \<and> \<not> so_engaged r"
    by (auto simp: insert_binding_sql_def sql_insert_def split: if_splits)
  from act have own: "\<exists>r \<in> set (sd_epochs d). so_owner_id r = op_owner_id b \<and> op_epoch b \<le> so_epoch r"
    by force
  from ins have t: "t = sd_bindings d @ [b]" by (auto simp: sql_insert_def split: if_splits)
  with stb.table_ok_insert [OF _ ins] own show ?thesis
    unfolding stop_order_def stop_ok_def d' t
    using row_advances_refl by (auto simp: ball_Un)
qed

lemma list_acknowledgments_frame: "snd (list_acknowledgments coll owner epoch d) = d"
  by (auto simp: list_acknowledgments_def text_parameter_def tx_bind_def tx_simps split: sum.splits)

text \<open>A page shorter than its limit is complete.\<close>

lemma list_acknowledgments_count:
  assumes "list_acknowledgments coll owner epoch d = (Inr acks, d')"
  shows "length (acks_of owner epoch (sd_acks d)) = length acks"
proof -
  from assms have "length acks \<le> 64"
    and "acks = sql_page (\<lambda>a. pa_owner_id a = owner \<and> pa_epoch a = epoch)
      (\<lambda>a. (coll (pa_mesh_id a), coll (pa_peer_id a))) 65 (sd_acks d)"
    by (auto simp: list_acknowledgments_def text_parameter_def tx_success stop_integer_def tx_simps split: if_splits)
  then show ?thesis by (auto simp: sql_page_def min_def split: if_splits)
qed

lemma acknowledge_block_rel:
  "tx_rel stop_order (acknowledge_block coll owner mesh peer epoch revision digest at)"
proof (rule tx_relI)
  fix d :: stop_db
  let ?a = "new_peer_ack owner epoch mesh peer digest at"
  let ?k = "\<lambda>inserted. tx_bind (on_epochs (tx_stmt (sql_update stop_row_ok stop_conflict
      (active_epoch owner revision epoch) (bump_revision at)))) (\<lambda>changed.
      case inserted of None \<Rightarrow> tx_raise (err StopEpochConflictError)
      | Some a \<Rightarrow> if changed = [] then tx_raise (err StopEpochConflictError) else tx_return a)"
  have tail: "stop_order d (snd (tx_bind (tx_stmt (insert_ack_sql revision ?a)) ?k d))"
    if "length (acks_of owner epoch (sd_acks d)) < 64"
  proof (rule sto.bind_point)
    show "stop_order d (snd (tx_stmt (insert_ack_sql revision ?a) d))"
      using insert_ack_order [of revision ?a d] that
      by (auto simp: tx_stmt_def new_peer_ack_def sto.order_refl split: sum.splits)
    show "stop_order t (snd (?k x t))" for x t
      using sto.rel_bind [OF update_rels(3), of "\<lambda>changed. case x of None \<Rightarrow> tx_raise (err StopEpochConflictError)
          | Some a \<Rightarrow> if changed = [] then tx_raise (err StopEpochConflictError) else tx_return a"]
      by (auto simp: tx_rel_def tx_simps sto.order_refl split: option.split)
  qed
  obtain ra d1 where acks: "list_acknowledgments coll owner epoch d = (ra, d1)" by fastforce
  with list_acknowledgments_frame [of coll owner epoch d] have d1: "d1 = d" by simp
  show "stop_order d (snd (acknowledge_block coll owner mesh peer epoch revision digest at d))"
    using tail list_acknowledgments_count [of coll owner epoch d] acks d1
    by (cases ra) (auto simp: acknowledge_block_def text_parameter_def tx_simps sto.order_refl split: option.split)
qed

lemma binding_rel: "tx_rel stop_order (tx_stmt (insert_binding_sql b))"
  by (rule sto.rel_stmt) (rule insert_binding_order)

lemma stop_rels:
  "tx_rel stop_order (get_stop owner for_update)"
  "tx_rel stop_order (engage owner revision reason actor moment)"
  "tx_rel stop_order (resume owner revision epoch moment)"
  "tx_rel stop_order (acknowledge coll owner mesh peer epoch revision digest moment)"
  "tx_rel stop_order (list_acknowledgments coll owner epoch)"
  "tx_rel stop_order (assert_running owner expected)"
  "tx_rel stop_order (bind_operation owner operation)"
  "tx_rel stop_order (assert_operation owner operation)"
  unfolding get_stop_def engage_def resume_def acknowledge_def list_acknowledgments_def
    assert_running_def bind_operation_def assert_operation_def text_parameter_def
  by (intro sto_intros acknowledge_block_rel binding_rel | simp add: sto.rel_pure split: list.split)+

text \<open>Every call of the repository, by any caller, returning or raising.\<close>

inductive stop_step :: "stop_db \<Rightarrow> stop_db \<Rightarrow> bool" where
  "get_stop owner for_update d = (r1, d') \<Longrightarrow> stop_step d d'"
| "engage owner revision reason actor moment d = (r2, d') \<Longrightarrow> stop_step d d'"
| "resume owner revision epoch moment d = (r3, d') \<Longrightarrow> stop_step d d'"
| "acknowledge coll owner mesh peer epoch revision digest moment d = (r4, d') \<Longrightarrow> stop_step d d'"
| "list_acknowledgments coll owner epoch d = (r5, d') \<Longrightarrow> stop_step d d'"
| "assert_running owner expected d = (r6, d') \<Longrightarrow> stop_step d d'"
| "bind_operation owner operation d = (r7, d') \<Longrightarrow> stop_step d d'"
| "assert_operation owner operation d = (r8, d') \<Longrightarrow> stop_step d d'"

lemma stop_step_order: "stop_step d d' \<Longrightarrow> stop_order d d'"
  by (induction rule: stop_step.induct) (erule tx_relD [OF stop_rels(1)] tx_relD [OF stop_rels(2)]
      tx_relD [OF stop_rels(3)] tx_relD [OF stop_rels(4)] tx_relD [OF stop_rels(5)]
      tx_relD [OF stop_rels(6)] tx_relD [OF stop_rels(7)] tx_relD [OF stop_rels(8)])+

lemma stop_run_order: "stop_step\<^sup>*\<^sup>* d d' \<Longrightarrow> stop_order d d'"
  by (induction rule: rtranclp_induct)
    (blast intro: sto.order_refl, blast intro: sto.order_trans stop_step_order)

subsection \<open>A stop ends the operations before it\<close>

lemma locked_row:
  assumes "locked_epoch owner d = (Inr r, d')"
  shows "r \<in> set (sd_epochs d')" "so_owner_id r = owner"
  using assms
  by (auto simp: locked_epoch_def tx_success dest: find_SomeD)

lemma locked_frame:
  "locked_epoch owner d = (x, d') \<Longrightarrow> sd_acks d' = sd_acks d \<and> sd_bindings d' = sd_bindings d"
  by (auto simp: locked_epoch_def tx_on_def split: prod.splits)

text \<open>Admission reads the row of the owner, which must be in the binding's epoch and running.\<close>

lemma admitted:
  assumes "stop_ok d" and "b \<in> set (sd_bindings d)" and "op_owner_id b = owner" "op_operation_id b = operation"
    and "assert_operation owner operation d = (Inr u, d') \<or> bind_operation owner operation d = (Inr e, d')"
  shows "\<exists>r \<in> set (sd_epochs d'). so_owner_id r = owner \<and> so_epoch r = op_epoch b \<and> \<not> so_engaged r"
proof -
  from assms(5) obtain r d1 where lock: "locked_epoch owner d = (Inr r, d1)" and run: "\<not> so_engaged r"
    and rest: "(case find_binding owner operation d1 of None \<Rightarrow> True | Some c \<Rightarrow> op_epoch c = so_epoch r)"
    and d': "sd_epochs d' = sd_epochs d1"
    by (fastforce simp: assert_operation_def bind_operation_def tx_success insert_binding_sql_def
        split: if_splits sum.splits option.splits)
  have "table_ok op_binding_ok op_binding_conflict (sd_bindings d1)"
    using assms(1) locked_frame [OF lock] by (simp add: stop_ok_def)
  moreover have "b \<in> set (sd_bindings d1)" using assms(2) locked_frame [OF lock] by simp
  ultimately have "find_binding owner operation d1 = Some b"
    using assms(3,4) by (intro stb.find_key) auto
  with rest run d' locked_row [OF lock] show ?thesis by auto
qed

lemma bound_row:
  assumes "bind_operation owner operation d = (Inr e, d')"
  shows "\<exists>b \<in> set (sd_bindings d'). op_owner_id b = owner \<and> op_operation_id b = operation \<and>
    (\<exists>r \<in> set (sd_epochs d'). so_owner_id r = owner \<and> \<not> so_engaged r \<and> so_epoch r = op_epoch b)"
proof -
  from assms obtain r d1 where lock: "locked_epoch owner d = (Inr r, d1)" and run: "\<not> so_engaged r"
    and rest: "(case find_binding owner operation d1 of
        Some b \<Rightarrow> op_epoch b = so_epoch r \<and> d' = d1
      | None \<Rightarrow> \<exists>x. insert_binding_sql \<lparr>op_owner_id = owner, op_operation_id = operation, op_epoch = so_epoch r\<rparr> d1
          = Inr (Some x, d'))"
    by (fastforce simp: bind_operation_def tx_success split: option.split)
  note row = locked_row [OF lock]
  show ?thesis
  proof (cases "find_binding owner operation d1")
    case None
    with rest row run show ?thesis
      by (auto simp: insert_binding_sql_def sql_insert_def split: if_splits)
  next
    case (Some b)
    then have "b \<in> set (sd_bindings d1)" "op_owner_id b = owner" "op_operation_id b = operation"
      by (auto simp: find_Some_iff)
    moreover from Some rest have "op_epoch b = so_epoch r" "d' = d1" by auto
    ultimately show ?thesis using row run by (intro bexI [of _ b] conjI bexI [of _ r]) simp_all
  qed
qed

lemma engage_cases:
  assumes "engage owner revision reason actor moment d = (Inr rec, d')"
  shows "(\<exists>r. locked_epoch owner d = (Inr r, d') \<and> so_engaged r) \<or>
    (\<exists>at q rows t. sql_update stop_row_ok stop_conflict
       (\<lambda>r. so_owner_id r = owner \<and> so_revision r = revision \<and> \<not> so_engaged r)
       (engage_row at actor reason) t = Inr (q # rows, sd_epochs d'))"
  using assms by (auto simp: engage_def tx_success stop_integer_def split: if_splits)

lemma engaged_row:
  assumes "engage owner revision reason actor moment d = (Inr rec, d')"
  shows "\<exists>r \<in> set (sd_epochs d'). so_owner_id r = owner \<and> so_engaged r"
  using engage_cases [OF assms]
proof (elim disjE exE conjE)
  fix r assume "locked_epoch owner d = (Inr r, d')" "so_engaged r"
  then show ?thesis using locked_row by blast
next
  fix at q rows t
  assume "sql_update stop_row_ok stop_conflict
       (\<lambda>r. so_owner_id r = owner \<and> so_revision r = revision \<and> \<not> so_engaged r)
       (engage_row at actor reason) t = Inr (q # rows, sd_epochs d')"
  from sql_update_returned [OF this] have "q \<in> set (sd_epochs d')" "so_owner_id q = owner" "so_engaged q"
    by (auto simp: engage_row_def)
  then show ?thesis by blast
qed

lemma epoch_row_unique:
  "stop_ok d \<Longrightarrow> r \<in> set (sd_epochs d) \<Longrightarrow> s \<in> set (sd_epochs d) \<Longrightarrow>
   so_owner_id r = so_owner_id s \<Longrightarrow> r = s"
  using ste.key_unique [of "sd_epochs d" r s] by (simp add: stop_ok_def)

text \<open>
  C6. A stop ends every operation admitted before it, for good. Once an operation has been bound
  for an owner and a stop of that owner is engaged afterwards, then whatever calls follow, a
  resume included, the operation is never admitted again and cannot be bound again.
\<close>

theorem stop_ends_bound_operations:
  assumes ok: "stop_ok d" and bound: "bind_operation owner operation d = (Inr e, d1)"
    and run1: "stop_step\<^sup>*\<^sup>* d1 d2" and stop: "engage owner revision reason actor moment d2 = (Inr rec, d3)"
    and run2: "stop_step\<^sup>*\<^sup>* d3 d4"
  shows "assert_operation owner operation d4 \<noteq> (Inr (), d5) \<and> bind_operation owner operation d4 \<noteq> (Inr e', d5)"
proof (rule ccontr)
  assume "\<not> ?thesis"
  then have adm: "assert_operation owner operation d4 = (Inr (), d5) \<or> bind_operation owner operation d4 = (Inr e', d5)"
    by blast
  obtain b r1 where b: "b \<in> set (sd_bindings d1)" "op_owner_id b = owner" "op_operation_id b = operation"
    and r1: "r1 \<in> set (sd_epochs d1)" "so_owner_id r1 = owner" "\<not> so_engaged r1" "so_epoch r1 = op_epoch b"
    using bound_row [OF bound] by blast
  obtain r3 where r3: "r3 \<in> set (sd_epochs d3)" "so_owner_id r3 = owner" "so_engaged r3"
    using engaged_row [OF stop] by blast
  have o1: "stop_order d1 d3"
    using stop_run_order [OF run1] tx_relD [OF stop_rels(2) stop] by (rule sto.order_trans)
  have o2: "stop_order d3 d5"
    using stop_run_order [OF run2] adm stop_rels(7,8) by (meson sto.order_trans tx_relD)
  have ok1: "stop_ok d1" using ok tx_relD [OF stop_rels(7) bound] by (simp add: stop_order_def)
  with o1 o2 have ok3: "stop_ok d3" and ok5: "stop_ok d5" by (simp_all add: stop_order_def)
  have later: "so_epoch r1 < so_epoch r3"
    using o1 ok1 r1 r3 epoch_row_unique [OF ok3 _ r3(1)]
    unfolding stop_order_def row_advances_def by metis
  have ok4: "stop_ok d4" and b4: "b \<in> set (sd_bindings d4)"
    using stop_run_order [OF run2] o1 ok1 ok3 b(1) unfolding stop_order_def by blast+
  from admitted [OF ok4 b4 b(2,3) adm] obtain r5 where
    r5: "r5 \<in> set (sd_epochs d5)" "so_owner_id r5 = owner" "so_epoch r5 = op_epoch b" by blast
  have "so_epoch r3 \<le> so_epoch r5"
    using o2 ok3 r3 r5 epoch_row_unique [OF ok5 _ r5(1)]
    unfolding stop_order_def row_advances_def by metis
  with later r1(4) r5(3) show False by simp
qed

text \<open>Binding, stop and a resume; the binding stays dead.\<close>

definition sample_stop :: stop_db where
  "sample_stop = \<lparr>sd_epochs = [], sd_acks = [], sd_bindings = []\<rparr>"

definition sample_bound :: stop_db where
  "sample_bound = \<lparr>sd_epochs = [new_stop_row ''ann''], sd_acks = [],
     sd_bindings = [\<lparr>op_owner_id = ''ann'', op_operation_id = ''op'', op_epoch = 0\<rparr>]\<rparr>"

definition sample_stopped :: stop_db where
  "sample_stopped = sample_bound\<lparr>sd_epochs := [engage_row 5 ''ops'' ''halt'' (new_stop_row ''ann'')]\<rparr>"

definition sample_resumed :: stop_db where
  "sample_resumed = sample_bound\<lparr>sd_epochs :=
     [resume_row 6 (engage_row 5 ''ops'' ''halt'' (new_stop_row ''ann''))]\<rparr>"

lemma sample_stop_calls:
  "bind_operation ''ann'' ''op'' sample_stop = (Inr 0, sample_bound)"
  "snd (engage ''ann'' 0 ''halt'' ''ops'' (utc 5) sample_bound) = sample_stopped"
  "fst (engage ''ann'' 0 ''halt'' ''ops'' (utc 5) sample_bound) =
     Inr (stop_record (engage_row 5 ''ops'' ''halt'' (new_stop_row ''ann'')))"
  "snd (resume ''ann'' 1 1 (utc 6) sample_stopped) = sample_resumed"
  by code_simp+

lemma sample_stop_ok: "stop_ok sample_stop"
  by (simp add: stop_ok_def sample_stop_def table_ok_def)

theorem stop_ends_bound_operations_witness:
  "\<forall>d5 e'. assert_operation ''ann'' ''op'' sample_resumed \<noteq> (Inr (), d5) \<and>
     bind_operation ''ann'' ''op'' sample_resumed \<noteq> (Inr e', d5)"
proof (intro allI)
  fix d5 e'
  have eng: "engage ''ann'' 0 ''halt'' ''ops'' (utc 5) sample_bound =
      (Inr (stop_record (engage_row 5 ''ops'' ''halt'' (new_stop_row ''ann''))), sample_stopped)"
    using sample_stop_calls(2,3) by (metis prod.collapse)
  have "stop_step sample_stopped sample_resumed"
    using sample_stop_calls(4) stop_step.intros(3) [of "''ann''" 1 1 "utc 6" sample_stopped]
    by (metis prod.collapse)
  then have "stop_step\<^sup>*\<^sup>* sample_stopped sample_resumed" by blast
  from stop_ends_bound_operations [OF sample_stop_ok sample_stop_calls(1) rtranclp.rtrancl_refl eng this]
  show "assert_operation ''ann'' ''op'' sample_resumed \<noteq> (Inr (), d5) \<and>
     bind_operation ''ann'' ''op'' sample_resumed \<noteq> (Inr e', d5)" .
qed

subsection \<open>Owners are isolated\<close>

definition others_kept :: "string \<Rightarrow> stop_db \<Rightarrow> stop_db \<Rightarrow> bool" where
  "others_kept owner d d' \<longleftrightarrow>
     filter (\<lambda>r. so_owner_id r \<noteq> owner) (sd_epochs d') = filter (\<lambda>r. so_owner_id r \<noteq> owner) (sd_epochs d) \<and>
     filter (\<lambda>a. pa_owner_id a \<noteq> owner) (sd_acks d') = filter (\<lambda>a. pa_owner_id a \<noteq> owner) (sd_acks d) \<and>
     filter (\<lambda>b. op_owner_id b \<noteq> owner) (sd_bindings d') = filter (\<lambda>b. op_owner_id b \<noteq> owner) (sd_bindings d)"

interpretation ok_others: step_order "others_kept owner" for owner
  by unfold_locales (auto simp: others_kept_def)

lemma filter_update_others:
  assumes "sql_update ok conf w f t = Inr (rows, t')"
    and "\<And>r. w r \<Longrightarrow> key r = k" and "\<And>r. key (f r) = key r"
  shows "filter (\<lambda>r. key r \<noteq> k) t' = filter (\<lambda>r. key r \<noteq> k) t"
proof -
  from assms(1) have "t' = map (\<lambda>r. if w r then f r else r) t"
    by (auto simp: sql_update_def Let_def split: if_splits)
  moreover have "filter (\<lambda>r. key r \<noteq> k) (map (\<lambda>r. if w r then f r else r) t) = filter (\<lambda>r. key r \<noteq> k) t"
    using assms(2,3) by (induction t) auto
  ultimately show ?thesis by simp
qed

lemma on_epochs_others:
  assumes "\<And>t x t'. m t = (x, t') \<Longrightarrow>
      filter (\<lambda>r. so_owner_id r \<noteq> owner) t' = filter (\<lambda>r. so_owner_id r \<noteq> owner) t"
  shows "tx_rel (others_kept owner) (on_epochs m)"
  using assms by (auto simp: tx_rel_def tx_on_def others_kept_def split: prod.split)

lemma locked_others: "tx_rel (others_kept owner) (locked_epoch owner)"
  unfolding locked_epoch_def
  by (rule on_epochs_others)
    (auto simp: tx_bind_def tx_stmt_def tx_simps sql_insert_or_skip_def new_stop_row_def
      split: if_splits option.splits)

lemma update_others:
  assumes "\<And>r. w r \<Longrightarrow> so_owner_id r = owner" and "\<And>r. so_owner_id (f r) = so_owner_id r"
  shows "tx_rel (others_kept owner) (on_epochs (tx_stmt (sql_update stop_row_ok stop_conflict w f)))"
  by (rule on_epochs_others)
    (auto simp: tx_stmt_def split: sum.splits dest: filter_update_others [where key = so_owner_id, OF _ assms])

lemma insert_others:
  "pa_owner_id a = owner \<Longrightarrow> tx_rel (others_kept owner) (tx_stmt (insert_ack_sql revision a))"
  "op_owner_id b = owner \<Longrightarrow> tx_rel (others_kept owner) (tx_stmt (insert_binding_sql b))"
  by (auto simp: tx_rel_def tx_stmt_def insert_ack_sql_def insert_binding_sql_def sql_insert_def
      others_kept_def)

lemmas others_intros = ok_others.rel_bind_lift ok_others.rel_bind ok_others.rel_pure ok_others.rel_savepoint
  ok_others.rel_option ok_others.rel_if locked_others update_others insert_others

lemma stop_others:
  "tx_rel (others_kept owner) (get_stop owner for_update)"
  "tx_rel (others_kept owner) (engage owner revision reason actor moment)"
  "tx_rel (others_kept owner) (resume owner revision epoch moment)"
  "tx_rel (others_kept owner) (list_acknowledgments coll owner epoch)"
  "tx_rel (others_kept owner) (assert_running owner expected)"
  "tx_rel (others_kept owner) (bind_operation owner operation)"
  "tx_rel (others_kept owner) (assert_operation owner operation)"
  unfolding get_stop_def engage_def resume_def list_acknowledgments_def
    assert_running_def bind_operation_def assert_operation_def text_parameter_def
  by (auto intro!: others_intros simp: stop_row_updates split: list.split)

lemma acknowledge_others:
  "tx_rel (others_kept owner) (acknowledge coll owner mesh peer epoch revision digest moment)"
  unfolding acknowledge_def acknowledge_block_def text_parameter_def
  by (auto intro!: others_intros stop_others(4) simp: stop_row_updates new_peer_ack_def active_epoch_def
      split: list.split)

text \<open>
  C34. Owners are isolated. Whatever a call of the repository does for one owner, and whether it
  returns or raises, the stop rows, acknowledgments and operation bindings of every other owner
  stay as they are.
\<close>

theorem stop_owner_isolation:
  "others_kept owner d (snd (engage owner revision reason actor moment d)) \<and>
   others_kept owner d (snd (resume owner revision epoch moment d)) \<and>
   others_kept owner d (snd (acknowledge coll owner mesh peer epoch revision digest moment d)) \<and>
   others_kept owner d (snd (bind_operation owner operation d)) \<and>
   others_kept owner d (snd (assert_operation owner operation d)) \<and>
   others_kept owner d (snd (assert_running owner expected d)) \<and>
   others_kept owner d (snd (get_stop owner for_update d))"
  using stop_others acknowledge_others by (simp add: tx_rel_def)

subsection \<open>The constraints are never tripped\<close>

lemma required_nonempty: "py_strip s \<noteq> [] \<Longrightarrow> s \<noteq> []"
  by (auto simp: py_strip_empty_iff)

lemma new_stop_row_ok:
  "py_strip owner \<noteq> [] \<Longrightarrow> length owner \<le> 512 \<Longrightarrow> pg_text owner \<Longrightarrow> stop_row_ok (new_stop_row owner)"
  by (auto simp: stop_row_ok_def new_stop_row_def text_between_def MAX_BIGINT_def Suc_le_eq
      dest: required_nonempty)

lemma locked_total:
  assumes "stop_ok d" and "py_strip owner \<noteq> []" "length owner \<le> 512" "pg_text owner"
  obtains r d' where "locked_epoch owner d = (Inr r, d')" and "stop_ok d'"
    and "r \<in> set (sd_epochs d')" and "so_owner_id r = owner"
proof -
  obtain x t where ins: "sql_insert_or_skip stop_row_ok stop_conflict stop_conflict (new_stop_row owner)
      (sd_epochs d) = Inr (x, t)" and own: "\<exists>r \<in> set t. so_owner_id r = owner"
  proof (cases "\<exists>s \<in> set (sd_epochs d). stop_conflict (new_stop_row owner) s")
    case True
    with new_stop_row_ok [OF assms(2-4)] show ?thesis
      by (intro that [of None "sd_epochs d"])
        (auto simp: sql_insert_or_skip_def stop_conflict_def new_stop_row_def)
  next
    case False
    with new_stop_row_ok [OF assms(2-4)] show ?thesis
      by (intro that [of "Some (new_stop_row owner)" "sd_epochs d @ [new_stop_row owner]"])
        (auto simp: sql_insert_or_skip_def new_stop_row_def)
  qed
  from own obtain r where "List.find (\<lambda>r. so_owner_id r = owner) t = Some r"
    by (metis (mono_tags, lifting) find_None_iff option.exhaust)
  with ins have lock: "locked_epoch owner d = (Inr r, d\<lparr>sd_epochs := t\<rparr>)"
    by (simp add: locked_epoch_def tx_on_def tx_bind_stmt tx_simps)
  from tx_relD [OF locked_rel lock] assms(1) have "stop_ok (d\<lparr>sd_epochs := t\<rparr>)"
    by (simp add: stop_order_def)
  from that [OF lock this] locked_row [OF lock] show ?thesis by simp
qed

lemma update_total:
  assumes ok: "stop_ok d" and r: "r \<in> set (sd_epochs d)"
    and w: "\<And>s. w s \<Longrightarrow> so_owner_id s = so_owner_id r" and f: "\<And>s. so_owner_id (f s) = so_owner_id s"
    and good: "w r \<Longrightarrow> stop_row_ok (f r)"
  shows "\<exists>rows t. sql_update stop_row_ok stop_conflict w f (sd_epochs d) = Inr (rows, t)"
proof -
  have "stop_row_ok (f s)" if "s \<in> set (sd_epochs d)" "w s" for s
    using epoch_row_unique [OF ok that(1) r w [OF that(2)]] that good by simp
  moreover have "table_ok stop_row_ok stop_conflict (sd_epochs d)" using ok by (simp add: stop_ok_def)
  ultimately have "sql_update stop_row_ok stop_conflict w f (sd_epochs d) =
      Inr (map f (filter w (sd_epochs d)), map (\<lambda>s. if w s then f s else s) (sd_epochs d))"
    by (intro ste.update_succeeds) (auto simp: stop_conflict_def f split: if_splits)
  then show ?thesis by blast
qed

lemma transition_time_Inr:
  "transition_time r at = Inr u \<longleftrightarrow> (\<forall>x. so_updated_at r = Some x \<longrightarrow> x \<le> at)"
  by (auto simp: transition_time_def split: option.splits)

lemma engage_row_ok:
  assumes "stop_row_ok r" and "so_epoch r \<noteq> MAX_BIGINT" "so_revision r \<noteq> MAX_BIGINT"
    and "py_strip actor \<noteq> []" "length actor \<le> 512" "pg_text actor" "length reason \<le> 280" "pg_text reason"
  shows "stop_row_ok (engage_row at actor reason r)"
  using assms required_nonempty [of actor]
  by (auto simp: stop_row_ok_def engage_row_def text_between_def Suc_le_eq)

lemma engaged_epoch: "stop_row_ok r \<Longrightarrow> so_engaged r \<Longrightarrow> 1 \<le> so_epoch r"
  by (auto simp: stop_row_ok_def)

lemma later_row_ok:
  assumes "stop_row_ok r" and "so_engaged r" and "so_revision r \<noteq> MAX_BIGINT"
    and "transition_time r at = Inr u"
  shows "stop_row_ok (resume_row at r)" and "stop_row_ok (bump_revision at r)"
  using assms
  by (auto simp: stop_row_ok_def resume_row_def bump_revision_def transition_time_Inr
      split: option.splits prod.splits)

lemma stop_fence_Inr: "stop_fence r revision = Inr u \<longleftrightarrow> so_revision r = revision"
  by (simp add: stop_fence_def)

lemma row_ok_in: "stop_ok d \<Longrightarrow> r \<in> set (sd_epochs d) \<Longrightarrow> stop_row_ok r"
  by (simp add: stop_ok_def table_ok_def)

text \<open>The error of a call that is one of the plane's own.\<close>

fun typed_error :: "plane_error \<Rightarrow> bool" where
  "typed_error (Raised _ _) = True"
| "typed_error _ = False"

fun typed_result :: "'a res \<Rightarrow> bool" where
  "typed_result (Inl e) = typed_error e"
| "typed_result (Inr _) = True"

lemma typed_Inl:
  "required_id n s = Inl e \<Longrightarrow> typed_error e" "stop_integer i = Inl e \<Longrightarrow> typed_error e"
  "bounded_text n b s = Inl e \<Longrightarrow> typed_error e" "stop_time t = Inl e \<Longrightarrow> typed_error e"
  "stop_fence r i = Inl e \<Longrightarrow> typed_error e" "transition_time r x = Inl e \<Longrightarrow> typed_error e"
  by (auto simp: required_id_def stop_integer_def bounded_text_def stop_fence_def transition_time_def
      split: option.splits if_splits) (cases t; auto split: if_splits)

lemma stop_integer_Inr [simp]: "stop_integer n = Inr m \<longleftrightarrow> m = n \<and> 0 \<le> n \<and> n \<le> MAX_BIGINT"
  by (auto simp: stop_integer_def)

lemma locked_never_fails:
  assumes "locked_epoch owner d = (Inl e, d')" and "stop_ok d" and "pg_text owner"
    and "py_strip owner \<noteq> []" "length owner \<le> 512"
  shows False
  using locked_total [OF assms(2,4,5,3)] assms(1) by (metis Inl_Inr_False fst_conv)

lemma locked_ok:
  assumes "locked_epoch owner d = (Inr r, d')" and "stop_ok d"
  shows "stop_ok d'" "r \<in> set (sd_epochs d')" "so_owner_id r = owner" "stop_row_ok r"
  using tx_relD [OF locked_rel assms(1)] assms(2) locked_row [OF assms(1)]
  by (auto simp: stop_order_def dest: row_ok_in)

lemma engage_never_rejected:
  assumes "sql_update stop_row_ok stop_conflict
      (\<lambda>s. so_owner_id s = owner \<and> so_revision s = revision \<and> \<not> so_engaged s)
      (engage_row at actor reason) (sd_epochs d') = Inl x"
    and "locked_epoch owner d = (Inr r, d')" "stop_ok d" "stop_fence r revision = Inr u"
    and "so_epoch r \<noteq> MAX_BIGINT" "revision \<noteq> MAX_BIGINT"
    and "py_strip actor \<noteq> []" "length actor \<le> 512" "pg_text actor" "length reason \<le> 280" "pg_text reason"
  shows False
proof -
  note l = locked_ok [OF assms(2,3)]
  have "stop_row_ok (engage_row at actor reason r)"
    using l assms(4-) by (intro engage_row_ok) (auto simp: stop_fence_Inr)
  with update_total [OF l(1,2), of "\<lambda>s. so_owner_id s = owner \<and> so_revision s = revision \<and> \<not> so_engaged s"
      "engage_row at actor reason"] l(3) assms(1)
  show False by (auto simp: engage_row_def)
qed

lemma resume_never_rejected:
  assumes "sql_update stop_row_ok stop_conflict
      (\<lambda>s. so_owner_id s = owner \<and> so_revision s = revision \<and> so_epoch s = epoch \<and> so_engaged s)
      (resume_row at) (sd_epochs d') = Inl x"
    and "locked_epoch owner d = (Inr r, d')" "stop_ok d" "stop_fence r revision = Inr u"
    and "so_engaged r" "transition_time r at = Inr u'" "revision \<noteq> MAX_BIGINT"
  shows False
proof -
  note l = locked_ok [OF assms(2,3)]
  have "stop_row_ok (resume_row at r)"
    using l assms(4-) by (intro later_row_ok) (auto simp: stop_fence_Inr)
  with update_total [OF l(1,2), of "\<lambda>s. so_owner_id s = owner \<and> so_revision s = revision \<and>
      so_epoch s = epoch \<and> so_engaged s" "resume_row at"] l(3) assms(1)
  show False by (auto simp: resume_row_def)
qed

lemma engage_typed:
  assumes "engage owner revision reason actor moment d = (Inl e, d')" and "stop_ok d"
    and "pg_text owner" "pg_text actor" "pg_text reason"
  shows "typed_error e"
  using assms unfolding engage_def
  by (auto simp: tx_failure tx_on_failure tx_success split: if_splits
      dest: typed_Inl locked_never_fails engage_never_rejected)

lemma resume_typed:
  assumes "resume owner revision epoch moment d = (Inl e, d')" and "stop_ok d" and "pg_text owner"
  shows "typed_error e"
  using assms unfolding resume_def
  by (auto simp: tx_failure tx_on_failure tx_success split: if_splits
      dest: typed_Inl locked_never_fails resume_never_rejected)

lemma bind_typed:
  assumes "bind_operation owner operation d = (Inl e, d')" and "stop_ok d" and "pg_text owner"
  shows "typed_error e"
proof -
  have False if lock: "locked_epoch owner d = (Inr r, d1)" and none: "find_binding owner operation d1 = None"
    and ins: "insert_binding_sql \<lparr>op_owner_id = owner, op_operation_id = operation, op_epoch = so_epoch r\<rparr> d1 = Inl x"
    for r d1 x
  proof -
    from locked_ok(4) [OF lock assms(2)] have "0 \<le> so_epoch r" "so_epoch r \<le> MAX_BIGINT"
      by (auto simp: stop_row_ok_def)
    with ins none show False
      by (auto simp: insert_binding_sql_def sql_insert_def op_binding_ok_def op_binding_conflict_def
          find_None_iff split: if_splits)
  qed
  with assms show ?thesis
    unfolding bind_operation_def
    by (auto simp: tx_failure tx_success dest: typed_Inl locked_never_fails)
qed

lemma list_acknowledgments_iff:
  "list_acknowledgments coll owner epoch d = (x, d') \<longleftrightarrow>
     d' = d \<and> fst (list_acknowledgments coll owner epoch d) = x"
  using list_acknowledgments_frame [of coll owner epoch d]
  by (cases "list_acknowledgments coll owner epoch d") auto

lemma list_typed:
  assumes "pg_text owner" and "fst (list_acknowledgments coll owner epoch d) = Inl e"
  shows "typed_error e"
proof -
  from assms(2) have "list_acknowledgments coll owner epoch d = (Inl e, d)"
    by (simp add: list_acknowledgments_iff)
  with assms(1) show ?thesis
    by (auto simp: list_acknowledgments_def text_parameter_def tx_failure tx_success dest: typed_Inl)
qed

lemma acknowledge_block_typed:
  assumes res: "acknowledge_block coll owner mesh peer epoch revision digest at d = (Inl e, d')"
    and ok: "stop_ok d" and r: "r \<in> set (sd_epochs d)" "active_epoch owner revision epoch r"
      "transition_time r at = Inr u"
    and arg: "text_between 1 64 mesh" "text_between 1 64 peer" "lower_hex 64 digest" and owner: "pg_text owner"
  shows "typed_error e"
proof -
  let ?a = "new_peer_ack owner epoch mesh peer digest at"
  have row: "stop_row_ok r" using ok r(1) by (rule row_ok_in)
  have good: "peer_ack_ok ?a"
    using engaged_epoch [OF row] row r(2) arg
    by (auto simp: peer_ack_ok_def new_peer_ack_def active_epoch_def stop_row_ok_def)
  have ins: "insert_ack_sql revision ?a d \<noteq> Inl x"
    if "List.find (\<lambda>a. peer_ack_key a = (owner, epoch, mesh, peer)) (sd_acks d) = None" for x
    using that good
    by (auto simp: insert_ack_sql_def sql_insert_def peer_ack_conflict_def find_None_iff
        peer_ack_key_def new_peer_ack_def split: if_splits)
  have upd: "sql_update stop_row_ok stop_conflict (active_epoch owner revision epoch) (bump_revision at)
      (sd_epochs d1) \<noteq> Inl x" if "insert_ack_sql revision ?a d = Inr (y, d1)" "revision \<noteq> MAX_BIGINT" for x y d1
  proof -
    from that(1) have "sd_epochs d1 = sd_epochs d"
      by (auto simp: insert_ack_sql_def split: if_splits sum.splits)
    moreover have "stop_row_ok (bump_revision at r)"
      using row r that(2) by (intro later_row_ok) (auto simp: active_epoch_def)
    ultimately show ?thesis
      using update_total [OF ok r(1), of "active_epoch owner revision epoch" "bump_revision at"] r(2)
      by (auto simp: active_epoch_def bump_revision_def)
  qed
  have "pg_text mesh" "pg_text peer" using arg by (auto simp: text_between_def)
  with res ins upd show ?thesis
    unfolding acknowledge_block_def text_parameter_def
    by (auto simp: tx_failure tx_on_failure tx_success list_acknowledgments_iff dest: list_typed [OF owner])
qed

lemma acknowledge_typed:
  assumes "acknowledge coll owner mesh peer epoch revision digest moment d = (Inl e, d')" and "stop_ok d"
    and "pg_text owner" "pg_text mesh" "pg_text peer"
  shows "typed_error e"
proof -
  have "typed_error e"
    if lock: "locked_epoch owner d = (Inr r, d1)" and "stop_fence r revision = Inr ()" "so_engaged r"
      "so_epoch r = epoch" and time: "transition_time r at = Inr ()"
      and block: "acknowledge_block coll owner mesh peer epoch revision digest at d1 = (Inl e, d2)"
      and arg: "py_strip mesh \<noteq> []" "length mesh \<le> 64" "py_strip peer \<noteq> []" "length peer \<le> 64"
        "lower_hex 64 digest"
    for r d1 at d2
  proof -
    note l = locked_ok [OF lock assms(2)]
    have "active_epoch owner revision epoch r" using that l by (simp add: active_epoch_def stop_fence_Inr)
    moreover have "text_between 1 64 mesh" "text_between 1 64 peer"
      using arg assms(4,5) by (auto simp: text_between_def Suc_le_eq dest: required_nonempty)
    ultimately show ?thesis
      using acknowledge_block_typed [OF block l(1,2) _ time _ _ arg(5) assms(3)] by blast
  qed
  with assms show ?thesis
    unfolding acknowledge_def
    by (auto simp: tx_failure tx_success dest: typed_Inl locked_never_fails)
qed

lemma assert_running_typed:
  assumes "assert_running owner expected d = (Inl e, d')" and "stop_ok d" and "pg_text owner"
  shows "typed_error e"
  using assms unfolding assert_running_def
  by (auto simp: tx_failure tx_success split: option.splits sum.splits dest: typed_Inl locked_never_fails)

lemma assert_operation_typed:
  assumes "assert_operation owner operation d = (Inl e, d')" and "stop_ok d" and "pg_text owner"
  shows "typed_error e"
  using assms unfolding assert_operation_def
  by (auto simp: tx_failure tx_success dest: typed_Inl locked_never_fails)

lemma get_stop_typed:
  assumes "get_stop owner for_update d = (Inl e, d')" and "stop_ok d" and "pg_text owner"
  shows "typed_error e"
  using assms unfolding get_stop_def text_parameter_def
  by (auto simp: tx_failure tx_success split: if_splits dest: typed_Inl locked_never_fails)

lemma typed_call:
  assumes "\<And>e s. m d = (Inl e, s) \<Longrightarrow> typed_error e"
  shows "typed_result (fst (m d))"
  using assms by (cases "m d"; cases "fst (m d)") auto

text \<open>
  C31. The stop-epoch repository never runs into a constraint of its tables. On tables in order, the
  only failure that is not an error of the plane is the driver's refusal of a text argument that
  holds a NUL character: for each call whose text arguments hold none, every failure is one of the plane's
  own errors, never a rejected row, a duplicate key, a broken reference or an overflowing counter.
  Every call, failing or not and whatever its arguments, leaves the tables in order, with at most 64
  acknowledgments per epoch.
\<close>

theorem stop_calls_stay_in_constraints:
  assumes ok: "stop_ok d"
  shows "(pg_text owner \<and> pg_text actor \<and> pg_text reason \<longrightarrow>
       typed_result (fst (engage owner revision reason actor moment d))) \<and>
    (pg_text owner \<and> pg_text mesh \<and> pg_text peer \<longrightarrow>
       typed_result (fst (acknowledge coll owner mesh peer epoch revision digest moment d))) \<and>
    (pg_text owner \<longrightarrow>
       typed_result (fst (resume owner revision epoch moment d)) \<and>
       typed_result (fst (bind_operation owner operation d)) \<and>
       typed_result (fst (assert_running owner expected d)) \<and>
       typed_result (fst (assert_operation owner operation d)) \<and>
       typed_result (fst (list_acknowledgments coll owner epoch d)) \<and>
       typed_result (fst (get_stop owner for_update d))) \<and>
    (\<forall>d'. stop_step d d' \<longrightarrow> stop_ok d')"
proof (intro conjI impI allI)
  show "stop_ok d'" if "stop_step d d'" for d'
    using stop_step_order [OF that] ok by (simp add: stop_order_def)
  show "typed_result (fst (engage owner revision reason actor moment d))"
    if "pg_text owner \<and> pg_text actor \<and> pg_text reason"
    by (rule typed_call) (use engage_typed ok that in blast)
  show "typed_result (fst (acknowledge coll owner mesh peer epoch revision digest moment d))"
    if "pg_text owner \<and> pg_text mesh \<and> pg_text peer"
    by (rule typed_call) (use acknowledge_typed ok that in blast)
  assume owner: "pg_text owner"
  show "typed_result (fst (resume owner revision epoch moment d))"
    by (rule typed_call) (use resume_typed ok owner in blast)
  show "typed_result (fst (bind_operation owner operation d))"
    by (rule typed_call) (use bind_typed ok owner in blast)
  show "typed_result (fst (assert_running owner expected d))"
    by (rule typed_call) (use assert_running_typed ok owner in blast)
  show "typed_result (fst (assert_operation owner operation d))"
    by (rule typed_call) (use assert_operation_typed ok owner in blast)
  show "typed_result (fst (list_acknowledgments coll owner epoch d))"
    by (rule typed_call) (use list_typed owner in \<open>auto simp: list_acknowledgments_iff\<close>)
  show "typed_result (fst (get_stop owner for_update d))"
    by (rule typed_call) (use get_stop_typed ok owner in blast)
qed

theorem stop_calls_stay_in_constraints_witness:
  "typed_result (fst (engage ''ann'' 0 ''halt'' ''ops'' (utc 5) sample_bound)) \<and>
   stop_ok (snd (engage ''ann'' 0 ''halt'' ''ops'' (utc 5) sample_bound))"
proof -
  have "stop_ok sample_bound"
    using tx_relD [OF stop_rels(7) sample_stop_calls(1)] sample_stop_ok by (simp add: stop_order_def)
  moreover have "pg_text ''ann''" "pg_text ''ops''" "pg_text ''halt''" by code_simp+
  moreover have "stop_step sample_bound (snd (engage ''ann'' 0 ''halt'' ''ops'' (utc 5) sample_bound))"
    by (rule stop_step.intros(2) [OF prod.collapse [symmetric]])
  ultimately show ?thesis
    using stop_calls_stay_in_constraints by blast
qed

end
