(* ===== verification/Calendar.thy ===== *)
theory Calendar
  imports Prelude
begin

text \<open>
  Decimal text and the ISO 8601 text of an instant: \<open>str(int)\<close>, zero-padded fields, and
  \<open>datetime.isoformat\<close> of a UTC \<open>datetime\<close> over the proleptic Gregorian calendar. Every text
  determines the value it was made from.
\<close>

subsection \<open>Decimal text\<close>

definition digit_char :: "nat \<Rightarrow> char" where
  "digit_char n = digit_chars ! (n mod 10)"

fun nat_text :: "nat \<Rightarrow> string" where
  "nat_text n = (if n < 10 then [digit_char n] else nat_text (n div 10) @ [digit_char n])"

declare nat_text.simps [simp del]

definition int_text :: "int \<Rightarrow> string" where
  "int_text i = (if i < 0 then CHR ''-'' # nat_text (nat (- i)) else nat_text (nat i))"

fun pad_text :: "nat \<Rightarrow> nat \<Rightarrow> string" where
  "pad_text 0 n = []"
| "pad_text (Suc k) n = pad_text k (n div 10) @ [digit_char n]"

definition digit_value :: "char \<Rightarrow> nat" where
  "digit_value c = of_char c - 48"

definition text_value :: "string \<Rightarrow> nat" where
  "text_value s = foldl (\<lambda>a c. 10 * a + digit_value c) 0 s"

lemma digit_char_value [simp]: "digit_value (digit_char n) = n mod 10"
proof -
  have "\<forall>m \<in> set [0..<10]. digit_value (digit_chars ! m) = m" by code_simp
  moreover have "n mod 10 \<in> set [0..<10]" by simp
  ultimately show ?thesis unfolding digit_char_def by blast
qed

lemma digit_char_in: "digit_char n \<in> set digit_chars"
proof -
  have "n mod 10 < length digit_chars" by (simp add: digit_chars_def)
  then show ?thesis unfolding digit_char_def by (rule nth_mem)
qed

lemma text_value_snoc [simp]: "text_value (s @ [c]) = 10 * text_value s + digit_value c"
  by (simp add: text_value_def)

lemma text_value_nat_text [simp]: "text_value (nat_text n) = n"
proof (induction n rule: nat_text.induct)
  case (1 n)
  show ?case
  proof (cases "n < 10")
    case True
    have "text_value [digit_char n] = n" using True text_value_snoc [of "[]"] by (simp add: text_value_def)
    with True show ?thesis by (subst nat_text.simps) simp
  next
    case False
    with 1 show ?thesis by (subst nat_text.simps) simp
  qed
qed

lemma nat_text_eq_iff [simp]: "nat_text m = nat_text n \<longleftrightarrow> m = n"
  by (metis text_value_nat_text)

lemma nat_text_digits: "set (nat_text n) \<subseteq> set digit_chars"
  by (induction n rule: nat_text.induct) (subst nat_text.simps, simp add: digit_char_in)

lemma nat_text_nonempty [simp]: "nat_text n \<noteq> []"
  by (subst nat_text.simps) simp

lemma int_text_eq_iff [simp]: "int_text i = int_text j \<longleftrightarrow> i = j"
proof -
  have "nat_text m \<noteq> CHR ''-'' # s" for m s
    using nat_text_digits [of m] by (auto simp: digit_chars_def)
  moreover have "CHR ''-'' # s \<noteq> nat_text m" for m s
    using nat_text_digits [of m] by (metis calculation)
  ultimately show ?thesis by (auto simp: int_text_def nat_eq_iff)
qed

lemma int_text_chars: "set (int_text i) \<subseteq> insert (CHR ''-'') (set digit_chars)"
  using nat_text_digits by (auto simp: int_text_def)

lemma int_text_nonempty [simp]: "int_text i \<noteq> []"
  by (simp add: int_text_def)

lemma length_pad_text [simp]: "length (pad_text k n) = k"
  by (induction k arbitrary: n) auto

lemma text_value_pad_text [simp]: "text_value (pad_text k n) = n mod 10 ^ k"
proof (induction k arbitrary: n)
  case 0
  show ?case by (simp add: text_value_def)
next
  case (Suc k)
  show ?case by (simp add: Suc mod_mult2_eq)
qed

lemma pad_text_eq:
  "pad_text k m = pad_text k n \<Longrightarrow> m < 10 ^ k \<Longrightarrow> n < 10 ^ k \<Longrightarrow> m = n"
  by (metis mod_less text_value_pad_text)

lemma pad_text_digits: "set (pad_text k n) \<subseteq> set digit_chars"
  by (induction k arbitrary: n) (auto simp: digit_char_in)

subsection \<open>The proleptic Gregorian calendar\<close>

definition is_leap :: "int \<Rightarrow> bool" where
  "is_leap y = (y mod 4 = 0 \<and> (y mod 100 \<noteq> 0 \<or> y mod 400 = 0))"

definition month_lengths :: "bool \<Rightarrow> int list" where
  "month_lengths leap = [31, if leap then 29 else 28, 31, 30, 31, 30, 31, 31, 30, 31, 30, 31]"

fun month_day :: "int list \<Rightarrow> nat \<Rightarrow> int \<Rightarrow> nat \<times> int" where
  "month_day [] m n = (m, n)"
| "month_day (l # ls) m n = (if n < l then (m, n) else month_day ls (Suc m) (n - l))"

text \<open>Year, month and day of an ordinal; day 1 is 1 January of year 1.\<close>

definition ord2ymd :: "int \<Rightarrow> int \<times> nat \<times> int" where
  "ord2ymd ordinal =
     (let n = ordinal - 1;
          n400 = n div 146097; n = n mod 146097;
          n100 = n div 36524; n = n mod 36524;
          n4 = n div 1461; n = n mod 1461;
          n1 = n div 365; n = n mod 365;
          year = n400 * 400 + n100 * 100 + n4 * 4 + n1 + 1
      in if n1 = 4 \<or> n100 = 4 then (year - 1, 12, 31)
         else let (m, d) = month_day (month_lengths (is_leap year)) 1 n in (year, m, d + 1))"

definition days_before_year :: "int \<Rightarrow> int" where
  "days_before_year y = (y - 1) * 365 + (y - 1) div 4 - (y - 1) div 100 + (y - 1) div 400"

definition ymd2ord :: "int \<times> nat \<times> int \<Rightarrow> int" where
  "ymd2ord = (\<lambda>(y, m, d). days_before_year y + sum_list (take (m - 1) (month_lengths (is_leap y))) + d)"


lemma month_day_sum:
  assumes "month_day ls m n = (m', d)" and "0 \<le> n" and "n < sum_list ls" and "\<forall>l \<in> set ls. 0 < l"
  shows "m \<le> m' \<and> m' < m + length ls \<and> 0 \<le> d \<and> n = sum_list (take (m' - m) ls) + d \<and>
    d < ls ! (m' - m)"
  using assms
proof (induction ls arbitrary: m n)
  case (Cons l ls)
  show ?case
  proof (cases "n < l")
    case False
    with Cons.prems have "month_day ls (Suc m) (n - l) = (m', d)" "0 \<le> n - l" "n - l < sum_list ls"
      "\<forall>l \<in> set ls. 0 < l" by auto
    note ih = Cons.IH [OF this]
    then obtain k where "m' = Suc (m + k)" by (metis less_iff_Suc_add Suc_le_eq)
    with ih show ?thesis by simp
  qed (use Cons.prems in auto)
qed simp

lemma month_lengths_facts:
  "length (month_lengths leap) = 12" "\<forall>l \<in> set (month_lengths leap). 0 < l \<and> l \<le> 31"
  "sum_list (month_lengths leap) = (if leap then 366 else 365)"
  "month_lengths leap ! 11 = 31"
  "sum_list (take 11 (month_lengths leap)) = (if leap then 335 else 334)"
  by (auto simp: month_lengths_def numeral_eq_Suc)

text \<open>The cycle counts of an ordinal and the year they make.\<close>

lemma year_cycles:
  fixes a b c d :: int
  assumes "0 \<le> b" "b < 4" "0 \<le> c" "c < 25" "0 \<le> d" "d < 4"
  defines "p \<equiv> a * 400 + b * 100 + c * 4 + d"
  shows "days_before_year (p + 1) = 146097 * a + 36524 * b + 1461 * c + 365 * d"
    and "is_leap (p + 1) \<longleftrightarrow> d = 3 \<and> (c \<noteq> 24 \<or> b = 3)"
proof -
  have "p div 4 = a * 100 + b * 25 + c" "p div 100 = a * 4 + b" "p div 400 = a"
    using assms by (intro int_div_pos_eq [of p _ _ d] int_div_pos_eq [of p _ _ "c * 4 + d"]
        int_div_pos_eq [of p _ _ "b * 100 + c * 4 + d"]; simp)+
  then show "days_before_year (p + 1) = 146097 * a + 36524 * b + 1461 * c + 365 * d"
    by (simp add: days_before_year_def p_def)
  have "p + 1 = (a * 100 + b * 25 + c) * 4 + (d + 1)" "p + 1 = (a * 4 + b) * 100 + (c * 4 + d + 1)"
    "p + 1 = a * 400 + (b * 100 + c * 4 + d + 1)" by (simp_all add: p_def)
  then have "(p + 1) mod 4 = (d + 1) mod 4" "(p + 1) mod 100 = (c * 4 + d + 1) mod 100"
    "(p + 1) mod 400 = (b * 100 + c * 4 + d + 1) mod 400" by (metis mod_mult_self3)+
  moreover have "(d + 1) mod 4 = 0 \<longleftrightarrow> d = 3" using assms by (cases "d = 3") auto
  moreover have "(c * 4 + d + 1) mod 100 = 0 \<longleftrightarrow> c = 24 \<and> d = 3"
  proof (cases "c = 24 \<and> d = 3")
    case False
    with assms have "c * 4 + d + 1 < 100" by linarith
    with assms False show ?thesis by auto
  qed simp
  moreover have "(b * 100 + c * 4 + d + 1) mod 400 = 0 \<longleftrightarrow> b = 3 \<and> c = 24 \<and> d = 3"
  proof (cases "b = 3 \<and> c = 24 \<and> d = 3")
    case False
    with assms have "b * 100 + c * 4 + d + 1 < 400" by linarith
    with assms False show ?thesis by auto
  qed simp
  ultimately show "is_leap (p + 1) \<longleftrightarrow> d = 3 \<and> (c \<noteq> 24 \<or> b = 3)"
    by (auto simp: is_leap_def)
qed

lemma cycle_bounds:
  fixes n :: int
  assumes "r1 = n mod 146097" "r2 = r1 mod 36524" "r3 = r2 mod 1461" "e = r3 mod 365"
    and "a = n div 146097" "b = r1 div 36524" "c = r2 div 1461" "q = r3 div 365"
  shows "n = 146097 * a + 36524 * b + 1461 * c + 365 * q + e"
    and "0 \<le> b" "b \<le> 4" "b = 4 \<Longrightarrow> r2 = 0" "0 \<le> c" "c \<le> 24" "0 \<le> q" "q \<le> 4"
    and "q = 4 \<Longrightarrow> e = 0 \<and> c < 24" "0 \<le> e" "e < 365"
proof -
  have e0: "n = 146097 * a + r1" unfolding assms(1,5) by (rule mult_div_mod_eq [symmetric])
  have e1: "r1 = 36524 * b + r2" unfolding assms(2,6) by (rule mult_div_mod_eq [symmetric])
  have e2: "r2 = 1461 * c + r3" unfolding assms(3,7) by (rule mult_div_mod_eq [symmetric])
  have e3: "r3 = 365 * q + e" unfolding assms(4,8) by (rule mult_div_mod_eq [symmetric])
  have r: "0 \<le> r1" "r1 < 146097" "0 \<le> r2" "r2 < 36524" "0 \<le> r3" "r3 < 1461"
    unfolding assms(1-3) by simp_all
  show e: "0 \<le> e" "e < 365" unfolding assms(4) by simp_all
  show low: "0 \<le> b" "0 \<le> c" "0 \<le> q"
    using r unfolding assms(6-8) by (simp_all add: pos_imp_zdiv_nonneg_iff)
  show "n = 146097 * a + 36524 * b + 1461 * c + 365 * q + e" using e0 e1 e2 e3 by linarith
  show "b \<le> 4" "c \<le> 24" "q \<le> 4" using e1 e2 e3 r e low by linarith+
  show "b = 4 \<Longrightarrow> r2 = 0" using e1 r by linarith
  show "q = 4 \<Longrightarrow> e = 0 \<and> c < 24" using e2 e3 r e low by linarith
qed

lemma ord2ymd_inverse:
  assumes "ord2ymd n = (y, m, d)"
  shows "ymd2ord (y, m, d) = n \<and> 1 \<le> m \<and> m \<le> 12 \<and> 1 \<le> d \<and> d \<le> 31"
proof -
  define r1 where "r1 = (n - 1) mod 146097"
  define r2 where "r2 = r1 mod 36524"
  define r3 where "r3 = r2 mod 1461"
  define a b c q where "a = (n - 1) div 146097" and "b = r1 div 36524" and "c = r2 div 1461"
    and "q = r3 div 365"
  define e where "e = r3 mod 365"
  note defs = r1_def r2_def r3_def a_def b_def c_def q_def e_def
  note cb = cycle_bounds [OF r1_def r2_def r3_def e_def a_def b_def c_def q_def]
  have ymd: "(y, m, d) = (if q = 4 \<or> b = 4 then (a * 400 + b * 100 + c * 4 + q + 1 - 1, 12, 31)
      else let (m, d) = month_day (month_lengths (is_leap (a * 400 + b * 100 + c * 4 + q + 1))) 1 e
        in (a * 400 + b * 100 + c * 4 + q + 1, m, d + 1))"
    unfolding assms [symmetric] ord2ymd_def Let_def defs by (rule refl)
  show ?thesis
  proof (cases "q = 4 \<or> b = 4")
    case last: True
    show ?thesis
    proof (cases "b = 4")
      case True
      with cb(4) have "r2 = 0" by simp
      then have z: "c = 0" "q = 0" "e = 0" by (simp_all add: c_def q_def e_def r3_def)
      note cyc = year_cycles [of 3 24 3 a]
      from ymd True z have "y = (a * 400 + 3 * 100 + 24 * 4 + 3) + 1" "m = 12" "d = 31" by simp_all
      with cyc cb(1) True z show ?thesis by (simp add: ymd2ord_def month_lengths_facts)
    next
      case False
      with last cb(9) have q: "q = 4" "e = 0" "c < 24" by auto
      note cyc = year_cycles [of b c 3 a]
      from ymd q have "y = (a * 400 + b * 100 + c * 4 + 3) + 1" "m = 12" "d = 31" by simp_all
      with cyc cb(1-8) False q show ?thesis by (simp add: ymd2ord_def month_lengths_facts)
    qed
  next
    case False
    let ?y = "a * 400 + b * 100 + c * 4 + q + 1"
    let ?ls = "month_lengths (is_leap ?y)"
    obtain m' d' where md: "month_day ?ls 1 e = (m', d')" by fastforce
    have "e < sum_list ?ls" using cb(11) by (simp add: month_lengths_facts)
    from month_day_sum [OF md cb(10) this] month_lengths_facts(2) [of "is_leap ?y"]
    have d': "1 \<le> m'" "m' < 13" "0 \<le> d'" "e = sum_list (take (m' - 1) ?ls) + d'" "d' < ?ls ! (m' - 1)"
      by (auto simp: month_lengths_facts(1))
    then have "?ls ! (m' - 1) \<in> set ?ls" by (intro nth_mem) (auto simp: month_lengths_facts(1))
    with month_lengths_facts(2) [of "is_leap ?y"] have "?ls ! (m' - 1) \<le> 31" by blast
    moreover from ymd md False have "y = ?y" "m = m'" "d = d' + 1" by simp_all
    moreover have "days_before_year ?y = 146097 * a + 36524 * b + 1461 * c + 365 * q"
      using False cb(2-8) by (intro year_cycles) auto
    ultimately show ?thesis using d' cb(1) by (auto simp: ymd2ord_def)
  qed
qed

subsection \<open>ISO text of an instant\<close>

text \<open>The epoch of instants, 1 January 1970, is day 719163.\<close>

definition instant_fields :: "instant \<Rightarrow> (int \<times> nat \<times> int) \<times> int" where
  "instant_fields t = (ord2ymd (t div 86400000000 + 719163), t mod 86400000000)"

text \<open>\<open>datetime.isoformat\<close> without the offset: the fraction is left out when it is zero.\<close>

definition fields_text :: "nat \<Rightarrow> nat \<Rightarrow> nat \<Rightarrow> nat \<Rightarrow> nat \<Rightarrow> nat \<Rightarrow> nat \<Rightarrow> string" where
  "fields_text y mo d h mi s f =
     pad_text 4 y @ ''-'' @ pad_text 2 mo @ ''-'' @ pad_text 2 d @ ''T'' @
     pad_text 2 h @ '':'' @ pad_text 2 mi @ '':'' @ pad_text 2 s @
     (if f = 0 then [] else ''.'' @ pad_text 6 f)"

definition iso_text :: "instant \<Rightarrow> string" where
  "iso_text t =
     (let ((y, m, d), us) = instant_fields t; s = us div 1000000
      in fields_text (nat y) m (nat d) (nat (s div 3600)) (nat (s div 60 mod 60)) (nat (s mod 60))
           (nat (us mod 1000000)))"

lemma months_before: "k < 12 \<Longrightarrow> 0 \<le> sum_list (take k (month_lengths b)) \<and> sum_list (take k (month_lengths b)) \<le> 335"
proof -
  assume "k < 12"
  moreover have "\<forall>b \<in> {True, False}. \<forall>k \<in> set [0..<12].
      0 \<le> sum_list (take k (month_lengths b)) \<and> sum_list (take k (month_lengths b)) \<le> 335"
    by code_simp
  ultimately show ?thesis by (cases b) auto
qed

lemma days_before_year_bounds:
  "y \<le> 0 \<Longrightarrow> days_before_year y \<le> -366" "10000 \<le> y \<Longrightarrow> 3652059 \<le> days_before_year y"
proof -
  define p where "p = y - 1"
  define u v w where "u = p div 4" and "v = p div 100" and "w = p div 400"
  have b: "4 * u \<le> p" "p \<le> 4 * u + 3" "100 * v \<le> p" "p \<le> 100 * v + 99" "400 * w \<le> p" "p \<le> 400 * w + 399"
    unfolding u_def v_def w_def by linarith+
  have dby: "days_before_year y = p * 365 + u - v + w"
    by (simp add: days_before_year_def p_def u_def v_def w_def)
  show "days_before_year y \<le> -366" if "y \<le> 0"
  proof -
    from that have "p \<le> -1" by (simp add: p_def)
    moreover from this b have "u \<le> -1" "w \<le> -1" by linarith+
    moreover from this b have "u \<le> v" by linarith
    ultimately show ?thesis using dby by linarith
  qed
  show "10000 \<le> y \<Longrightarrow> 3652059 \<le> days_before_year y" using dby b p_def by linarith
qed

lemma instant_fields_range:
  assumes "in_datetime_range t" and "instant_fields t = ((y, m, d), us)"
  shows "1 \<le> y" "y \<le> 9999" "1 \<le> m" "m \<le> 12" "1 \<le> d" "d \<le> 31" "0 \<le> us" "us < 86400000000"
    and "t = (ymd2ord (y, m, d) - 719163) * 86400000000 + us"
proof -
  let ?n = "t div 86400000000 + 719163"
  have us: "us = t mod 86400000000" and ord: "ord2ymd ?n = (y, m, d)"
    using assms(2) by (simp_all add: instant_fields_def)
  have eq: "ymd2ord (y, m, d) = ?n" and md: "1 \<le> m" "m \<le> 12" "1 \<le> d" "d \<le> 31"
    using ord2ymd_inverse [OF ord] by auto
  have inv: "days_before_year y + sum_list (take (m - 1) (month_lengths (is_leap y))) + d = ?n"
    using eq by (simp add: ymd2ord_def)
  have "m - 1 < 12" using md by linarith
  note sums = months_before [OF this, of "is_leap y"]
  have "1 \<le> ?n" "?n \<le> 3652059"
    using assms(1) unfolding in_datetime_range_def min_instant_def max_instant_def by linarith+
  then have "\<not> y \<le> 0" "\<not> 10000 \<le> y"
    using inv sums md days_before_year_bounds [of y] by linarith+
  then show "1 \<le> y" "y \<le> 9999" by linarith+
  show "1 \<le> m" "m \<le> 12" "1 \<le> d" "d \<le> 31" by (fact md)+
  show "0 \<le> us" "us < 86400000000" unfolding us by simp_all
  show "t = (ymd2ord (y, m, d) - 719163) * 86400000000 + us"
    unfolding eq us by (simp add: mult.commute)
qed

lemma day_fields:
  fixes us :: int
  assumes "0 \<le> us" "us < 86400000000"
    and "s = us div 1000000" "h = s div 3600" "mi = s div 60 mod 60" "se = s mod 60" "f = us mod 1000000"
  shows "0 \<le> h" "h < 24" "0 \<le> mi" "mi < 60" "0 \<le> se" "se < 60" "0 \<le> f" "f < 1000000"
    and "us = ((h * 60 + mi) * 60 + se) * 1000000 + f"
proof -
  define q where "q = s div 60"
  have "h = q div 60" unfolding assms(4) q_def by (simp add: zdiv_zmult2_eq [symmetric])
  have e: "us = 1000000 * s + f" "s = 60 * q + se" "q = 60 * h + mi"
    unfolding \<open>h = q div 60\<close> assms(5,6,7) assms(3) [symmetric] q_def [symmetric]
    unfolding assms(3) q_def by (rule mult_div_mod_eq [symmetric])+
  show r: "0 \<le> mi" "mi < 60" "0 \<le> se" "se < 60" "0 \<le> f" "f < 1000000" unfolding assms(5-7) by simp_all
  show "0 \<le> h" "h < 24" using e r assms(1,2) by linarith+
  show "us = ((h * 60 + mi) * 60 + se) * 1000000 + f" by (simp only: e) algebra
qed

lemma fields_text_inj:
  assumes "fields_text y mo d h mi s f = fields_text y' mo' d' h' mi' s' f'"
    and "y < 10000" "mo < 100" "d < 100" "h < 100" "mi < 100" "s < 100" "f < 1000000"
    and "y' < 10000" "mo' < 100" "d' < 100" "h' < 100" "mi' < 100" "s' < 100" "f' < 1000000"
  shows "y = y' \<and> mo = mo' \<and> d = d' \<and> h = h' \<and> mi = mi' \<and> s = s' \<and> f = f'"
proof -
  let ?frac = "\<lambda>f. if f = 0 then [] else ''.'' @ pad_text 6 f"
  from assms(1) have eq: "pad_text 4 y = pad_text 4 y'" "pad_text 2 mo = pad_text 2 mo'"
    "pad_text 2 d = pad_text 2 d'" "pad_text 2 h = pad_text 2 h'" "pad_text 2 mi = pad_text 2 mi'"
    "pad_text 2 s = pad_text 2 s'" "?frac f = ?frac f'"
    unfolding fields_text_def
    by (simp_all only: append_eq_append_conv length_pad_text append.simps list.inject refl simp_thms)
  have "f = f'"
  proof (cases "f = 0 \<or> f' = 0")
    case True
    with eq(7) show ?thesis by (auto split: if_splits)
  next
    case False
    with eq(7) have "pad_text 6 f = pad_text 6 f'" by simp
    then show ?thesis by (rule pad_text_eq) (use assms in simp_all)
  qed
  moreover have "y = y'" using eq(1) by (rule pad_text_eq) (use assms in simp_all)
  moreover have "mo = mo'" "d = d'" "h = h'" "mi = mi'" "s = s'"
    using pad_text_eq [OF eq(2)] pad_text_eq [OF eq(3)] pad_text_eq [OF eq(4)] pad_text_eq [OF eq(5)]
      pad_text_eq [OF eq(6)] assms(2-) by simp_all
  ultimately show ?thesis by blast
qed

lemma iso_text_inj:
  assumes "in_datetime_range t" "in_datetime_range t'" and "iso_text t = iso_text t'"
  shows "t = t'"
proof -
  obtain y m d us y' m' d' us' where f: "instant_fields t = ((y, m, d), us)"
    and f': "instant_fields t' = ((y', m', d'), us')" by (metis prod.exhaust)
  note r = instant_fields_range [OF assms(1) f] and r' = instant_fields_range [OF assms(2) f']
  define s where "s = us div 1000000"
  define s' where "s' = us' div 1000000"
  define h where "h = s div 3600"
  define mi where "mi = s div 60 mod 60"
  define se where "se = s mod 60"
  define fr where "fr = us mod 1000000"
  define h' where "h' = s' div 3600"
  define mi' where "mi' = s' div 60 mod 60"
  define se' where "se' = s' mod 60"
  define fr' where "fr' = us' mod 1000000"
  note a = day_fields [OF r(7,8) s_def h_def mi_def se_def fr_def]
  note b = day_fields [OF r'(7,8) s'_def h'_def mi'_def se'_def fr'_def]
  have "fields_text (nat y) m (nat d) (nat h) (nat mi) (nat se) (nat fr) =
      fields_text (nat y') m' (nat d') (nat h') (nat mi') (nat se') (nat fr')"
    using assms(3) unfolding iso_text_def f f' Let_def prod.case
    unfolding s_def [symmetric] s'_def [symmetric] unfolding h_def [symmetric] mi_def [symmetric]
      se_def [symmetric] fr_def [symmetric] h'_def [symmetric] mi'_def [symmetric] se'_def [symmetric]
      fr'_def [symmetric] .
  then have eq: "nat y = nat y' \<and> m = m' \<and> nat d = nat d' \<and> nat h = nat h' \<and> nat mi = nat mi' \<and>
      nat se = nat se' \<and> nat fr = nat fr'"
    by (rule fields_text_inj) (use a(1-8) b(1-8) r(1-6) r'(1-6) in linarith)+
  have "y = y'" "d = d'" "h = h'" "mi = mi'" "se = se'" "fr = fr'"
    by (rule eq_nat_nat_iff [THEN iffD1], (use a(1-8) b(1-8) r(1-6) r'(1-6) in linarith)+, simp add: eq)+
  with eq have "m = m'" by blast
  have "us = us'" unfolding a(9) b(9) by (simp only: \<open>h = h'\<close> \<open>mi = mi'\<close> \<open>se = se'\<close> \<open>fr = fr'\<close>)
  show ?thesis unfolding r(9) r'(9) by (simp only: \<open>us = us'\<close> \<open>y = y'\<close> \<open>m = m'\<close> \<open>d = d'\<close>)
qed

end
