(* ===== verification/Json.thy ===== *)
theory Json
  imports Domain Calendar
begin

text \<open>
  Canonical JSON: the text \<open>json.dumps\<close> gives with compact separators, with keys sorted, and with
  or without \<open>ensure_ascii\<close>, and its UTF-8 bytes. A number that is a Python float is held as the
  text of its \<open>repr\<close>. The main fact is that the bytes determine the value, so a digest over them
  covers the value and not only one rendering of it.
\<close>

datatype json =
    JNull | JBool bool | JInt int | JFloat string | JStr string
  | JArr "json list" | JObj "(string \<times> json) list"

subsection \<open>Float text\<close>

text \<open>
  \<open>float.__repr__\<close>: the fewest significant digits (17 always suffice) whose decimal rounds back
  to the float, in scientific form when the exponent is below -4 or at least 16. The value is
  \<open>m * 2 ^ e\<close>, brought to a 53-bit mantissa (fewer bits below the normal range).
\<close>

function float_norm :: "nat \<Rightarrow> int \<Rightarrow> nat \<times> int" where
  "float_norm m e =
     (if m = 0 then (0, e)
      else if 2 ^ 53 \<le> m \<or> e < -1074 then float_norm (m div 2) (e + 1)
      else if m < 2 ^ 52 \<and> -1074 < e then float_norm (2 * m) (e - 1) else (m, e))"
  by pat_completeness auto

termination
  by (relation "measures [\<lambda>(m, e). nat (-1074 - e),
      \<lambda>(m, e). if m = 0 then 0 else if 2 ^ 53 \<le> m then m + 1 else 2 ^ 53 - m]") auto

declare float_norm.simps [simp del]

definition ratio :: "nat \<Rightarrow> int \<Rightarrow> nat \<times> nat" where
  "ratio m e = (if 0 \<le> e then (m * 2 ^ nat e, 1) else (m, 2 ^ nat (- e)))"

text \<open>Does the decimal \<open>q * 10 ^ p\<close> round to the normalised float \<open>m * 2 ^ e\<close>?\<close>

definition rounds_to :: "nat \<Rightarrow> int \<Rightarrow> nat \<Rightarrow> int \<Rightarrow> bool" where
  "rounds_to m e q p =
     (let (dn, dd) = (if 0 \<le> p then (q * 10 ^ nat p, 1) else (q, 10 ^ nat (- p)));
          low = (if m = 2 ^ 52 \<and> -1074 < e then 4 * m - 1 else 4 * m - 2);
          (ln, ld) = ratio low (e - 2); (hn, hd) = ratio (4 * m + 2) (e - 2)
      in if even m then ln * dd \<le> dn * ld \<and> dn * hd \<le> hn * dd
         else ln * dd < dn * ld \<and> dn * hd < hn * dd)"

text \<open>The decimal point of \<open>n / d\<close>: the \<open>p\<close> with \<open>10 ^ (p - 1) \<le> n / d < 10 ^ p\<close>.\<close>

definition decimal_point :: "nat \<Rightarrow> nat \<Rightarrow> int" where
  "decimal_point n d =
     (if d \<le> n then int (length (nat_text (n div d)))
      else - int (length (takeWhile (\<lambda>k. n * 10 ^ k < d) [1..<400])))"

definition round_half_even :: "nat \<Rightarrow> nat \<Rightarrow> nat" where
  "round_half_even n d =
     (let q = n div d; r = n mod d
      in if 2 * r < d \<or> 2 * r = d \<and> even q then q else q + 1)"

definition decimal_digits :: "nat \<Rightarrow> int \<Rightarrow> nat \<Rightarrow> nat \<times> int" where
  "decimal_digits m e k =
     (let (n, d) = ratio m e; p = decimal_point n d; shift = int k - p
      in (if 0 \<le> shift then round_half_even (n * 10 ^ nat shift) d
          else round_half_even n (d * 10 ^ nat (- shift)), - shift))"

definition shortest_digits :: "nat \<Rightarrow> int \<Rightarrow> nat \<times> int" where
  "shortest_digits m e =
     (let (m', e') = float_norm m e
      in case List.find (\<lambda>k. case decimal_digits m' e' k of (q, p) \<Rightarrow> rounds_to m' e' q p) [1..<17] of
           Some k \<Rightarrow> decimal_digits m' e' k
         | None \<Rightarrow> decimal_digits m' e' 17)"

definition strip_zeros :: "string \<Rightarrow> string" where
  "strip_zeros s = rev (dropWhile (\<lambda>c. c = CHR ''0'') (rev s))"

definition float_digits :: "string \<Rightarrow> int \<Rightarrow> string" where
  "float_digits ds point =
     (if -4 < point \<and> point \<le> 16 then
        if point \<le> 0 then ''0.'' @ replicate (nat (- point)) (CHR ''0'') @ ds
        else if int (length ds) \<le> point then ds @ replicate (nat point - length ds) (CHR ''0'') @ ''.0''
        else take (nat point) ds @ ''.'' @ drop (nat point) ds
      else
        (if length ds = 1 then ds else take 1 ds @ ''.'' @ drop 1 ds) @
        ''e'' @ (if point - 1 < 0 then ''-'' else ''+'') @
        (if abs (point - 1) < 10 then ''0'' else []) @ nat_text (nat (abs (point - 1))))"

fun float_repr :: "pyfloat \<Rightarrow> string" where
  "float_repr Nan = ''nan''"
| "float_repr PosInf = ''inf''"
| "float_repr NegInf = ''-inf''"
| "float_repr (Finite m e) =
     (if m = 0 then ''0.0''
      else let (q, p) = shortest_digits (nat (abs m)) e; ds = nat_text q
           in (if m < 0 then ''-'' else []) @ float_digits (case strip_zeros ds of [] \<Rightarrow> ''0'' | s \<Rightarrow> s)
                (p + int (length ds)))"

definition number_chars :: string where
  "number_chars = digit_chars @ ''-+.e''"

definition float_token :: "string \<Rightarrow> bool" where
  "float_token s =
     (s \<noteq> [] \<and> (\<forall>c \<in> set s. c \<in> set number_chars) \<and> (CHR ''.'' \<in> set s \<or> CHR ''e'' \<in> set s))"

lemma digits_number: "set s \<subseteq> set digit_chars \<Longrightarrow> set s \<subseteq> set number_chars"
  by (auto simp: number_chars_def)

lemma strip_zeros_set: "set (strip_zeros s) \<subseteq> set s"
  by (auto simp: strip_zeros_def dest: set_dropWhileD)

lemma float_digits_token:
  assumes "set ds \<subseteq> set digit_chars" and "ds \<noteq> []"
  shows "float_token (float_digits ds point)"
proof -
  have n: "set ds \<subseteq> set number_chars" and k: "set (nat_text k) \<subseteq> set number_chars" for k
    using assms(1) nat_text_digits digits_number by blast+
  have c: "CHR ''0'' \<in> set number_chars" "CHR ''.'' \<in> set number_chars" "CHR ''e'' \<in> set number_chars"
    "CHR ''-'' \<in> set number_chars" "CHR ''+'' \<in> set number_chars"
    by (simp_all add: number_chars_def digit_chars_def)
  have "set (float_digits ds point) \<subseteq> set number_chars"
    using n k c by (auto simp: float_digits_def dest: in_set_takeD in_set_dropD)
  then show ?thesis unfolding float_token_def by (auto simp: float_digits_def)
qed

lemma float_repr_token: "float_token (float_repr (Finite m e))"
proof (cases "m = 0")
  case True
  show ?thesis by (simp add: True float_token_def number_chars_def digit_chars_def)
next
  case False
  obtain q p where qp: "shortest_digits (nat (abs m)) e = (q, p)" by fastforce
  let ?ds = "case strip_zeros (nat_text q) of [] \<Rightarrow> ''0'' | c # cs \<Rightarrow> c # cs"
  have "set ?ds \<subseteq> set digit_chars" "?ds \<noteq> []"
    using strip_zeros_set [of "nat_text q"] nat_text_digits [of q]
    by (auto simp: digit_chars_def split: list.splits)
  from float_digits_token [OF this] have "float_token (float_digits ?ds (p + int (length (nat_text q))))" .
  with False qp show ?thesis
    by (auto simp: float_token_def Let_def number_chars_def split: list.splits)
qed

subsection \<open>Text\<close>

text \<open>
  \<open>json.encoder\<close>: the escapes of a string, with and without \<open>ensure_ascii\<close>.
\<close>

definition short_escapes :: "(char \<times> char) list" where
  "short_escapes =
     [(CHR 0x22, CHR 0x22), (CHR 0x5C, CHR 0x5C), (CHR 0x0A, CHR ''n''), (CHR 0x0D, CHR ''r''),
      (CHR 0x09, CHR ''t''), (CHR 0x0C, CHR ''f''), (CHR 0x08, CHR ''b'')]"

definition json_escape :: "bool \<Rightarrow> char \<Rightarrow> string" where
  "json_escape ascii c =
     (case map_of short_escapes c of
        Some k \<Rightarrow> [CHR 0x5C, k]
      | None \<Rightarrow>
          let n = of_char c :: nat
          in if n < 32 \<or> ascii \<and> 126 < n
             then [CHR 0x5C, CHR ''u'', CHR ''0'', CHR ''0''] @ hex2 n
             else [c])"

definition json_quote :: "bool \<Rightarrow> string \<Rightarrow> string" where
  "json_quote ascii s = CHR 0x22 # concat (map (json_escape ascii) s) @ [CHR 0x22]"

fun comma :: "string list \<Rightarrow> string" where
  "comma [] = []"
| "comma [s] = s"
| "comma (s # t # ts) = s @ CHR '','' # comma (t # ts)"

fun json_text :: "bool \<Rightarrow> json \<Rightarrow> string" where
  "json_text ascii JNull = ''null''"
| "json_text ascii (JBool b) = (if b then ''true'' else ''false'')"
| "json_text ascii (JInt i) = int_text i"
| "json_text ascii (JFloat t) = t"
| "json_text ascii (JStr s) = json_quote ascii s"
| "json_text ascii (JArr vs) = CHR ''['' # comma (map (json_text ascii) vs) @ '']''"
| "json_text ascii (JObj kvs) =
     CHR ''{'' # comma (map (\<lambda>(k, v). json_quote ascii k @ CHR '':'' # json_text ascii v) kvs) @ ''}''"

text \<open>\<open>sort_keys\<close>.\<close>

fun sort_json :: "json \<Rightarrow> json" where
  "sort_json (JArr vs) = JArr (map sort_json vs)"
| "sort_json (JObj kvs) = JObj (sort_key fst (map (\<lambda>(k, v). (k, sort_json v)) kvs))"
| "sort_json v = v"

definition json_dumps :: "bool \<Rightarrow> json \<Rightarrow> string" where
  "json_dumps ascii v = json_text ascii (sort_json v)"

definition utf8_char :: "char \<Rightarrow> bytes" where
  "utf8_char c =
     (let n = of_char c :: nat
      in if n < 128 then [of_nat n] else [of_nat (192 + n div 64), of_nat (128 + n mod 64)])"

definition utf8 :: "string \<Rightarrow> bytes" where
  "utf8 s = concat (map utf8_char s)"

text \<open>Values \<open>json.dumps\<close> can print without loss: floats by their text, distinct keys.\<close>

fun json_ok :: "json \<Rightarrow> bool" where
  "json_ok (JFloat t) = float_token t"
| "json_ok (JArr vs) = (\<forall>v \<in> set vs. json_ok v)"
| "json_ok (JObj kvs) = (distinct (map fst kvs) \<and> (\<forall>p \<in> set kvs. json_ok (snd p)))"
| "json_ok v = True"

fun json_sorted :: "json \<Rightarrow> bool" where
  "json_sorted (JArr vs) = (\<forall>v \<in> set vs. json_sorted v)"
| "json_sorted (JObj kvs) = (sorted (map fst kvs) \<and> (\<forall>p \<in> set kvs. json_sorted (snd p)))"
| "json_sorted v = True"

subsection \<open>The text determines the value\<close>

lemma hex2_eq: "hex2 m = hex2 n \<Longrightarrow> m < 256 \<Longrightarrow> n < 256 \<Longrightarrow> m = n"
proof -
  assume eq: "hex2 m = hex2 n" and "m < 256" "n < 256"
  have d: "distinct hex_chars" "length hex_chars = 16" by (simp_all add: hex_chars_def)
  have "m div 16 mod 16 = n div 16 mod 16" "m mod 16 = n mod 16"
    using eq d by (simp_all add: hex2_def nth_eq_iff_index_eq)
  then have "m div 16 = n div 16" "m mod 16 = n mod 16" using \<open>m < 256\<close> \<open>n < 256\<close> by (simp_all add: less_mult_imp_div_less)
  then show ?thesis by (metis div_mult_mod_eq)
qed

lemma char_code_less: "(of_char c :: nat) < 256"
  by simp

lemma char_code_eq: "(of_char c :: nat) = of_char d \<Longrightarrow> c = d"
  by simp

lemma json_escape_cases:
  obtains "json_escape a c = [c]" "c \<noteq> CHR 0x22" "c \<noteq> CHR 0x5C"
  | k where "json_escape a c = [CHR 0x5C, k]" "(c, k) \<in> set short_escapes"
  | "json_escape a c = [CHR 0x5C, CHR ''u'', CHR ''0'', CHR ''0''] @ hex2 (of_char c)"
proof (cases "map_of short_escapes c")
  case None
  then have "c \<noteq> CHR 0x22" "c \<noteq> CHR 0x5C" by (auto simp: short_escapes_def)
  with None that(1,3) show ?thesis
    by (cases "of_char c < (32 :: nat) \<or> a \<and> 126 < (of_char c :: nat)")
      (simp_all only: json_escape_def Let_def option.case if_True if_False not_False_eq_True)
next
  case (Some k)
  with that(2) show ?thesis by (auto simp: json_escape_def dest: map_of_SomeD)
qed

lemma short_escape_unique:
  "(c, k) \<in> set short_escapes \<Longrightarrow> (d, k) \<in> set short_escapes \<Longrightarrow> c = d"
  "(c, k) \<in> set short_escapes \<Longrightarrow> k \<noteq> CHR ''u''"
  by (auto simp: short_escapes_def)

lemma json_escape_prefix:
  assumes "json_escape a c @ x = json_escape b d @ y"
  shows "c = d \<and> x = y"
proof (cases a c rule: json_escape_cases)
  case 1
  then show ?thesis using assms by (cases b d rule: json_escape_cases) auto
next
  case (2 k)
  then show ?thesis using assms
    by (cases b d rule: json_escape_cases) (auto dest: short_escape_unique)
next
  case c: 3
  show ?thesis
  proof (cases b d rule: json_escape_cases)
    case 3
    with assms c have "hex2 (of_char c) @ x = hex2 (of_char d) @ y" by simp
    then have "hex2 (of_char c) = hex2 (of_char d)" "x = y" by (simp_all add: hex2_def)
    then show ?thesis using hex2_eq char_code_less char_code_eq by metis
  qed (use assms c in \<open>auto dest: short_escape_unique\<close>)
qed

lemma json_escape_head: "json_escape a c \<noteq> [] \<and> hd (json_escape a c) \<noteq> CHR 0x22"
  by (cases a c rule: json_escape_cases) auto

lemma json_quote_prefix:
  assumes "json_quote a s @ x = json_quote b t @ y"
  shows "s = t \<and> x = y"
proof -
  have head: "json_escape a c @ u \<noteq> CHR 0x22 # v" for a c u v
    using json_escape_head [of a c] by (cases "json_escape a c") auto
  have "s = t \<and> x = y"
    if "concat (map (json_escape a) s) @ CHR 0x22 # x = concat (map (json_escape b) t) @ CHR 0x22 # y"
    using that
  proof (induction s arbitrary: t)
    case Nil
    show ?case
    proof (cases t)
      case (Cons c u)
      with Nil have "CHR 0x22 # x = json_escape b c @ (concat (map (json_escape b) u) @ CHR 0x22 # y)" by simp
      then show ?thesis using head [of b c] by metis
    qed (use Nil in simp)
  next
    case (Cons c s)
    show ?case
    proof (cases t)
      case Nil
      with Cons.prems head [of a c] show ?thesis by simp
    next
      case (Cons d u)
      with Cons.prems have eq: "json_escape a c @ (concat (map (json_escape a) s) @ CHR 0x22 # x) =
          json_escape b d @ (concat (map (json_escape b) u) @ CHR 0x22 # y)" by simp
      from json_escape_prefix [OF eq] Cons.IH [of u] Cons show ?thesis by simp
    qed
  qed
  with assms show ?thesis by (simp add: json_quote_def)
qed

text \<open>What may follow a value inside a document, and the kind of value a first character starts.\<close>

definition delimited :: "string \<Rightarrow> bool" where
  "delimited r = (r = [] \<or> hd r \<in> set '',]}'')"

fun json_kind :: "json \<Rightarrow> nat" where
  "json_kind JNull = 0"
| "json_kind (JBool b) = (if b then 1 else 2)"
| "json_kind (JInt i) = 3"
| "json_kind (JFloat t) = 3"
| "json_kind (JStr s) = 4"
| "json_kind (JArr vs) = 5"
| "json_kind (JObj kvs) = 6"

definition char_kind :: "char \<Rightarrow> nat" where
  "char_kind c =
     (case map_of [(CHR ''n'', 0), (CHR ''t'', 1), (CHR ''f'', 2), (CHR 0x22, 4), (CHR ''['', 5), (CHR ''{'', 6)] c
      of Some k \<Rightarrow> k | None \<Rightarrow> 3)"

lemma number_char_kind: "c \<in> set number_chars \<Longrightarrow> char_kind c = 3 \<and> c \<notin> set '',]}''"
  by (auto simp: number_chars_def digit_chars_def char_kind_def)

lemma int_text_number: "set (int_text i) \<subseteq> set number_chars"
  using int_text_chars [of i] by (auto simp: number_chars_def)

lemma json_text_head:
  assumes "json_ok v"
  shows "json_text a v \<noteq> []" "char_kind (hd (json_text a v)) = json_kind v"
    "hd (json_text a v) \<notin> set '',]}''"
proof -
  have num: "s \<noteq> [] \<Longrightarrow> set s \<subseteq> set number_chars \<Longrightarrow> char_kind (hd s) = 3 \<and> hd s \<notin> set '',]}''" for s
    using number_char_kind [of "hd s"] hd_in_set [of s] by blast
  have "json_text a v \<noteq> [] \<and> char_kind (hd (json_text a v)) = json_kind v \<and> hd (json_text a v) \<notin> set '',]}''"
    using assms num [OF int_text_nonempty int_text_number] num
    by (cases v) (auto simp: char_kind_def json_quote_def float_token_def subset_iff)
  then show "json_text a v \<noteq> []" "char_kind (hd (json_text a v)) = json_kind v"
    "hd (json_text a v) \<notin> set '',]}''" by blast+
qed

lemma number_prefix:
  assumes "s @ r = t @ r'" and "set s \<subseteq> set number_chars" "set t \<subseteq> set number_chars"
    and "delimited r" "delimited r'"
  shows "s = t \<and> r = r'"
proof -
  have take: "takeWhile (\<lambda>c. c \<in> set number_chars) (u @ q) = u"
    if "set u \<subseteq> set number_chars" "delimited q" for u q
  proof -
    have "takeWhile (\<lambda>c. c \<in> set number_chars) q = []"
      using that(2) number_char_kind by (cases q) (auto simp: delimited_def)
    with that(1) show ?thesis by (simp add: takeWhile_append subset_iff)
  qed
  from assms take [of s r] take [of t r'] have "s = t" by metis
  with assms(1) show ?thesis by simp
qed

lemma comma_prefix:
  fixes f g :: "'a \<Rightarrow> string"
  assumes item: "\<And>x y r r'. x \<in> set xs \<Longrightarrow> y \<in> set ys \<Longrightarrow> delimited r \<Longrightarrow> delimited r' \<Longrightarrow>
      f x @ r = g y @ r' \<Longrightarrow> x = y \<and> r = r'"
    and head: "\<And>x. x \<in> set xs \<Longrightarrow> f x \<noteq> [] \<and> hd (f x) \<notin> set '',]}''"
    and head': "\<And>y. y \<in> set ys \<Longrightarrow> g y \<noteq> [] \<and> hd (g y) \<notin> set '',]}''"
    and close: "z = CHR '']'' \<or> z = CHR ''}''"
    and eq: "comma (map f xs) @ z # r = comma (map g ys) @ z # r'"
  shows "xs = ys \<and> r = r'"
  using item head head' eq
proof (induction xs arbitrary: ys)
  case Nil
  show ?case
  proof (cases ys)
    case (Cons y zs)
    with Nil.prems(3) [of y] have "g y \<noteq> []" "hd (g y) \<noteq> z" using close by auto
    moreover have "hd (comma (map g ys) @ z # r') = hd (g y)"
      using Cons \<open>g y \<noteq> []\<close> by (cases zs) auto
    moreover have "hd (comma (map g ys) @ z # r') = z" using Nil.prems(4) by simp (metis list.sel(1))
    ultimately show ?thesis by simp
  qed (use Nil in simp)
next
  case (Cons x xs)
  have step: "comma (map f (u # us)) @ z # q =
      f u @ (if us = [] then z # q else CHR '','' # comma (map f us) @ z # q)" for f :: "'a \<Rightarrow> string" and u us q
    by (cases us) auto
  have del: "delimited (if us = [] then z # q else CHR '','' # comma (map f us) @ z # q)" for f :: "'a \<Rightarrow> string" and us q
    using close by (auto simp: delimited_def)
  show ?case
  proof (cases ys)
    case Nil
    with Cons.prems(2) [of x] have "f x \<noteq> []" "hd (f x) \<noteq> z" using close by auto
    with Cons.prems(4) Nil show ?thesis by (simp only: step) (cases "f x"; simp)
  next
    case ys: (Cons y zs)
    from Cons.prems(1) [of x y, OF _ _ del del Cons.prems(4) [unfolded ys step]] ys
    have "x = y" and rest: "(if xs = [] then z # r else CHR '','' # comma (map f xs) @ z # r) =
        (if zs = [] then z # r' else CHR '','' # comma (map g zs) @ z # r')" by auto
    from rest close have tail: "comma (map f xs) @ z # r = comma (map g zs) @ z # r'"
      by (cases xs; cases zs) auto
    have "xs = zs \<and> r = r'"
    proof (rule Cons.IH [OF _ _ _ tail])
      show "x' = y' \<and> q = q'" if "x' \<in> set xs" "y' \<in> set zs" "delimited q" "delimited q'" "f x' @ q = g y' @ q'"
        for x' y' q q' by (rule Cons.prems(1) [OF _ _ that(3-5)]) (use that ys in simp_all)
    qed (use Cons.prems(2,3) ys in simp_all)
    with \<open>x = y\<close> ys show ?thesis by simp
  qed
qed

lemma same_kind:
  assumes "json_ok v" "json_ok w" "json_text a v @ r = json_text b w @ r'"
  shows "json_kind v = json_kind w"
proof -
  have "hd (json_text a v) = hd (json_text b w)"
    using assms json_text_head(1) by (metis hd_append2)
  with assms(1,2) json_text_head(2) show ?thesis by metis
qed

lemma int_not_float:
  assumes "float_token t" "delimited r" "delimited r'"
  shows "int_text i @ r \<noteq> t @ r'"
proof
  assume "int_text i @ r = t @ r'"
  from number_prefix [OF this int_text_number] assms have "t = int_text i"
    by (auto simp: float_token_def)
  with assms(1) int_text_chars [of i] show False by (auto simp: float_token_def digit_chars_def)
qed

lemma float_prefix:
  "float_token s \<Longrightarrow> float_token t \<Longrightarrow> delimited r \<Longrightarrow> delimited r' \<Longrightarrow> s @ r = t @ r' \<Longrightarrow> s = t \<and> r = r'"
  by (rule number_prefix) (auto simp: float_token_def)

lemma json_kind_cases:
  "json_kind w = 0 \<Longrightarrow> w = JNull"
  "json_kind w = json_kind (JBool b) \<Longrightarrow> w = JBool b"
  "json_kind w = 3 \<Longrightarrow> (\<exists>i. w = JInt i) \<or> (\<exists>t. w = JFloat t)"
  "json_kind w = 4 \<Longrightarrow> \<exists>s. w = JStr s"
  "json_kind w = 5 \<Longrightarrow> \<exists>vs. w = JArr vs"
  "json_kind w = 6 \<Longrightarrow> \<exists>kvs. w = JObj kvs"
  by (cases w; simp split: if_splits)+

lemma json_text_prefix:
  assumes "json_ok v" "json_ok w" "delimited r" "delimited r'"
    and "json_text a v @ r = json_text b w @ r'"
  shows "v = w \<and> r = r'"
  using assms
proof (induction v arbitrary: w r r')
  case (JInt i)
  from json_kind_cases(3) [of w] same_kind [OF JInt.prems(1,2,5)]
  consider j where "w = JInt j" | t where "w = JFloat t" by auto
  then show ?case
  proof cases
    case 1
    with JInt.prems number_prefix [OF _ int_text_number int_text_number, of i r j r'] show ?thesis by simp
  next
    case 2
    with JInt.prems int_not_float [of t r r' i] show ?thesis by simp
  qed
next
  case (JFloat s)
  from json_kind_cases(3) [of w] same_kind [OF JFloat.prems(1,2,5)]
  consider j where "w = JInt j" | t where "w = JFloat t" by auto
  then show ?case
  proof cases
    case 1
    with JFloat.prems int_not_float [of s r' r j] show ?thesis by simp
  next
    case 2
    with JFloat.prems float_prefix [of s t r r'] show ?thesis by simp
  qed
next
  case (JStr s)
  from json_kind_cases(4) [of w] same_kind [OF JStr.prems(1,2,5)] obtain t where w: "w = JStr t" by auto
  with JStr.prems(5) json_quote_prefix [of a s r b t r'] show ?case by simp
next
  case (JArr vs)
  from json_kind_cases(5) [of w] same_kind [OF JArr.prems(1,2,5)] obtain ws where w: "w = JArr ws" by auto
  have ok: "\<And>v. v \<in> set vs \<union> set ws \<Longrightarrow> json_ok v" using JArr.prems(1,2) w by auto
  have "vs = ws \<and> r = r'"
  proof (rule comma_prefix [where f = "json_text a" and g = "json_text b"])
    show "comma (map (json_text a) vs) @ CHR '']'' # r = comma (map (json_text b) ws) @ CHR '']'' # r'"
      using JArr.prems(5) w by simp
    show "json_text a x \<noteq> [] \<and> hd (json_text a x) \<notin> set '',]}''" if "x \<in> set vs" for x
      using json_text_head(1,3) [OF ok] that by blast
    show "json_text b x \<noteq> [] \<and> hd (json_text b x) \<notin> set '',]}''" if "x \<in> set ws" for x
      using json_text_head(1,3) [OF ok] that by blast
    show "x = y \<and> q = q'"
      if "x \<in> set vs" "y \<in> set ws" "delimited q" "delimited q'" "json_text a x @ q = json_text b y @ q'" for x y q q'
      using JArr.IH [OF that(1) ok ok that(3-5)] that by blast
  qed simp
  with w show ?case by simp
next
  case (JObj kvs)
  from json_kind_cases(6) [of w] same_kind [OF JObj.prems(1,2,5)] obtain kws where w: "w = JObj kws" by auto
  let ?f = "\<lambda>a (k, v). json_quote a k @ CHR '':'' # json_text a v"
  have "kvs = kws \<and> r = r'"
  proof (rule comma_prefix [where f = "?f a" and g = "?f b"])
    show "comma (map (?f a) kvs) @ CHR ''}'' # r = comma (map (?f b) kws) @ CHR ''}'' # r'"
      using JObj.prems(5) w by simp
    show "?f a x \<noteq> [] \<and> hd (?f a x) \<notin> set '',]}''" "?f b x \<noteq> [] \<and> hd (?f b x) \<notin> set '',]}''" for x
      by (auto simp: json_quote_def split: prod.splits)
    fix x y q q'
    assume xy: "x \<in> set kvs" "y \<in> set kws" "delimited q" "delimited q'" "?f a x @ q = ?f b y @ q'"
    obtain k v k' v' where p: "x = (k, v)" "y = (k', v')" by fastforce
    from xy(5) p json_quote_prefix [of a k "CHR '':'' # json_text a v @ q" b k' "CHR '':'' # json_text b v' @ q'"]
    have "k = k'" "json_text a v @ q = json_text b v' @ q'" by simp_all
    moreover have "json_ok v" "json_ok v'" using JObj.prems(1,2) w xy p by auto
    ultimately show "x = y \<and> q = q'" using JObj.IH [OF xy(1), of v v' q q'] xy p by auto
  qed simp
  with w show ?case by simp
next
  case JNull
  from same_kind [OF JNull.prems(1,2,5)] have "w = JNull" by (intro json_kind_cases) simp
  with JNull.prems(5) show ?case by simp
next
  case (JBool t)
  from same_kind [OF JBool.prems(1,2,5)] have "w = JBool t" by (intro json_kind_cases) simp
  with JBool.prems(5) show ?case by simp
qed

lemma json_text_inj: "json_ok v \<Longrightarrow> json_ok w \<Longrightarrow> json_text a v = json_text b w \<Longrightarrow> v = w"
  using json_text_prefix [of v w "[]" "[]" a b] by (simp add: delimited_def)

lemma word_of_nat_eq: "m < 256 \<Longrightarrow> n < 256 \<Longrightarrow> (of_nat m :: byte) = of_nat n \<Longrightarrow> m = n"
  by (simp add: word_of_nat_eq_iff take_bit_eq_mod)

lemma utf8_prefix: "utf8_char c @ x = utf8_char d @ y \<Longrightarrow> c = d \<and> x = y"
proof -
  assume eq: "utf8_char c @ x = utf8_char d @ y"
  let ?m = "of_char c :: nat" and ?n = "of_char d :: nat"
  have less: "?m < 256" "?n < 256" by simp_all
  have "?m = ?n \<and> x = y"
  proof (cases "?m < 128 \<longleftrightarrow> ?n < 128")
    case True
    show ?thesis
    proof (cases "?m < 128")
      case low: True
      with eq True have "(of_nat ?m :: byte) = of_nat ?n" "x = y" by (simp_all add: utf8_char_def Let_def)
      with word_of_nat_eq less show ?thesis by blast
    next
      case high: False
      with eq True have b: "(of_nat (192 + ?m div 64) :: byte) = of_nat (192 + ?n div 64)"
        "(of_nat (128 + ?m mod 64) :: byte) = of_nat (128 + ?n mod 64)" "x = y"
        unfolding utf8_char_def Let_def by auto
      have "192 + ?m div 64 = 192 + ?n div 64" by (rule word_of_nat_eq [OF _ _ b(1)]) (use less in linarith)+
      moreover have "128 + ?m mod 64 = 128 + ?n mod 64"
      proof (rule word_of_nat_eq [OF _ _ b(2)])
        show "128 + ?m mod 64 < 256" "128 + ?n mod 64 < 256"
          using mod_less_divisor [of 64 ?m] mod_less_divisor [of 64 ?n] by linarith+
      qed
      ultimately show ?thesis using b(3) by (metis add_left_imp_eq div_mult_mod_eq)
    qed
  next
    case False
    then have "\<exists>p q. p < 128 \<and> 128 \<le> q \<and> q < 256 \<and> (of_nat p :: byte) = of_nat (192 + q div 64)"
    proof (cases "?m < 128")
      case True
      with False eq less show ?thesis by (intro exI [of _ ?m] exI [of _ ?n]) (auto simp: utf8_char_def Let_def)
    next
      case m: False
      with False eq less show ?thesis by (intro exI [of _ ?n] exI [of _ ?m]) (auto simp: utf8_char_def Let_def)
    qed
    then obtain p q :: nat where pq: "p < 128" "q < 256" "(of_nat p :: byte) = of_nat (192 + q div 64)" by blast
    then have "p = 192 + q div 64" by (intro word_of_nat_eq) simp_all
    with pq show ?thesis by simp
  qed
  then show ?thesis by simp
qed

lemma utf8_inj: "utf8 s = utf8 t \<Longrightarrow> s = t"
proof (induction s arbitrary: t)
  case Nil
  then show ?case by (cases t) (auto simp: utf8_def utf8_char_def Let_def split: if_splits)
next
  case (Cons c s)
  show ?case
  proof (cases t)
    case Nil
    with Cons.prems show ?thesis by (simp add: utf8_def utf8_char_def Let_def split: if_splits)
  next
    case (Cons d u)
    with Cons.prems have "utf8_char c @ utf8 s = utf8_char d @ utf8 u" by (simp add: utf8_def)
    from utf8_prefix [OF this] Cons.IH [of u] Cons show ?thesis by simp
  qed
qed

text \<open>Sorting keeps values and their well-formedness; sorted values are left alone.\<close>

lemma sort_json_sorted: "json_sorted (sort_json v)"
proof (induction v)
  case (JObj kvs)
  then show ?case by (auto simp: case_prod_beta)
qed auto

lemma sort_json_ok: "json_ok v \<Longrightarrow> json_ok (sort_json v)"
proof (induction v)
  case (JObj kvs)
  let ?kvs = "map (\<lambda>(k, v). (k, sort_json v)) kvs"
  have "map fst ?kvs = map fst kvs" by (simp add: case_prod_beta)
  with JObj.prems have "distinct (map fst ?kvs)" by (simp only: json_ok.simps)
  then have "distinct (map fst (sort_key fst ?kvs))" by (simp only: distinct_map distinct_sort set_sort)
  with JObj show ?case by (auto simp: case_prod_beta)
qed auto

lemma sort_key_id: "sorted (map f xs) \<Longrightarrow> sort_key f xs = xs"
  by (induction xs) (auto simp: insort_is_Cons)

lemma sort_json_id: "json_sorted v \<Longrightarrow> sort_json v = v"
proof (induction v)
  case (JArr vs)
  then show ?case by (simp add: map_idI)
next
  case (JObj kvs)
  then have "map (\<lambda>(k, v). (k, sort_json v)) kvs = kvs" by (auto intro!: map_idI)
  with JObj.prems show ?case by (simp add: sort_key_id)
qed auto

text \<open>Documents with the same bytes hold the same values under the same keys.\<close>

lemma json_dumps_inj:
  assumes "json_ok v" "json_ok w" "utf8 (json_dumps a v) = utf8 (json_dumps b w)"
  shows "sort_json v = sort_json w"
  by (rule json_text_inj [OF sort_json_ok [OF assms(1)] sort_json_ok [OF assms(2)]
        utf8_inj [OF assms(3), unfolded json_dumps_def]])

lemma sort_key_fields:
  assumes "sort_key fst xs = sort_key fst ys" and "map fst xs = map fst ys" and "distinct (map fst xs)"
  shows "xs = ys"
proof (rule nth_equalityI)
  show len: "length xs = length ys" using assms(2) by (rule map_eq_imp_length_eq)
  fix i assume i: "i < length xs"
  have "set xs = set ys" using arg_cong [OF assms(1), of set] by simp
  moreover have "ys ! i \<in> set ys" using i len by (intro nth_mem) simp
  ultimately have mem: "xs ! i \<in> set xs" "ys ! i \<in> set xs" using nth_mem [OF i] by simp_all
  have key: "fst (xs ! i) = fst (ys ! i)" using arg_cong [OF assms(2), of "\<lambda>l. l ! i"] i len by simp
  have "(fst (xs ! i), snd (xs ! i)) \<in> set xs" using mem(1) by simp
  moreover have "(fst (xs ! i), snd (ys ! i)) \<in> set xs" using mem(2) unfolding key by simp
  ultimately have "snd (xs ! i) = snd (ys ! i)" by (rule eq_key_imp_eq_value [OF assms(3)])
  with key show "xs ! i = ys ! i" by (rule prod_eqI)
qed

text \<open>The fields of an object with known keys are determined by its bytes.\<close>

lemma json_object_inj:
  assumes "utf8 (json_dumps a (JObj xs)) = utf8 (json_dumps b (JObj ys))"
    and "map fst xs = map fst ys" "distinct (map fst xs)"
    and "\<forall>p \<in> set xs \<union> set ys. json_ok (snd p) \<and> json_sorted (snd p)"
  shows "xs = ys"
proof -
  have id: "map (\<lambda>(k, v). (k, sort_json v)) zs = zs" if "set zs \<subseteq> set xs \<union> set ys" for zs
  proof (rule map_idI)
    fix p assume "p \<in> set zs"
    with that assms(4) have "json_sorted (snd p)" by blast
    then show "(case p of (k, v) \<Rightarrow> (k, sort_json v)) = p" by (simp add: sort_json_id case_prod_beta)
  qed
  have "sort_json (JObj xs) = sort_json (JObj ys)"
    by (rule json_dumps_inj [OF _ _ assms(1)]) (use assms(2-4) in auto)
  then have "sort_key fst xs = sort_key fst ys" by (simp add: id)
  then show ?thesis by (rule sort_key_fields) (use assms in auto)
qed

lemma json_object_keys:
  assumes "utf8 (json_dumps a (JObj xs)) = utf8 (json_dumps b (JObj ys))"
    and "json_ok (JObj xs)" "json_ok (JObj ys)"
  shows "fst ` set xs = fst ` set ys"
proof -
  have keys: "fst ` set (sort_key fst (map (\<lambda>(k, v). (k, sort_json v)) zs)) = fst ` set zs" for zs
    by (force simp: image_iff)
  from json_dumps_inj [OF assms(2,3,1)]
  have "sort_key fst (map (\<lambda>(k, v). (k, sort_json v)) xs) = sort_key fst (map (\<lambda>(k, v). (k, sort_json v)) ys)"
    by simp
  then show ?thesis by (metis keys)
qed

end
