(* ===== verification/AuditChain.thy ===== *)
theory AuditChain
  imports Json Sha256 "HOL-Library.AList"
begin

text \<open>
  The hash-chained audit log: \<open>repositories/audit.py\<close> over the table \<open>audit_events\<close>. Events of a
  chain are numbered without gaps, and each entry digest authenticates the previous digest and the
  canonical bytes of the event. The caller's authenticator is the argument \<open>authenticate\<close>; what
  a \<open>JSONB\<close> column returns for the document stored in it is the argument \<open>jsonb\<close> (\<open>None\<close> when
  PostgreSQL refuses the document). JSON texts are represented by the values they denote; the
  text determines the value (\<open>Json\<close>).
\<close>

subsection \<open>Events and records\<close>

record ('j, 't) audit_fields =
  ev_event_id :: string
  ev_chain_id :: string
  ev_auth_principal :: string
  ev_agent_id :: "string option"
  ev_event_class :: string
  ev_action_type :: string
  ev_description :: string
  ev_conversation_id :: "string option"
  ev_correlation_id :: string
  ev_outcome :: string
  ev_outcome_detail :: "string option"
  ev_inputs :: 'j
  ev_outputs :: 'j
  ev_artifact_pointers :: 'j
  ev_started_at :: 't
  ev_completed_at :: "'t option"
  ev_key_id :: string
  ev_schema_version :: int

type_synonym audit_args = "(pyval, pytime) audit_fields"
type_synonym audit_event = "(json, instant) audit_fields"

record audit_record =
  au_event :: audit_event
  au_sequence :: int
  au_recorded_at :: instant
  au_previous_digest :: bytes
  au_entry_digest :: bytes

record audit_cursor =
  ac_recorded_at :: instant
  ac_event_id :: string

record audit_page =
  ap_records :: "audit_record list"
  ap_next_cursor :: "audit_cursor option"

record trajectory_event =
  te_agent_id :: string
  te_correlation_id :: string
  te_tool_name :: string

record chain_verification =
  cv_valid :: bool
  cv_first_invalid :: "string option"
  cv_reason :: "string option"
  cv_last_sequence :: int
  cv_last_digest :: bytes

definition GENESIS_DIGEST :: bytes where
  "GENESIS_DIGEST = replicate 32 0"

type_synonym authenticator = "string \<Rightarrow> bytes \<Rightarrow> bytes"

subsection \<open>Validation\<close>

definition audit_required :: "nat \<Rightarrow> string \<Rightarrow> bool" where
  "audit_required maximum s = (py_strip s \<noteq> [] \<and> length s \<le> maximum)"

fun audit_aware :: "pytime \<Rightarrow> instant res" where
  "audit_aware (Aware local offset) = Inr (local - offset)"
| "audit_aware (Naive _) = Inl PyValueError"

definition digest_bytes :: "bytes \<Rightarrow> bytes res" where
  "digest_bytes b = (if length b \<noteq> 32 then Inl PyValueError else Inr b)"

definition audit_outcomes :: "string list" where
  "audit_outcomes = [''in_progress'', ''success'', ''failure'', ''interrupted'']"

text \<open>\<open>AuditEvent.__post_init__\<close>, apart from the documents and the time zones.\<close>

definition event_fields_ok :: "('j, instant) audit_fields \<Rightarrow> bool" where
  "event_fields_ok e =
     (audit_required 128 (ev_event_id e) \<and> audit_required 512 (ev_chain_id e) \<and>
      audit_required 512 (ev_auth_principal e) \<and> audit_required 128 (ev_event_class e) \<and>
      audit_required 128 (ev_action_type e) \<and> audit_required 1024 (ev_description e) \<and>
      audit_required 128 (ev_correlation_id e) \<and> audit_required 128 (ev_key_id e) \<and>
      ev_outcome e \<in> set audit_outcomes \<and> ev_schema_version e \<in> {1, 2} \<and>
      (case ev_completed_at e of None \<Rightarrow> True | Some t \<Rightarrow> ev_started_at e \<le> t))"

text \<open>\<open>_normalize_json_value\<close>: a dictionary keeps one value per key.\<close>

fun normalize_json :: "pyval \<Rightarrow> json res"
  and normalize_items :: "pyval list \<Rightarrow> json list res"
  and normalize_entries :: "(string \<times> json) list \<Rightarrow> (pyval \<times> pyval) list \<Rightarrow> (string \<times> json) list res"
  where
  "normalize_json (PDict es) = (case normalize_entries [] es of Inl x \<Rightarrow> Inl x | Inr kvs \<Rightarrow> Inr (JObj kvs))"
| "normalize_json (PList vs) = (case normalize_items vs of Inl x \<Rightarrow> Inl x | Inr js \<Rightarrow> Inr (JArr js))"
| "normalize_json (PTuple vs) = (case normalize_items vs of Inl x \<Rightarrow> Inl x | Inr js \<Rightarrow> Inr (JArr js))"
| "normalize_json PNone = Inr JNull"
| "normalize_json (PStr s) = Inr (JStr s)"
| "normalize_json (PBool b) = Inr (JBool b)"
| "normalize_json (PInt i) = Inr (JInt i)"
| "normalize_json (PFloat x) =
     (case x of Finite m e \<Rightarrow> Inr (JFloat (float_repr x)) | _ \<Rightarrow> Inl PyValueError)"
| "normalize_json PContainer = Inl PyTypeError"
| "normalize_json PObject = Inl PyTypeError"
| "normalize_items [] = Inr []"
| "normalize_items (v # vs) =
     (case normalize_json v of Inl x \<Rightarrow> Inl x
      | Inr j \<Rightarrow> (case normalize_items vs of Inl x \<Rightarrow> Inl x | Inr js \<Rightarrow> Inr (j # js)))"
| "normalize_entries done [] = Inr done"
| "normalize_entries done ((k, v) # es) =
     (case k of
        PStr key \<Rightarrow>
          (case normalize_json v of Inl x \<Rightarrow> Inl x
           | Inr j \<Rightarrow> normalize_entries (AList.update key j done) es)
      | _ \<Rightarrow> Inl PyTypeError)"

text \<open>\<open>str\<close> of an integer fails beyond 4300 digits.\<close>

definition INT_STR_LIMIT :: int where
  "INT_STR_LIMIT = 10 ^ 4300"

fun ints_printable :: "json \<Rightarrow> bool" where
  "ints_printable (JInt i) = (abs i < INT_STR_LIMIT)"
| "ints_printable (JArr vs) = (\<forall>v \<in> set vs. ints_printable v)"
| "ints_printable (JObj kvs) = (\<forall>p \<in> set kvs. ints_printable (snd p))"
| "ints_printable _ = True"

datatype json_type = DictType | ListType

fun json_has_type :: "json_type \<Rightarrow> json \<Rightarrow> bool" where
  "json_has_type DictType (JObj kvs) = True"
| "json_has_type ListType (JArr vs) = True"
| "json_has_type _ _ = False"

definition printed_json :: "json_type \<Rightarrow> json \<Rightarrow> json res" where
  "printed_json expected v =
     (if json_has_type expected v \<and> ints_printable v then Inr (sort_json v) else Inl PyValueError)"

text \<open>\<open>canonical_json\<close> of a parsed document; the result stands for its compact sorted text.\<close>

definition canonical_json :: "json_type \<Rightarrow> pyval \<Rightarrow> json res" where
  "canonical_json expected v =
     (case normalize_json v of Inl _ \<Rightarrow> Inl PyValueError | Inr j \<Rightarrow> printed_json expected j)"

definition optional_aware :: "pytime option \<Rightarrow> instant option res" where
  "optional_aware t =
     (case t of None \<Rightarrow> Inr None | Some p \<Rightarrow> (case audit_aware p of Inl x \<Rightarrow> Inl x | Inr i \<Rightarrow> Inr (Some i)))"

text \<open>The same fields with other documents and times.\<close>

definition with_values ::
  "'k \<Rightarrow> 'k \<Rightarrow> 'k \<Rightarrow> 'u \<Rightarrow> 'u option \<Rightarrow> ('j, 't) audit_fields \<Rightarrow> ('k, 'u) audit_fields" where
  "with_values i p q started completed e =
     \<lparr>ev_event_id = ev_event_id e, ev_chain_id = ev_chain_id e, ev_auth_principal = ev_auth_principal e,
      ev_agent_id = ev_agent_id e, ev_event_class = ev_event_class e, ev_action_type = ev_action_type e,
      ev_description = ev_description e, ev_conversation_id = ev_conversation_id e,
      ev_correlation_id = ev_correlation_id e, ev_outcome = ev_outcome e,
      ev_outcome_detail = ev_outcome_detail e, ev_inputs = i, ev_outputs = p, ev_artifact_pointers = q,
      ev_started_at = started, ev_completed_at = completed, ev_key_id = ev_key_id e,
      ev_schema_version = ev_schema_version e\<rparr>"

definition make_event :: "audit_args \<Rightarrow> audit_event res" where
  "make_event a =
     (case audit_aware (ev_started_at a) of Inl x \<Rightarrow> Inl x | Inr started \<Rightarrow>
      (case optional_aware (ev_completed_at a) of Inl x \<Rightarrow> Inl x | Inr completed \<Rightarrow>
       (case canonical_json DictType (ev_inputs a) of Inl x \<Rightarrow> Inl x | Inr i \<Rightarrow>
        (case canonical_json DictType (ev_outputs a) of Inl x \<Rightarrow> Inl x | Inr p \<Rightarrow>
         (case canonical_json ListType (ev_artifact_pointers a) of Inl x \<Rightarrow> Inl x | Inr q \<Rightarrow>
          let e = with_values i p q started completed a
          in if event_fields_ok e then Inr e else Inl PyValueError)))))"

definition make_record :: "audit_event \<Rightarrow> int \<Rightarrow> instant \<Rightarrow> bytes \<Rightarrow> bytes \<Rightarrow> audit_record res" where
  "make_record e n at prev entry =
     (if 0 < n \<and> length prev = 32 \<and> length entry = 32
      then Inr \<lparr>au_event = e, au_sequence = n, au_recorded_at = at, au_previous_digest = prev,
                au_entry_digest = entry\<rparr>
      else Inl PyValueError)"

subsection \<open>Canonical bytes\<close>

fun json_option :: "string option \<Rightarrow> json" where
  "json_option None = JNull"
| "json_option (Some s) = JStr s"

definition utc_iso :: "instant \<Rightarrow> string" where
  "utc_iso t = iso_text t @ ''Z''"

text \<open>\<open>astimezone(UTC)\<close> overflows outside the years 1 to 9999.\<close>

definition event_times_ok :: "audit_event \<Rightarrow> bool" where
  "event_times_ok e =
     (in_datetime_range (ev_started_at e) \<and>
      (case ev_completed_at e of None \<Rightarrow> True | Some t \<Rightarrow> in_datetime_range t))"

text \<open>The fields both versions hold; they differ in the rendering of the times.\<close>

definition common_fields :: "(instant \<Rightarrow> string) \<Rightarrow> audit_event \<Rightarrow> (string \<times> json) list" where
  "common_fields fmt e =
     [(''event_id'', JStr (ev_event_id e)),
      (''actor_user_id'', JStr (ev_chain_id e)),
      (''auth_principal'', JStr (ev_auth_principal e)),
      (''agent_id'', json_option (ev_agent_id e)),
      (''event_class'', JStr (ev_event_class e)),
      (''action_type'', JStr (ev_action_type e)),
      (''description'', JStr (ev_description e)),
      (''conversation_id'', json_option (ev_conversation_id e)),
      (''correlation_id'', JStr (ev_correlation_id e)),
      (''outcome'', JStr (ev_outcome e)),
      (''outcome_detail'', json_option (ev_outcome_detail e)),
      (''inputs_meta'', ev_inputs e),
      (''outputs_meta'', ev_outputs e),
      (''artifact_pointers'', ev_artifact_pointers e),
      (''started_at'', JStr (fmt (ev_started_at e))),
      (''completed_at'', json_option (map_option fmt (ev_completed_at e)))]"

definition canonical_event_v1 :: "audit_event \<Rightarrow> bytes res" where
  "canonical_event_v1 e =
     (if event_times_ok e
      then Inr (utf8 (json_dumps True (JObj ((''schema_version'', JInt 1) #
             common_fields (\<lambda>t. iso_text t @ ''+00:00'') e))))
      else Inl PyOverflowError)"

definition canonical_event_bytes :: "audit_event \<Rightarrow> int \<Rightarrow> bytes res" where
  "canonical_event_bytes e n =
     (if n \<le> 0 then Inl PyValueError
      else if ev_schema_version e = 1 then canonical_event_v1 e
      else if ev_schema_version e \<noteq> 2 then Inl PyValueError
      else if event_times_ok e
      then Inr (utf8 (json_dumps False (JObj ((''schema_version'', JInt (ev_schema_version e)) #
             (''chain_sequence'', JInt n) # common_fields utc_iso e))))
      else Inl PyOverflowError)"

definition authenticated :: "authenticator \<Rightarrow> string \<Rightarrow> bytes \<Rightarrow> bytes res" where
  "authenticated authenticate key_id payload = digest_bytes (authenticate key_id payload)"

text \<open>\<open>previous_digest + canonical_event_bytes(event, sequence)\<close>, authenticated.\<close>

definition entry_digest :: "authenticator \<Rightarrow> string \<Rightarrow> bytes \<Rightarrow> audit_event \<Rightarrow> int \<Rightarrow> bytes res" where
  "entry_digest authenticate key_id prev e n =
     (case canonical_event_bytes e n of Inl x \<Rightarrow> Inl x
      | Inr b \<Rightarrow> authenticated authenticate key_id (prev @ b))"

subsection \<open>Stored rows\<close>

text \<open>
  Input of a \<open>UUID\<close> column: 32 hexadecimal digits in either case, with optional braces around them
  and an optional hyphen after each group of four but the last; the column returns the lower-case
  form with hyphens.
\<close>

definition hex_digit_char :: "char \<Rightarrow> bool" where
  "hex_digit_char c = (py_lower_char c \<in> set hex_chars)"

fun uuid_digits :: "nat \<Rightarrow> string \<Rightarrow> string \<Rightarrow> string option" where
  "uuid_digits 0 s close = (if s = close then Some [] else None)"
| "uuid_digits (Suc n) (a # b # c # d # s) close =
     (if \<forall>x \<in> {a, b, c, d}. hex_digit_char x
      then map_option (\<lambda>t. map py_lower_char [a, b, c, d] @ t)
             (uuid_digits n (case s of CHR ''-'' # u \<Rightarrow> if n = 0 then s else u | _ \<Rightarrow> s) close)
      else None)"
| "uuid_digits (Suc n) _ close = None"

definition pg_uuid :: "string \<Rightarrow> string option" where
  "pg_uuid s =
     map_option (\<lambda>d. take 8 d @ ''-'' @ take 4 (drop 8 d) @ ''-'' @ take 4 (drop 12 d) @ ''-'' @
         take 4 (drop 16 d) @ ''-'' @ drop 20 d)
       (case s of CHR ''{'' # u \<Rightarrow> uuid_digits 8 u ''}'' | _ \<Rightarrow> uuid_digits 8 s [])"

record audit_row =
  ar_event :: audit_event  \<comment> \<open>the columns of the event as the driver returns them\<close>
  ar_sequence :: int
  ar_recorded_at :: instant
  ar_prev_hash :: bytes
  ar_entry_hash :: bytes

definition optional_text :: "string option \<Rightarrow> bool" where
  "optional_text s = (case s of None \<Rightarrow> True | Some t \<Rightarrow> pg_text t)"

definition audit_row_ok :: "audit_row \<Rightarrow> bool" where
  "audit_row_ok r =
     (let e = ar_event r
      in pg_uuid (ev_event_id e) = Some (ev_event_id e) \<and> pg_uuid (ev_correlation_id e) = Some (ev_correlation_id e) \<and>
         pg_text (ev_chain_id e) \<and> pg_text (ev_auth_principal e) \<and> optional_text (ev_agent_id e) \<and>
         pg_text (ev_event_class e) \<and> pg_text (ev_action_type e) \<and> pg_text (ev_description e) \<and>
         optional_text (ev_conversation_id e) \<and> pg_text (ev_outcome e) \<and>
         optional_text (ev_outcome_detail e) \<and> pg_text (ev_key_id e) \<and>
         ev_outcome e \<in> set audit_outcomes \<and> 0 < ar_sequence r \<and> ar_sequence r \<le> MAX_BIGINT \<and>
         length (ar_prev_hash r) = 32 \<and> length (ar_entry_hash r) = 32 \<and> ev_schema_version e \<in> {1, 2})"

definition audit_conflict :: "audit_row \<Rightarrow> audit_row \<Rightarrow> bool" where
  "audit_conflict r s =
     (ev_event_id (ar_event r) = ev_event_id (ar_event s) \<or>
      ev_chain_id (ar_event r) = ev_chain_id (ar_event s) \<and> ar_sequence r = ar_sequence s)"

text \<open>The columns of an inserted event.\<close>

definition stored_event :: "(json \<Rightarrow> json option) \<Rightarrow> audit_event \<Rightarrow> audit_event option" where
  "stored_event jsonb e =
     (case (pg_uuid (ev_event_id e), pg_uuid (ev_correlation_id e), jsonb (ev_inputs e),
            jsonb (ev_outputs e), jsonb (ev_artifact_pointers e)) of
        (Some eid, Some cid, Some i, Some p, Some q) \<Rightarrow>
          Some (e\<lparr>ev_event_id := eid, ev_correlation_id := cid, ev_inputs := i, ev_outputs := p,
                  ev_artifact_pointers := q\<rparr>)
      | _ \<Rightarrow> None)"

fun json_falsy :: "json \<Rightarrow> bool" where
  "json_falsy JNull = True"
| "json_falsy (JBool b) = (\<not> b)"
| "json_falsy (JInt i) = (i = 0)"
| "json_falsy (JFloat t) = (t = ''0.0'' \<or> t = ''-0.0'')"
| "json_falsy (JStr s) = (s = [])"
| "json_falsy (JArr vs) = (vs = [])"
| "json_falsy (JObj kvs) = (kvs = [])"

definition row_json :: "json_type \<Rightarrow> json \<Rightarrow> json res" where
  "row_json expected v =
     printed_json expected
       (if json_falsy v then (case expected of DictType \<Rightarrow> JObj [] | ListType \<Rightarrow> JArr []) else v)"

definition audit_record_of :: "audit_row \<Rightarrow> audit_record res" where
  "audit_record_of r =
     (case row_json DictType (ev_inputs (ar_event r)) of Inl x \<Rightarrow> Inl x | Inr i \<Rightarrow>
      (case row_json DictType (ev_outputs (ar_event r)) of Inl x \<Rightarrow> Inl x | Inr p \<Rightarrow>
       (case row_json ListType (ev_artifact_pointers (ar_event r)) of Inl x \<Rightarrow> Inl x | Inr q \<Rightarrow>
        let e = (ar_event r)\<lparr>ev_inputs := i, ev_outputs := p, ev_artifact_pointers := q\<rparr>
        in if event_fields_ok e
           then make_record e (ar_sequence r) (ar_recorded_at r) (ar_prev_hash r) (ar_entry_hash r)
           else Inl PyValueError)))"

subsection \<open>The repository\<close>

abbreviation chain_of :: "audit_row \<Rightarrow> string" where
  "chain_of r \<equiv> ev_chain_id (ar_event r)"

definition find_event_sql ::
  "string \<Rightarrow> string \<Rightarrow> audit_row list \<Rightarrow> sql_error + audit_row option \<times> audit_row list" where
  "find_event_sql chain_id event_id t =
     (case pg_uuid event_id of
        None \<Rightarrow> Inl InvalidTextRepresentation
      | Some u \<Rightarrow> Inr (List.find (\<lambda>r. chain_of r = chain_id \<and> ev_event_id (ar_event r) = u) t, t))"

definition last_row :: "string \<Rightarrow> audit_row list \<Rightarrow> audit_row option" where
  "last_row chain_id t = first_row (sql_page_desc (\<lambda>r. chain_of r = chain_id) ar_sequence 1 t)"

definition insert_event_sql ::
  "(json \<Rightarrow> json option) \<Rightarrow> instant \<Rightarrow> audit_event \<Rightarrow> int \<Rightarrow> bytes \<Rightarrow> bytes \<Rightarrow> audit_row list
     \<Rightarrow> sql_error + audit_row \<times> audit_row list" where
  "insert_event_sql jsonb clock e n prev entry t =
     (case stored_event jsonb e of
        None \<Rightarrow> Inl InvalidTextRepresentation
      | Some columns \<Rightarrow>
          sql_insert audit_row_ok audit_conflict
            \<lparr>ar_event = columns, ar_sequence = n, ar_recorded_at = clock, ar_prev_hash = prev,
             ar_entry_hash = entry\<rparr> t)"

definition append_existing ::
  "authenticator \<Rightarrow> audit_event \<Rightarrow> audit_row \<Rightarrow> (audit_row list, audit_record) tx" where
  "append_existing authenticate event row =
     tx_bind (tx_lift (audit_record_of row)) (\<lambda>record.
     tx_bind (tx_lift (entry_digest authenticate (ev_key_id (au_event record)) (au_previous_digest record)
         event (au_sequence record))) (\<lambda>expected.
     if au_event record \<noteq> event \<or> au_entry_digest record \<noteq> expected
     then tx_raise (err_code PlaneError ''audit_idempotency_conflict'')
     else tx_return record))"

definition append_event ::
  "authenticator \<Rightarrow> (json \<Rightarrow> json option) \<Rightarrow> instant \<Rightarrow> audit_event \<Rightarrow> (audit_row list, audit_record) tx" where
  "append_event authenticate jsonb clock event =
     tx_bind (tx_stmt (find_event_sql (ev_chain_id event) (ev_event_id event))) (\<lambda>existing.
     case existing of
       Some row \<Rightarrow> append_existing authenticate event row
     | None \<Rightarrow>
       tx_bind (tx_read (last_row (ev_chain_id event))) (\<lambda>previous.
       let sequence = (case previous of None \<Rightarrow> 1 | Some r \<Rightarrow> ar_sequence r + 1);
           previous_digest = (case previous of None \<Rightarrow> GENESIS_DIGEST | Some r \<Rightarrow> ar_entry_hash r)
       in tx_bind (tx_lift (entry_digest authenticate (ev_key_id event) previous_digest event sequence))
            (\<lambda>entry.
          tx_bind (tx_stmt (insert_event_sql jsonb clock event sequence previous_digest entry)) (\<lambda>row.
          tx_bind (tx_lift (audit_record_of row)) (\<lambda>record.
          if au_sequence record \<noteq> sequence \<or> au_previous_digest record \<noteq> previous_digest \<or>
             au_entry_digest record \<noteq> entry
          then tx_raise (err_code PlaneError ''audit_append_inconsistent'')
          else tx_return record)))))"

definition get_event :: "string \<Rightarrow> string \<Rightarrow> (audit_row list, audit_record option) tx" where
  "get_event chain_id event_id =
     tx_bind (tx_stmt (find_event_sql chain_id event_id)) (\<lambda>row.
     case row of None \<Rightarrow> tx_return None
     | Some r \<Rightarrow> tx_bind (tx_lift (audit_record_of r)) (\<lambda>record. tx_return (Some record)))"

text \<open>UUIDs compare like their lower-case texts.\<close>

abbreviation chain_key :: "audit_row \<Rightarrow> int \<times> string" where
  "chain_key r \<equiv> (ar_sequence r, ev_event_id (ar_event r))"

definition list_for_chain :: "string \<Rightarrow> int \<Rightarrow> int \<Rightarrow> (audit_row list, audit_record list) tx" where
  "list_for_chain chain_id after_sequence limit =
     tx_bind (tx_require (0 \<le> after_sequence) PyValueError) (\<lambda>_.
     tx_bind (tx_require (1 \<le> limit \<and> limit \<le> 1000) PyValueError) (\<lambda>_.
     tx_bind (tx_read (sql_page (\<lambda>r. chain_of r = chain_id \<and> after_sequence < ar_sequence r)
         chain_key (nat limit))) (\<lambda>rows.
     tx_lift (traverse audit_record_of rows))))"

definition load_chain :: "string \<Rightarrow> int \<Rightarrow> (audit_row list, audit_record list) tx" where
  "load_chain chain_id start_sequence =
     tx_bind (tx_require (0 < start_sequence) PyValueError) (\<lambda>_.
     tx_bind (tx_read (\<lambda>t. sort_key chain_key
         (filter (\<lambda>r. chain_of r = chain_id \<and> start_sequence \<le> ar_sequence r) t))) (\<lambda>rows.
     tx_lift (traverse audit_record_of rows)))"

fun verify_loop ::
  "authenticator \<Rightarrow> string \<Rightarrow> int \<Rightarrow> bytes \<Rightarrow> audit_record list \<Rightarrow> chain_verification res" where
  "verify_loop authenticate chain_id expected_sequence previous_digest [] =
     Inr \<lparr>cv_valid = True, cv_first_invalid = None, cv_reason = None,
          cv_last_sequence = expected_sequence - 1, cv_last_digest = previous_digest\<rparr>"
| "verify_loop authenticate chain_id expected_sequence previous_digest (record # records) =
     (let invalid = (\<lambda>reason. Inr \<lparr>cv_valid = False,
            cv_first_invalid = Some (ev_event_id (au_event record)), cv_reason = Some reason,
            cv_last_sequence = expected_sequence - 1, cv_last_digest = previous_digest\<rparr>)
      in if ev_chain_id (au_event record) \<noteq> chain_id then invalid ''wrong_chain''
         else if au_sequence record \<noteq> expected_sequence then invalid ''non_contiguous_sequence''
         else if au_previous_digest record \<noteq> previous_digest then invalid ''previous_digest_mismatch''
         else case entry_digest authenticate (ev_key_id (au_event record)) previous_digest
                (au_event record) (au_sequence record) of
           Inl x \<Rightarrow> Inl x
         | Inr expected \<Rightarrow>
             if au_entry_digest record \<noteq> expected then invalid ''entry_digest_mismatch''
             else verify_loop authenticate chain_id (expected_sequence + 1) (au_entry_digest record) records)"

definition verify_records ::
  "authenticator \<Rightarrow> string \<Rightarrow> int \<Rightarrow> bytes \<Rightarrow> audit_record list \<Rightarrow> chain_verification res" where
  "verify_records authenticate chain_id start_sequence expected_previous_digest records =
     (case digest_bytes expected_previous_digest of Inl x \<Rightarrow> Inl x
      | Inr prev \<Rightarrow> verify_loop authenticate chain_id start_sequence prev records)"

definition verify_chain ::
  "authenticator \<Rightarrow> string \<Rightarrow> int \<Rightarrow> bytes \<Rightarrow> (audit_row list, chain_verification) tx" where
  "verify_chain authenticate chain_id start_sequence expected_previous_digest =
     tx_bind (tx_lift (digest_bytes expected_previous_digest)) (\<lambda>_.
     tx_bind (load_chain chain_id start_sequence) (\<lambda>records.
     tx_lift (verify_records authenticate chain_id start_sequence expected_previous_digest records)))"

subsection \<open>The canonical bytes cover the event\<close>

definition document_ok :: "json \<Rightarrow> bool" where
  "document_ok v = (json_ok v \<and> json_sorted v)"

definition documents_ok :: "audit_event \<Rightarrow> bool" where
  "documents_ok e =
     (document_ok (ev_inputs e) \<and> document_ok (ev_outputs e) \<and> document_ok (ev_artifact_pointers e))"

lemma json_option_ok [simp]: "json_ok (json_option s)" "json_sorted (json_option s)"
  by (cases s; simp)+

lemma json_option_eq [simp]: "json_option s = json_option t \<longleftrightarrow> s = t"
  by (cases s; cases t) auto

lemma common_fields_ok:
  assumes "documents_ok e"
  shows "distinct (map fst (common_fields f e))"
    and "''schema_version'' \<notin> set (map fst (common_fields f e))"
    and "''chain_sequence'' \<notin> set (map fst (common_fields f e))"
    and "\<forall>p \<in> set (common_fields f e). json_ok (snd p) \<and> json_sorted (snd p)"
  using assms by (simp_all add: common_fields_def documents_ok_def document_ok_def)

lemma common_fields_keys: "map fst (common_fields f e) = map fst (common_fields g e')"
  by (simp add: common_fields_def)

lemma common_fields_inj:
  assumes "common_fields f e = common_fields f e'"
    and f: "\<And>t t'. in_datetime_range t \<Longrightarrow> in_datetime_range t' \<Longrightarrow> f t = f t' \<Longrightarrow> t = t'"
    and "event_times_ok e" "event_times_ok e'" "ev_schema_version e = ev_schema_version e'"
  shows "e' = e\<lparr>ev_key_id := ev_key_id e'\<rparr>"
proof -
  have "ev_started_at e = ev_started_at e'"
    using assms by (intro f) (simp_all add: event_times_ok_def common_fields_def)
  moreover have "ev_completed_at e = ev_completed_at e'"
    using assms(1,3,4) f [of "the (ev_completed_at e)" "the (ev_completed_at e')"]
    by (cases "ev_completed_at e"; cases "ev_completed_at e'") (simp_all add: event_times_ok_def common_fields_def)
  ultimately show ?thesis using assms(1,5)
    by (cases e; cases e') (simp add: common_fields_def)
qed

text \<open>The document of an event: what \<open>canonical_event_bytes\<close> prints.\<close>

definition event_document :: "audit_event \<Rightarrow> int \<Rightarrow> (string \<times> json) list" where
  "event_document e n =
     (if ev_schema_version e = 1
      then (''schema_version'', JInt 1) # common_fields (\<lambda>t. iso_text t @ ''+00:00'') e
      else (''schema_version'', JInt 2) # (''chain_sequence'', JInt n) # common_fields utc_iso e)"

lemma canonical_event_Inr:
  "canonical_event_bytes e n = Inr b \<longleftrightarrow>
     0 < n \<and> ev_schema_version e \<in> {1, 2} \<and> event_times_ok e \<and>
     b = utf8 (json_dumps (ev_schema_version e = 1) (JObj (event_document e n)))"
  by (auto simp: canonical_event_bytes_def canonical_event_v1_def event_document_def)

lemma event_document_ok:
  assumes "documents_ok e"
  shows "distinct (map fst (event_document e n))"
    and "\<forall>p \<in> set (event_document e n). json_ok (snd p) \<and> json_sorted (snd p)"
    and "json_ok (JObj (event_document e n))"
  using common_fields_ok [OF assms] by (auto simp: event_document_def)

lemma canonical_event_inj:
  assumes "documents_ok e" "documents_ok e'"
    and "canonical_event_bytes e n = Inr b" "canonical_event_bytes e' n' = Inr b"
  shows "e' = e\<lparr>ev_key_id := ev_key_id e'\<rparr> \<and> (ev_schema_version e = 2 \<longrightarrow> n = n')"
proof -
  note ok = event_document_ok [OF assms(1), of n] and ok' = event_document_ok [OF assms(2), of n']
  from assms(3,4) have v: "ev_schema_version e \<in> {1, 2}" "ev_schema_version e' \<in> {1, 2}"
    and times: "event_times_ok e" "event_times_ok e'"
    and eq: "utf8 (json_dumps (ev_schema_version e = 1) (JObj (event_document e n))) =
      utf8 (json_dumps (ev_schema_version e' = 1) (JObj (event_document e' n')))"
    by (auto simp: canonical_event_Inr)
  have names: "fst ` set (event_document e n) = fst ` set (event_document e' n')"
    by (rule json_object_keys [OF eq ok(3) ok'(3)])
  have c: "''chain_sequence'' \<in> fst ` set (event_document x m) \<longleftrightarrow> ev_schema_version x \<noteq> 1" for x m
    by (simp add: event_document_def common_fields_def)
  have "ev_schema_version e \<noteq> 1 \<longleftrightarrow> ev_schema_version e' \<noteq> 1"
    by (simp only: c [of e n, symmetric] c [of e' n', symmetric] names)
  with v have same: "ev_schema_version e = ev_schema_version e'" by auto
  have keys: "map fst (event_document e n) = map fst (event_document e' n')"
    unfolding event_document_def same by (simp add: common_fields_def)
  have doc: "event_document e n = event_document e' n'"
    by (rule json_object_inj [OF eq keys ok(1)]) (use ok(2) ok'(2) in blast)
  have z: "t = t'" if "in_datetime_range t" "in_datetime_range t'" "utc_iso t = utc_iso t'" for t t'
    using that iso_text_inj by (simp add: utc_iso_def)
  have y: "t = t'" if "in_datetime_range t" "in_datetime_range t'"
      "iso_text t @ ''+00:00'' = iso_text t' @ ''+00:00''" for t t'
    using that iso_text_inj by simp
  show ?thesis
  proof (cases "ev_schema_version e = 1")
    case True
    with doc same have "common_fields (\<lambda>t. iso_text t @ ''+00:00'') e = common_fields (\<lambda>t. iso_text t @ ''+00:00'') e'"
      by (simp add: event_document_def)
    from common_fields_inj [OF this y times same] have "e' = e\<lparr>ev_key_id := ev_key_id e'\<rparr>" .
    moreover have "ev_schema_version e \<noteq> 2" by (simp add: \<open>ev_schema_version e = 1\<close>)
    ultimately show ?thesis by blast
  next
    case False
    with doc same have "common_fields utc_iso e = common_fields utc_iso e'" "n = n'"
      by (simp_all add: event_document_def)
    from common_fields_inj [OF this(1) z times same] have "e' = e\<lparr>ev_key_id := ev_key_id e'\<rparr>" .
    with \<open>n = n'\<close> show ?thesis by blast
  qed
qed

subsection \<open>What a verified chain commits to\<close>

definition entry_verifies :: "authenticator \<Rightarrow> string \<Rightarrow> int \<Rightarrow> bytes \<Rightarrow> audit_record \<Rightarrow> bool" where
  "entry_verifies authenticate chain_id n p r \<longleftrightarrow>
     ev_chain_id (au_event r) = chain_id \<and> au_sequence r = n \<and> au_previous_digest r = p \<and>
     entry_digest authenticate (ev_key_id (au_event r)) p (au_event r) n = Inr (au_entry_digest r)"

abbreviation verified :: "int \<Rightarrow> bytes \<Rightarrow> chain_verification" where
  "verified n d \<equiv> \<lparr>cv_valid = True, cv_first_invalid = None, cv_reason = None, cv_last_sequence = n,
      cv_last_digest = d\<rparr>"

lemma verify_loop_Cons:
  "verify_loop A c n p (r # rs) = Inr v \<and> cv_valid v \<longleftrightarrow>
     entry_verifies A c n p r \<and> verify_loop A c (n + 1) (au_entry_digest r) rs = Inr v \<and> cv_valid v"
  by (auto simp: entry_verifies_def Let_def split: if_splits sum.splits)

declare verify_loop.simps(2) [simp del]

lemma verify_loop_append:
  "verify_loop A c n p (rs @ qs) = Inr v \<and> cv_valid v \<longleftrightarrow>
     (\<exists>d. verify_loop A c n p rs = Inr (verified (n + int (length rs) - 1) d) \<and>
          verify_loop A c (n + int (length rs)) d qs = Inr v \<and> cv_valid v)"
proof (induction rs arbitrary: n p)
  case (Cons r rs)
  have "verify_loop A c n p ((r # rs) @ qs) = Inr v \<and> cv_valid v \<longleftrightarrow>
      entry_verifies A c n p r \<and> verify_loop A c (n + 1) (au_entry_digest r) (rs @ qs) = Inr v \<and> cv_valid v"
    using verify_loop_Cons [of A c n p r "rs @ qs" v] by simp
  also have "\<dots> \<longleftrightarrow> (\<exists>d. entry_verifies A c n p r \<and>
      verify_loop A c (n + 1) (au_entry_digest r) rs = Inr (verified (n + int (length rs)) d) \<and>
      verify_loop A c (n + 1 + int (length rs)) d qs = Inr v \<and> cv_valid v)"
    using Cons.IH [of "n + 1" "au_entry_digest r"] by simp
  also have "\<dots> \<longleftrightarrow> (\<exists>d. verify_loop A c n p (r # rs) = Inr (verified (n + int (length rs)) d) \<and>
      verify_loop A c (n + 1 + int (length rs)) d qs = Inr v \<and> cv_valid v)"
    using verify_loop_Cons [of A c n p r rs "verified (n + int (length rs)) d" for d] by simp
  finally show ?case by (simp add: algebra_simps)
qed auto

lemma verify_loop_valid:
  "verify_loop A c n p rs = Inr v \<Longrightarrow> cv_valid v \<Longrightarrow> v = verified (n + int (length rs) - 1) (cv_last_digest v)"
  using verify_loop_append [of A c n p rs "[]" v] by auto

lemma entry_digest_length: "entry_digest A k p e n = Inr d \<Longrightarrow> length d = 32"
  by (auto simp: entry_digest_def authenticated_def digest_bytes_def split: sum.splits if_splits)

lemma verify_loop_digest_length:
  "verify_loop A c n p rs = Inr v \<Longrightarrow> cv_valid v \<Longrightarrow> length p = 32 \<Longrightarrow> length (cv_last_digest v) = 32"
proof (induction rs arbitrary: n p)
  case (Cons r rs)
  from verify_loop_Cons [of A c n p r rs v] Cons.prems
  have r: "entry_verifies A c n p r" and rs: "verify_loop A c (n + 1) (au_entry_digest r) rs = Inr v" by auto
  from r have "length (au_entry_digest r) = 32" by (auto simp: entry_verifies_def dest: entry_digest_length)
  with Cons.IH [OF rs] Cons.prems show ?case by simp
qed auto

text \<open>What a record authenticates.\<close>

definition entry_payload :: "audit_record \<Rightarrow> bytes" where
  "entry_payload r =
     au_previous_digest r @
     (case canonical_event_bytes (au_event r) (au_sequence r) of Inl _ \<Rightarrow> [] | Inr b \<Rightarrow> b)"

definition same_entry :: "audit_record \<Rightarrow> audit_record \<Rightarrow> bool" where
  "same_entry r r' \<longleftrightarrow>
     au_event r' = (au_event r)\<lparr>ev_key_id := ev_key_id (au_event r')\<rparr> \<and> au_sequence r' = au_sequence r \<and>
     au_previous_digest r' = au_previous_digest r \<and> au_entry_digest r' = au_entry_digest r"

lemma entry_commits:
  assumes "entry_verifies A c n p r" "entry_verifies A c n p' r'"
    and "length p = 32" "length p' = 32" and "au_entry_digest r = au_entry_digest r'"
    and "documents_ok (au_event r)" "documents_ok (au_event r')"
    and free: "A (ev_key_id (au_event r)) (entry_payload r) = A (ev_key_id (au_event r')) (entry_payload r') \<Longrightarrow>
      entry_payload r = entry_payload r'"
  shows "same_entry r r'"
proof -
  from assms(1) obtain b where b: "canonical_event_bytes (au_event r) n = Inr b"
      "A (ev_key_id (au_event r)) (p @ b) = au_entry_digest r"
    and r: "au_sequence r = n" "au_previous_digest r = p"
    by (auto simp: entry_verifies_def entry_digest_def authenticated_def digest_bytes_def split: sum.splits if_splits)
  from assms(2) obtain b' where b': "canonical_event_bytes (au_event r') n = Inr b'"
      "A (ev_key_id (au_event r')) (p' @ b') = au_entry_digest r'"
    and r': "au_sequence r' = n" "au_previous_digest r' = p'"
    by (auto simp: entry_verifies_def entry_digest_def authenticated_def digest_bytes_def split: sum.splits if_splits)
  have pay: "entry_payload r = p @ b" "entry_payload r' = p' @ b'"
    using b b' r r' by (simp_all add: entry_payload_def)
  have "p @ b = p' @ b'" using free assms(5) b(2) b'(2) unfolding pay by simp
  with assms(3,4) have "p = p'" "b = b'" by simp_all
  with canonical_event_inj [OF assms(6,7) b(1)] b'(1) r r' assms(5) show ?thesis
    by (simp add: same_entry_def)
qed

lemma verify_loop_commits:
  assumes "verify_loop A c n p rs = Inr v" "cv_valid v" "verify_loop A c n p' rs' = Inr v'" "cv_valid v'"
    and "cv_last_digest v = cv_last_digest v'" "length rs = length rs'" "length p = 32" "length p' = 32"
    and "\<forall>r \<in> set rs \<union> set rs'. documents_ok (au_event r)"
    and "\<And>r r'. r \<in> set rs \<Longrightarrow> r' \<in> set rs' \<Longrightarrow>
      A (ev_key_id (au_event r)) (entry_payload r) = A (ev_key_id (au_event r')) (entry_payload r') \<Longrightarrow>
      entry_payload r = entry_payload r'"
  shows "list_all2 same_entry rs rs'"
  using assms
proof (induction rs arbitrary: rs' v v' rule: rev_induct)
  case (snoc r rs)
  from snoc.prems(6) obtain qs r' where rs': "rs' = qs @ [r']" "length rs = length qs"
    by (cases rs' rule: rev_cases) auto
  let ?n = "n + int (length rs)"
  obtain d where d: "verify_loop A c n p rs = Inr (verified (?n - 1) d)" "verify_loop A c ?n d [r] = Inr v"
    using verify_loop_append [of A c n p rs "[r]" v] snoc.prems(1,2) by auto
  obtain d' where d': "verify_loop A c n p' qs = Inr (verified (?n - 1) d')" "verify_loop A c ?n d' [r'] = Inr v'"
    using verify_loop_append [of A c n p' qs "[r']" v'] snoc.prems(3,4) rs' by auto
  have r: "entry_verifies A c ?n d r" "cv_last_digest v = au_entry_digest r"
    using verify_loop_Cons [of A c ?n d r "[]" v] d(2) snoc.prems(2) by auto
  have r': "entry_verifies A c ?n d' r'" "cv_last_digest v' = au_entry_digest r'"
    using verify_loop_Cons [of A c ?n d' r' "[]" v'] d'(2) snoc.prems(4) by auto
  have len: "length d = 32" "length d' = 32"
    using verify_loop_digest_length [OF d(1)] verify_loop_digest_length [OF d'(1)] snoc.prems(7,8) by simp_all
  have last: "same_entry r r'"
    by (rule entry_commits [OF r(1) r'(1) len]) (use snoc.prems(5,9,10) rs' r(2) r'(2) in auto)
  then have "d = d'" using r(1) r'(1) by (simp add: same_entry_def entry_verifies_def)
  have "list_all2 same_entry rs qs"
    by (rule snoc.IH [OF d(1) _ d'(1)]) (use snoc.prems(7-10) rs' \<open>d = d'\<close> in auto)
  with last rs' show ?case by (simp add: list_all2_appendI)
qed simp

text \<open>
  C5. The head of a verified chain commits to everything before it. If two record lists both verify
  from the same start to the same last sequence number and digest, and the authenticator has no
  collision among their entries, then they hold the same events in the same order, field by field.
  Only the key id, which selects the key, may differ.
\<close>

theorem chain_head_commits:
  assumes "verify_records A c n p rs = Inr v" "verify_records A c n p rs' = Inr v" "cv_valid v"
    and "\<forall>r \<in> set rs \<union> set rs'. documents_ok (au_event r)"
    and "\<And>r r'. r \<in> set rs \<Longrightarrow> r' \<in> set rs' \<Longrightarrow>
      A (ev_key_id (au_event r)) (entry_payload r) = A (ev_key_id (au_event r')) (entry_payload r') \<Longrightarrow>
      entry_payload r = entry_payload r'"
  shows "list_all2 same_entry rs rs'"
proof -
  from assms(1,2) have p: "length p = 32" and v: "verify_loop A c n p rs = Inr v" "verify_loop A c n p rs' = Inr v"
    by (auto simp: verify_records_def digest_bytes_def split: if_splits)
  have "cv_last_sequence v = n + int (length rs) - 1" "cv_last_sequence v = n + int (length rs') - 1"
    using verify_loop_valid [OF v(1) assms(3)] verify_loop_valid [OF v(2) assms(3)]
    by (metis chain_verification.select_convs(4))+
  then have "length rs = length rs'" by simp
  from verify_loop_commits [OF v(1) assms(3) v(2) assms(3) refl this p p assms(4,5)] show ?thesis .
qed

definition sample_event :: audit_event where
  "sample_event =
     \<lparr>ev_event_id = ''11111111-2222-3333-4444-555555555555'', ev_chain_id = ''ann'',
      ev_auth_principal = ''ann'', ev_agent_id = None, ev_event_class = ''auth'',
      ev_action_type = ''login'', ev_description = ''signed in'', ev_conversation_id = None,
      ev_correlation_id = ''aaaaaaaa-2222-3333-4444-555555555555'', ev_outcome = ''success'',
      ev_outcome_detail = None, ev_inputs = JObj [], ev_outputs = JObj [], ev_artifact_pointers = JArr [],
      ev_started_at = 0, ev_completed_at = None, ev_key_id = ''k1'', ev_schema_version = 2\<rparr>"

definition sample_record :: audit_record where
  "sample_record =
     \<lparr>au_event = sample_event, au_sequence = 1, au_recorded_at = 5, au_previous_digest = GENESIS_DIGEST,
      au_entry_digest = replicate 32 7\<rparr>"

lemma sample_event_bytes: "\<exists>b. canonical_event_bytes (sample_event\<lparr>ev_key_id := k\<rparr>) 1 = Inr b"
  unfolding canonical_event_Inr
  by (simp add: sample_event_def event_times_ok_def in_datetime_range_def min_instant_def max_instant_def)

theorem chain_head_commits_witness:
  "list_all2 same_entry [sample_record] [sample_record\<lparr>au_event := sample_event\<lparr>ev_key_id := ''k2''\<rparr>\<rparr>]"
proof (rule chain_head_commits)
  let ?A = "\<lambda>(k :: string) (m :: bytes). replicate 32 7 :: bytes"
  have ok: "verify_records ?A ''ann'' 1 GENESIS_DIGEST
      [sample_record\<lparr>au_event := sample_event\<lparr>ev_key_id := k\<rparr>\<rparr>] = Inr (verified 1 (replicate 32 7))" for k
  proof -
    obtain b where "canonical_event_bytes (sample_event\<lparr>ev_key_id := k\<rparr>) 1 = Inr b"
      using sample_event_bytes by blast
    then show ?thesis
      by (simp add: verify_records_def verify_loop.simps(2) digest_bytes_def GENESIS_DIGEST_def entry_digest_def
          authenticated_def sample_record_def) (simp add: sample_event_def)
  qed
  show "verify_records ?A ''ann'' 1 GENESIS_DIGEST [sample_record] = Inr (verified 1 (replicate 32 7))"
    using ok [of "''k1''"] by (simp add: sample_record_def sample_event_def)
  show "verify_records ?A ''ann'' 1 GENESIS_DIGEST
      [sample_record\<lparr>au_event := sample_event\<lparr>ev_key_id := ''k2''\<rparr>\<rparr>] = Inr (verified 1 (replicate 32 7))"
    by (rule ok)
qed (auto simp: documents_ok_def document_ok_def sample_record_def sample_event_def entry_payload_def
      canonical_event_bytes_def common_fields_def event_times_ok_def)

subsection \<open>Constructed events\<close>

lemma update_keys_distinct: "distinct (map fst kvs) \<Longrightarrow> distinct (map fst (AList.update k v kvs))"
  by (rule distinct_update)

lemma update_values: "p \<in> set (AList.update k v kvs) \<Longrightarrow> p = (k, v) \<or> p \<in> set kvs"
  by (induction kvs) (auto split: if_splits)

lemma normalize_ok:
  "normalize_json v = Inr j \<Longrightarrow> json_ok j"
  "normalize_items vs = Inr js \<Longrightarrow> \<forall>j \<in> set js. json_ok j"
  "normalize_entries acc es = Inr kvs \<Longrightarrow> json_ok (JObj acc) \<Longrightarrow> json_ok (JObj kvs)"
proof (induction v and vs and acc es arbitrary: j and js and kvs
    rule: normalize_json_normalize_items_normalize_entries.induct)
  case (14 acc k v es)
  then obtain key jv where k: "k = PStr key" "normalize_json v = Inr jv"
      "normalize_entries (AList.update key jv acc) es = Inr kvs"
    by (auto split: pyval.splits sum.splits)
  with 14 have "json_ok jv" by simp
  with 14(4) have "json_ok (JObj (AList.update key jv acc))"
    by (auto simp: distinct_update dest!: update_values)
  with 14 k show ?case by simp
qed (auto split: sum.splits pyfloat.splits simp: float_repr_token simp del: float_repr.simps)

text \<open>An event as its constructor leaves it.\<close>

definition event_ok :: "audit_event \<Rightarrow> bool" where
  "event_ok e \<longleftrightarrow>
     event_fields_ok e \<and> documents_ok e \<and>
     json_has_type DictType (ev_inputs e) \<and> json_has_type DictType (ev_outputs e) \<and>
     json_has_type ListType (ev_artifact_pointers e) \<and> ints_printable (ev_inputs e) \<and>
     ints_printable (ev_outputs e) \<and> ints_printable (ev_artifact_pointers e)"

lemma sort_json_type: "json_has_type ty v \<Longrightarrow> json_has_type ty (sort_json v)"
  by (cases v; cases ty) auto

lemma sort_json_printable: "ints_printable v \<Longrightarrow> ints_printable (sort_json v)"
  by (induction v) (auto simp: case_prod_beta)

lemma printed_json_Inr:
  assumes "printed_json ty v = Inr w"
  shows "json_has_type ty w" "ints_printable w" "json_sorted w" "json_ok v \<Longrightarrow> json_ok w"
  using assms sort_json_type sort_json_printable sort_json_sorted sort_json_ok
  by (auto simp: printed_json_def split: if_splits)

lemma canonical_json_Inr:
  assumes "canonical_json ty v = Inr w"
  shows "json_has_type ty w" "ints_printable w" "document_ok w"
  using assms printed_json_Inr [of ty _ w] normalize_ok(1) [of v]
  by (auto simp: canonical_json_def document_ok_def split: sum.splits)

lemma make_event_ok:
  assumes "make_event a = Inr e"
  shows "event_ok e"
proof -
  from assms obtain i p q s c where docs: "canonical_json DictType (ev_inputs a) = Inr i"
      "canonical_json DictType (ev_outputs a) = Inr p" "canonical_json ListType (ev_artifact_pointers a) = Inr q"
    and e: "e = with_values i p q s c a" "event_fields_ok e"
    by (auto simp: make_event_def Let_def split: sum.splits if_splits)
  show ?thesis
    using canonical_json_Inr [OF docs(1)] canonical_json_Inr [OF docs(2)] canonical_json_Inr [OF docs(3)] e(2)
    by (simp add: event_ok_def documents_ok_def e(1) with_values_def)
qed

text \<open>Reading back a row whose columns are those of a constructed event.\<close>

lemma row_json_id:
  assumes "json_has_type ty v" "ints_printable v" "document_ok v"
  shows "row_json ty v = Inr v"
  using assms by (cases ty; cases v)
    (auto simp: row_json_def printed_json_def document_ok_def sort_json_id simp del: sort_json.simps split: if_splits)

lemma audit_record_of_event:
  assumes "event_ok e" and "0 < n" "length p = 32" "length d = 32"
  shows "audit_record_of \<lparr>ar_event = e, ar_sequence = n, ar_recorded_at = t, ar_prev_hash = p, ar_entry_hash = d\<rparr> =
    Inr \<lparr>au_event = e, au_sequence = n, au_recorded_at = t, au_previous_digest = p, au_entry_digest = d\<rparr>"
  using assms by (simp add: audit_record_of_def event_ok_def documents_ok_def row_json_id make_record_def Let_def)

subsection \<open>Appending\<close>

interpretation aei: keyed_table audit_row_ok audit_conflict "\<lambda>r. ev_event_id (ar_event r)"
  by unfold_locales (auto simp: audit_conflict_def)

interpretation aes: keyed_table audit_row_ok audit_conflict "\<lambda>r. (chain_of r, ar_sequence r)"
  by unfold_locales (auto simp: audit_conflict_def)

abbreviation audit_ok :: "audit_row list \<Rightarrow> bool" where
  "audit_ok \<equiv> table_ok audit_row_ok audit_conflict"

abbreviation chain_rows :: "string \<Rightarrow> int \<Rightarrow> audit_row list \<Rightarrow> audit_row list" where
  "chain_rows c n t \<equiv> sort_key chain_key (filter (\<lambda>r. chain_of r = c \<and> n \<le> ar_sequence r) t)"

lemma load_chain_Inr:
  "load_chain c n t = (Inr rs, t') \<longleftrightarrow> t' = t \<and> 0 < n \<and> traverse audit_record_of (chain_rows c n t) = Inr rs"
  by (auto simp: load_chain_def tx_success)

lemma verify_chain_Inr:
  "verify_chain A c n p t = (Inr v, t') \<longleftrightarrow>
     t' = t \<and> 0 < n \<and> length p = 32 \<and>
     (\<exists>rs. traverse audit_record_of (chain_rows c n t) = Inr rs \<and> verify_loop A c n p rs = Inr v)"
  by (auto simp: verify_chain_def tx_success load_chain_Inr verify_records_def digest_bytes_def split: if_splits)

lemma audit_record_of_fields:
  assumes "audit_record_of row = Inr r"
  shows "au_sequence r = ar_sequence row" "au_previous_digest r = ar_prev_hash row"
    "au_entry_digest r = ar_entry_hash row" "au_recorded_at r = ar_recorded_at row"
    "ev_chain_id (au_event r) = chain_of row" "ev_event_id (au_event r) = ev_event_id (ar_event row)"
    "ev_key_id (au_event r) = ev_key_id (ar_event row)"
    "ev_schema_version (au_event r) = ev_schema_version (ar_event row)"
    "ev_started_at (au_event r) = ev_started_at (ar_event row)"
    "ev_completed_at (au_event r) = ev_completed_at (ar_event row)"
  using assms by (auto simp: audit_record_of_def make_record_def Let_def split: sum.splits if_splits)

lemma insort_key_snoc: "k x < k y \<Longrightarrow> insort_key k x (zs @ [y]) = insort_key k x zs @ [y]"
  by (induction zs) auto

lemma sort_key_Nil [simp]: "sort_key k xs = [] \<longleftrightarrow> xs = []"
  by (metis length_0_conv length_sort)

lemma last_sort_in: "xs \<noteq> [] \<Longrightarrow> last (sort_key k xs) \<in> set xs"
  using last_in_set [of "sort_key k xs"] by simp

lemma sort_key_snoc: "(\<And>x. x \<in> set xs \<Longrightarrow> k x < k y) \<Longrightarrow> sort_key k (xs @ [y]) = sort_key k xs @ [y]"
proof (induction xs)
  case (Cons x xs)
  have "insort_key k x (sort_key k xs @ [y]) = insort_key k x (sort_key k xs) @ [y]"
    using Cons.prems by (intro insort_key_snoc) simp
  with Cons show ?case by simp
qed simp

lemma last_sorted: "xs \<noteq> [] \<Longrightarrow> x \<in> set xs \<Longrightarrow> k x \<le> k (last (sort_key k xs))"
proof -
  assume "xs \<noteq> []" "x \<in> set xs"
  then have "sort_key k xs \<noteq> []" by auto
  then obtain ys y where ys: "sort_key k xs = ys @ [y]" by (cases "sort_key k xs" rule: rev_cases) auto
  moreover have "x \<in> set (sort_key k xs)" using \<open>x \<in> set xs\<close> by simp
  moreover have "sorted (map k (sort_key k xs))" by simp
  ultimately show ?thesis by (auto simp: sorted_append)
qed

lemma last_row_chain:
  assumes "audit_ok t"
  shows "last_row c t = (if chain_rows c 1 t = [] then None else Some (last (chain_rows c 1 t)))"
proof -
  let ?F = "filter (\<lambda>r. chain_of r = c) t"
  have rows: "filter (\<lambda>r. chain_of r = c \<and> 1 \<le> ar_sequence r) t = ?F"
    using assms by (intro filter_cong) (auto simp: table_ok_def audit_row_ok_def Let_def)
  show ?thesis
  proof (cases "?F = []")
    case True
    then show ?thesis unfolding rows by (simp add: last_row_def sql_page_desc_def)
  next
    case False
    let ?r = "last (sort_key ar_sequence ?F)" and ?s = "last (sort_key chain_key ?F)"
    have mem: "?r \<in> set ?F" "?s \<in> set ?F" by (rule last_sort_in [OF False])+
    have "ar_sequence ?s \<le> ar_sequence ?r" using last_sorted [OF False mem(2)] .
    moreover have "chain_key ?r \<le> chain_key ?s" using last_sorted [OF False mem(1), of chain_key] .
    then have "ar_sequence ?r \<le> ar_sequence ?s" by (auto simp: less_eq_prod_def)
    ultimately have "?r = ?s" using mem by (intro aes.key_unique [OF assms]) auto
    moreover have "last_row c t = Some ?r"
      using False by (cases "sort_key ar_sequence ?F" rule: rev_cases) (auto simp: last_row_def sql_page_desc_def)
    ultimately show ?thesis using False unfolding rows by simp
  qed
qed

text \<open>After a successful verification the last row holds the head of the chain.\<close>

lemma verified_head:
  assumes ok: "audit_ok t" and rs: "traverse audit_record_of (chain_rows c 1 t) = Inr rs"
    and v: "verify_loop A c 1 GENESIS_DIGEST rs = Inr v" "cv_valid v"
  shows "(case last_row c t of None \<Rightarrow> 1 | Some r \<Rightarrow> ar_sequence r + 1) = cv_last_sequence v + 1"
    and "(case last_row c t of None \<Rightarrow> GENESIS_DIGEST | Some r \<Rightarrow> ar_entry_hash r) = cv_last_digest v"
proof -
  have all: "list_all2 (\<lambda>x y. audit_record_of x = Inr y) (chain_rows c 1 t) rs"
    using rs by (simp add: traverse_Inr_iff)
  have "(case last_row c t of None \<Rightarrow> 1 | Some r \<Rightarrow> ar_sequence r + 1) = cv_last_sequence v + 1 \<and>
      (case last_row c t of None \<Rightarrow> GENESIS_DIGEST | Some r \<Rightarrow> ar_entry_hash r) = cv_last_digest v"
  proof (cases rs rule: rev_cases)
    case Nil
    with all v show ?thesis by (auto simp: last_row_chain [OF ok])
  next
    case (snoc qs r)
    with all obtain xs x where x: "chain_rows c 1 t = xs @ [x]" "audit_record_of x = Inr r"
      by (auto simp: list_all2_append2 list_all2_Cons2)
    obtain d where "verify_loop A c (1 + int (length qs)) d [r] = Inr v"
      using verify_loop_append [of A c 1 GENESIS_DIGEST qs "[r]" v] v snoc by auto
    then have "v = verified (1 + int (length qs)) (au_entry_digest r)" "au_sequence r = 1 + int (length qs)"
      using verify_loop_Cons [of A c "1 + int (length qs)" d r "[]" v] v(2) by (auto simp: entry_verifies_def)
    with x audit_record_of_fields [OF x(2)] show ?thesis by (simp add: last_row_chain [OF ok])
  qed
  then show "(case last_row c t of None \<Rightarrow> 1 | Some r \<Rightarrow> ar_sequence r + 1) = cv_last_sequence v + 1"
    and "(case last_row c t of None \<Rightarrow> GENESIS_DIGEST | Some r \<Rightarrow> ar_entry_hash r) = cv_last_digest v" by blast+
qed

lemma append_existing_Inr:
  "append_existing A e row t = (Inr r, t') \<longleftrightarrow>
     t' = t \<and> audit_record_of row = Inr r \<and> au_event r = e \<and>
     entry_digest A (ev_key_id e) (au_previous_digest r) e (au_sequence r) = Inr (au_entry_digest r)"
  by (auto simp: append_existing_def tx_success)

lemma append_event_cases:
  assumes "append_event A jsonb clock e t = (Inr r, t')"
  obtains u where "pg_uuid (ev_event_id e) = Some u"
  and "(\<exists>row. List.find (\<lambda>s. chain_of s = ev_chain_id e \<and> ev_event_id (ar_event s) = u) t = Some row \<and>
        append_existing A e row t = (Inr r, t')) \<or>
      List.find (\<lambda>s. chain_of s = ev_chain_id e \<and> ev_event_id (ar_event s) = u) t = None \<and>
      (\<exists>n p d row.
        n = (case last_row (ev_chain_id e) t of None \<Rightarrow> 1 | Some s \<Rightarrow> ar_sequence s + 1) \<and>
        p = (case last_row (ev_chain_id e) t of None \<Rightarrow> GENESIS_DIGEST | Some s \<Rightarrow> ar_entry_hash s) \<and>
        entry_digest A (ev_key_id e) p e n = Inr d \<and> insert_event_sql jsonb clock e n p d t = Inr (row, t') \<and>
        audit_record_of row = Inr r)"
proof -
  from assms obtain u where "pg_uuid (ev_event_id e) = Some u"
    by (auto simp: append_event_def tx_success find_event_sql_def split: option.splits)
  moreover from assms this
  have "(\<exists>row. List.find (\<lambda>s. chain_of s = ev_chain_id e \<and> ev_event_id (ar_event s) = u) t = Some row \<and>
        append_existing A e row t = (Inr r, t')) \<or>
      List.find (\<lambda>s. chain_of s = ev_chain_id e \<and> ev_event_id (ar_event s) = u) t = None \<and>
      (\<exists>n p d row.
        n = (case last_row (ev_chain_id e) t of None \<Rightarrow> 1 | Some s \<Rightarrow> ar_sequence s + 1) \<and>
        p = (case last_row (ev_chain_id e) t of None \<Rightarrow> GENESIS_DIGEST | Some s \<Rightarrow> ar_entry_hash s) \<and>
        entry_digest A (ev_key_id e) p e n = Inr d \<and> insert_event_sql jsonb clock e n p d t = Inr (row, t') \<and>
        audit_record_of row = Inr r)"
    by (auto simp: append_event_def tx_success find_event_sql_def Let_def)
  ultimately show ?thesis by (rule that)
qed

text \<open>Inserting a constructed event that the columns keep as it is.\<close>

lemma insert_event_row:
  assumes "insert_event_sql jsonb clock e n p d t = Inr (row, t')" and "stored_event jsonb e = Some e'"
    and "audit_ok t"
  shows "row = \<lparr>ar_event = e', ar_sequence = n, ar_recorded_at = clock, ar_prev_hash = p, ar_entry_hash = d\<rparr>"
    and "t' = t @ [row]" and "audit_ok t'" and "audit_row_ok row"
proof -
  have *: "sql_insert audit_row_ok audit_conflict
      \<lparr>ar_event = e', ar_sequence = n, ar_recorded_at = clock, ar_prev_hash = p, ar_entry_hash = d\<rparr> t = Inr (row, t')"
    using assms(1,2) by (simp add: insert_event_sql_def)
  from aei.table_ok_insert [OF assms(3) this]
  show "row = \<lparr>ar_event = e', ar_sequence = n, ar_recorded_at = clock, ar_prev_hash = p, ar_entry_hash = d\<rparr>"
    and "t' = t @ [row]" and "audit_ok t'" by auto
  then show "audit_row_ok row" by (simp add: table_ok_def)
qed

lemma chain_rows_append:
  assumes "audit_ok t" and "chain_of row = c" and "n \<le> ar_sequence row"
    and "\<And>s. s \<in> set t \<Longrightarrow> chain_of s = c \<Longrightarrow> ar_sequence s < ar_sequence row"
  shows "chain_rows c n (t @ [row]) = chain_rows c n t @ [row]"
proof -
  have "sort_key chain_key (filter (\<lambda>r. chain_of r = c \<and> n \<le> ar_sequence r) t @ [row]) = chain_rows c n t @ [row]"
    by (rule sort_key_snoc) (use assms(4) in \<open>auto simp: less_prod_def\<close>)
  with assms(2,3) show ?thesis by simp
qed

lemma last_row_bound:
  assumes "audit_ok t" and "s \<in> set t" and "chain_of s = c"
  shows "\<exists>r. last_row c t = Some r \<and> ar_sequence s \<le> ar_sequence r"
proof -
  let ?F = "filter (\<lambda>r. chain_of r = c \<and> 1 \<le> ar_sequence r) t"
  have s: "s \<in> set ?F" using assms by (auto simp: table_ok_def audit_row_ok_def Let_def)
  then have ne: "?F \<noteq> []" by (metis empty_iff list.set(1))
  from last_sorted [OF this s, of chain_key] have "ar_sequence s \<le> ar_sequence (last (chain_rows c 1 t))"
    by (auto simp: less_eq_prod_def)
  with ne show ?thesis by (simp add: last_row_chain [OF assms(1)])
qed

lemma stored_event_chain: "stored_event jsonb e = Some e' \<Longrightarrow> ev_chain_id e' = ev_chain_id e"
  by (auto simp: stored_event_def split: option.splits)

lemma stored_event_id: "stored_event jsonb e = Some e' \<Longrightarrow> pg_uuid (ev_event_id e) = Some (ev_event_id e')"
  by (auto simp: stored_event_def split: option.splits)

lemma fresh_entry:
  assumes ok: "audit_ok t" and v: "verify_chain A (ev_chain_id e) 1 GENESIS_DIGEST t = (Inr v, t)" "cv_valid v"
    and stored: "stored_event jsonb e = Some e'"
    and n: "n = (case last_row (ev_chain_id e) t of None \<Rightarrow> 1 | Some s \<Rightarrow> ar_sequence s + 1)"
    and p: "p = (case last_row (ev_chain_id e) t of None \<Rightarrow> GENESIS_DIGEST | Some s \<Rightarrow> ar_entry_hash s)"
    and ins: "insert_event_sql jsonb clock e n p d t = Inr (row, t')" and rec: "audit_record_of row = Inr r"
  obtains rs where "traverse audit_record_of (chain_rows (ev_chain_id e) 1 t') = Inr (rs @ [r])"
    and "verify_loop A (ev_chain_id e) 1 GENESIS_DIGEST rs = Inr v" "1 + int (length rs) = n"
    and "n = cv_last_sequence v + 1" "p = cv_last_digest v"
proof -
  let ?c = "ev_chain_id e"
  from v obtain rs where rs: "traverse audit_record_of (chain_rows ?c 1 t) = Inr rs"
    "verify_loop A ?c 1 GENESIS_DIGEST rs = Inr v" by (auto simp: verify_chain_Inr)
  note head = verified_head [OF ok rs v(2), folded n p]
  note row = insert_event_row [OF ins stored ok]
  have chain: "chain_of row = ?c" using stored_event_chain [OF stored] row(1) by simp
  have less: "ar_sequence s < ar_sequence row" if "s \<in> set t" "chain_of s = ?c" for s
    using last_row_bound [OF ok that] n row(1) by auto
  have "1 \<le> ar_sequence row" using row(4) by (simp add: audit_row_ok_def Let_def)
  from chain_rows_append [OF ok chain this less] row(2)
  have "traverse audit_record_of (chain_rows ?c 1 t') = Inr (rs @ [r])"
    using rs(1) rec by (simp add: traverse_Inr_iff list_all2_appendI)
  moreover have "1 + int (length rs) = n"
    using verify_loop_valid [OF rs(2) v(2)] head(1) by (metis chain_verification.select_convs(4) diff_add_cancel)
  ultimately show ?thesis using rs(2) head by (intro that) simp_all
qed

text \<open>
  C18. Appending keeps a chain verifiable. On a verified chain, a successful append of a constructed
  event that the columns store unchanged does one of two things. If an event of that identity is in
  the chain, nothing changes and its record is returned. Otherwise exactly one row is added, which
  holds the event, the next sequence number, the old head as previous digest and the new digest, and the
  chain verifies with that row as its head. The returned record holds the event.
\<close>

theorem append_extends_chain:
  assumes "audit_ok t" and "make_event a = Inr e" and "stored_event jsonb e = Some e"
    and v: "verify_chain A (ev_chain_id e) 1 GENESIS_DIGEST t = (Inr v, t)" "cv_valid v"
    and app: "append_event A jsonb clock e t = (Inr r, t')"
  shows "audit_ok t' \<and> au_event r = e \<and>
    (if \<exists>s \<in> set t. chain_of s = ev_chain_id e \<and> ev_event_id (ar_event s) = ev_event_id e
     then t' = t \<and> (\<exists>s \<in> set t. ev_event_id (ar_event s) = ev_event_id e \<and> audit_record_of s = Inr r)
     else t' = t @ [\<lparr>ar_event = e, ar_sequence = cv_last_sequence v + 1, ar_recorded_at = clock,
              ar_prev_hash = cv_last_digest v, ar_entry_hash = au_entry_digest r\<rparr>] \<and>
        au_sequence r = cv_last_sequence v + 1 \<and> au_previous_digest r = cv_last_digest v \<and>
        verify_chain A (ev_chain_id e) 1 GENESIS_DIGEST t' =
          (Inr (verified (cv_last_sequence v + 1) (au_entry_digest r)), t'))"
  using app
proof (rule append_event_cases, elim disjE conjE exE)
  fix u row assume u: "pg_uuid (ev_event_id e) = Some u"
    and row: "List.find (\<lambda>s. chain_of s = ev_chain_id e \<and> ev_event_id (ar_event s) = u) t = Some row"
    and ex: "append_existing A e row t = (Inr r, t')"
  have "u = ev_event_id e" using u stored_event_id [OF assms(3)] by simp
  with row have "row \<in> set t" "chain_of row = ev_chain_id e" "ev_event_id (ar_event row) = ev_event_id e"
    by (auto simp: find_Some_iff)
  with ex show ?thesis using assms(1) by (auto simp: append_existing_Inr)
next
  fix u n p d row
  assume u: "pg_uuid (ev_event_id e) = Some u"
    and none: "List.find (\<lambda>s. chain_of s = ev_chain_id e \<and> ev_event_id (ar_event s) = u) t = None"
    and n: "n = (case last_row (ev_chain_id e) t of None \<Rightarrow> 1 | Some s \<Rightarrow> ar_sequence s + 1)"
    and p: "p = (case last_row (ev_chain_id e) t of None \<Rightarrow> GENESIS_DIGEST | Some s \<Rightarrow> ar_entry_hash s)"
    and d: "entry_digest A (ev_key_id e) p e n = Inr d"
    and ins: "insert_event_sql jsonb clock e n p d t = Inr (row, t')" and rec: "audit_record_of row = Inr r"
  have new: "\<not> (\<exists>s \<in> set t. chain_of s = ev_chain_id e \<and> ev_event_id (ar_event s) = ev_event_id e)"
    using none u stored_event_id [OF assms(3)] by (auto simp: find_None_iff)
  note row = insert_event_row [OF ins assms(3,1)]
  have shape: "0 < n" "length p = 32" "length d = 32" using row(1,4) by (simp_all add: audit_row_ok_def Let_def)
  have r: "r = \<lparr>au_event = e, au_sequence = n, au_recorded_at = clock, au_previous_digest = p, au_entry_digest = d\<rparr>"
    using rec row(1) audit_record_of_event [OF make_event_ok [OF assms(2)] shape] by simp
  obtain rs where rs: "traverse audit_record_of (chain_rows (ev_chain_id e) 1 t') = Inr (rs @ [r])"
      "verify_loop A (ev_chain_id e) 1 GENESIS_DIGEST rs = Inr v" "1 + int (length rs) = n"
    and head: "n = cv_last_sequence v + 1" "p = cv_last_digest v"
    using fresh_entry [OF assms(1) v assms(3) n p ins rec] by blast
  have old: "v = verified (1 + int (length rs) - 1) p" using verify_loop_valid [OF rs(2) v(2)] head(2) by simp
  have "entry_verifies A (ev_chain_id e) n p r" using d by (simp add: entry_verifies_def r)
  then have "verify_loop A (ev_chain_id e) n p [r] = Inr (verified n d)"
    using verify_loop_Cons [of A "ev_chain_id e" n p r "[]" "verified n d"] by (simp add: r)
  then have "verify_loop A (ev_chain_id e) 1 GENESIS_DIGEST (rs @ [r]) = Inr (verified n d)"
    using verify_loop_append [of A "ev_chain_id e" 1 GENESIS_DIGEST rs "[r]" "verified n d"] rs(2,3) old by auto
  with rs(1) have "verify_chain A (ev_chain_id e) 1 GENESIS_DIGEST t' = (Inr (verified n d), t')"
    by (auto simp: verify_chain_Inr GENESIS_DIGEST_def)
  with row r head new show ?thesis by simp
qed

text \<open>
  C36. Appending is idempotent. Once an event is stored unchanged, appending it again at any later time
  returns the same record and changes nothing.
\<close>

theorem append_replays:
  assumes "audit_ok t" and "make_event a = Inr e" and "stored_event jsonb e = Some e"
    and app: "append_event A jsonb clock e t = (Inr r, t')"
  shows "append_event A jsonb later e t' = (Inr r, t')"
  using app
proof (rule append_event_cases, elim disjE conjE exE)
  fix u row assume u: "pg_uuid (ev_event_id e) = Some u"
    and row: "List.find (\<lambda>s. chain_of s = ev_chain_id e \<and> ev_event_id (ar_event s) = u) t = Some row"
    and ex: "append_existing A e row t = (Inr r, t')"
  then have "t' = t" by (simp add: append_existing_Inr)
  with u row ex show ?thesis
    by (simp add: append_event_def tx_bind_stmt(1) [where x = "Some row"] find_event_sql_def)
next
  fix u n p d row
  assume u: "pg_uuid (ev_event_id e) = Some u" and d: "entry_digest A (ev_key_id e) p e n = Inr d"
    and ins: "insert_event_sql jsonb clock e n p d t = Inr (row, t')" and rec: "audit_record_of row = Inr r"
  note row = insert_event_row [OF ins assms(3,1)]
  have shape: "0 < n" "length p = 32" "length d = 32" using row(1,4) by (simp_all add: audit_row_ok_def Let_def)
  have r: "r = \<lparr>au_event = e, au_sequence = n, au_recorded_at = clock, au_previous_digest = p, au_entry_digest = d\<rparr>"
    using rec row(1) audit_record_of_event [OF make_event_ok [OF assms(2)] shape] by simp
  have "u = ev_event_id e" using u stored_event_id [OF assms(3)] by simp
  have "List.find (\<lambda>s. chain_of s = ev_chain_id e \<and> ev_event_id (ar_event s) = u) t' = Some row"
    by (rule aei.find_key [OF row(3)]) (use row(1,2) \<open>u = ev_event_id e\<close> in auto)
  moreover have "append_existing A e row t' = (Inr r, t')"
    using rec d by (simp add: append_existing_Inr r)
  ultimately show ?thesis using u
    by (simp add: append_event_def tx_bind_stmt(1) [where x = "Some row"] find_event_sql_def)
qed

definition sample_args :: audit_args where
  "sample_args = with_values (PDict []) (PDict []) (PList []) (utc 0) None sample_event"

definition sample_row :: audit_row where
  "sample_row =
     \<lparr>ar_event = sample_event, ar_sequence = 1, ar_recorded_at = 5, ar_prev_hash = GENESIS_DIGEST,
      ar_entry_hash = replicate 32 7\<rparr>"

abbreviation sevens :: authenticator where
  "sevens \<equiv> \<lambda>_ _. replicate 32 7"

lemma sample_event_made: "make_event sample_args = Inr sample_event"
  by (simp add: make_event_def sample_args_def with_values_def sample_event_def optional_aware_def
      canonical_json_def printed_json_def event_fields_ok_def audit_outcomes_def audit_required_def
      py_strip_def py_space_def Let_def)

lemma sample_event_stored: "pg_uuid (ev_event_id sample_event) = Some (ev_event_id sample_event)"
    "stored_event Some sample_event = Some sample_event"
proof -
  have "pg_uuid (ev_event_id sample_event) = Some (ev_event_id sample_event) \<and>
      pg_uuid (ev_correlation_id sample_event) = Some (ev_correlation_id sample_event)" by code_simp
  then show "pg_uuid (ev_event_id sample_event) = Some (ev_event_id sample_event)"
    "stored_event Some sample_event = Some sample_event" by (simp_all add: stored_event_def)
qed

text \<open>An event of a new identity is appended whenever its row fits the columns and reads back.\<close>

lemma append_fresh:
  assumes ok: "audit_ok t" and stored: "stored_event jsonb e = Some e'"
    and new: "\<forall>s \<in> set t. ev_event_id (ar_event s) \<noteq> ev_event_id e'"
    and n: "n = (case last_row (ev_chain_id e) t of None \<Rightarrow> 1 | Some s \<Rightarrow> ar_sequence s + 1)"
    and p: "p = (case last_row (ev_chain_id e) t of None \<Rightarrow> GENESIS_DIGEST | Some s \<Rightarrow> ar_entry_hash s)"
    and d: "entry_digest A (ev_key_id e) p e n = Inr d"
    and row: "row = \<lparr>ar_event = e', ar_sequence = n, ar_recorded_at = clock, ar_prev_hash = p, ar_entry_hash = d\<rparr>"
      "audit_row_ok row"
    and rec: "audit_record_of row = Inr r"
  shows "append_event A jsonb clock e t = (Inr r, t @ [row])"
    and "insert_event_sql jsonb clock e n p d t = Inr (row, t @ [row])"
proof -
  have "\<not> audit_conflict row s" if "s \<in> set t" for s
    using that new last_row_bound [OF ok that, of "ev_chain_id e"] stored_event_chain [OF stored] row(1) n
    by (auto simp: audit_conflict_def)
  then show ins: "insert_event_sql jsonb clock e n p d t = Inr (row, t @ [row])"
    using stored row by (simp add: insert_event_sql_def sql_insert_def)
  have find: "find_event_sql (ev_chain_id e) (ev_event_id e) t = Inr (None, t)"
    using stored_event_id [OF stored] new by (auto simp: find_event_sql_def find_None_iff)
  have "au_sequence r = n" "au_previous_digest r = p" "au_entry_digest r = d"
    using audit_record_of_fields [OF rec] row(1) by simp_all
  then show "append_event A jsonb clock e t = (Inr r, t @ [row])"
    by (simp add: append_event_def tx_simps n [symmetric] p [symmetric] d rec
        tx_bind_stmt(1) [where f = "find_event_sql (ev_chain_id e) (ev_event_id e)", OF find]
        tx_bind_stmt(1) [where f = "insert_event_sql jsonb clock e n p d", OF ins])
qed

lemma last_row_Nil [simp]: "last_row c [] = None"
  by (simp add: last_row_def sql_page_desc_def)

lemma audit_ok_Nil: "audit_ok []"
  by (simp add: table_ok_def)

lemma sample_append: "append_event sevens Some 5 sample_event [] = (Inr sample_record, [sample_row])"
proof (rule append_fresh(1) [OF audit_ok_Nil sample_event_stored(2), simplified])
  obtain b where "canonical_event_bytes sample_event 1 = Inr b"
    using sample_event_bytes [of "''k1''"] by (auto simp: sample_event_def)
  then show "entry_digest sevens (ev_key_id sample_event) GENESIS_DIGEST sample_event 1 = Inr (replicate 32 7)"
    by (simp add: entry_digest_def authenticated_def digest_bytes_def)
  show "audit_record_of sample_row = Inr sample_record"
    using audit_record_of_event [OF make_event_ok [OF sample_event_made], of 1 GENESIS_DIGEST "replicate 32 7" 5]
    by (simp add: sample_row_def sample_record_def GENESIS_DIGEST_def)
  show "audit_row_ok sample_row" by code_simp
qed (simp_all add: sample_row_def)

theorem append_extends_chain_witness:
  "verify_chain sevens ''ann'' 1 GENESIS_DIGEST [sample_row] = (Inr (verified 1 (replicate 32 7)), [sample_row])"
proof -
  have "verify_chain sevens (ev_chain_id sample_event) 1 GENESIS_DIGEST [] = (Inr (verified 0 GENESIS_DIGEST), [])"
    by (simp add: verify_chain_Inr GENESIS_DIGEST_def)
  moreover have "audit_ok []" by (simp add: table_ok_def)
  ultimately show ?thesis
    using append_extends_chain [OF _ sample_event_made sample_event_stored(2) _ _ sample_append]
    by (auto simp: sample_event_def sample_record_def)
qed

theorem append_replays_witness:
  "append_event sevens Some 9 sample_event [sample_row] = (Inr sample_record, [sample_row])"
  by (rule append_replays [OF _ sample_event_made sample_event_stored(2) sample_append]) (simp add: table_ok_def)

subsection \<open>Documents that the database rewrites\<close>

lemma verify_loop_step:
  "entry_verifies A c n p r \<Longrightarrow> verify_loop A c n p (r # rs) = verify_loop A c (n + 1) (au_entry_digest r) rs"
  by (simp add: verify_loop.simps(2) entry_verifies_def Let_def)

lemma verify_loop_continue:
  "verify_loop A c n p rs = Inr (verified m d) \<Longrightarrow>
     verify_loop A c n p (rs @ qs) = verify_loop A c (n + int (length rs)) d qs"
proof (induction rs arbitrary: n p)
  case (Cons r rs)
  from verify_loop_Cons [of A c n p r rs "verified m d"] Cons.prems
  have "entry_verifies A c n p r" "verify_loop A c (n + 1) (au_entry_digest r) rs = Inr (verified m d)" by auto
  with Cons.IH show ?case by (simp add: verify_loop_step algebra_simps)
qed simp

lemma stored_event_same:
  assumes "stored_event jsonb e = Some e'"
  shows "ev_key_id e' = ev_key_id e" "ev_schema_version e' = ev_schema_version e"
    "ev_started_at e' = ev_started_at e" "ev_completed_at e' = ev_completed_at e" "ev_chain_id e' = ev_chain_id e"
  using assms by (auto simp: stored_event_def split: option.splits)

lemma rewritten_entry_invalid:
  assumes "audit_ok t" and "make_event a = Inr e" and "stored_event jsonb e = Some e'"
    and v: "verify_chain A (ev_chain_id e) 1 GENESIS_DIGEST t = (Inr v, t)" "cv_valid v"
    and n: "n = (case last_row (ev_chain_id e) t of None \<Rightarrow> 1 | Some s \<Rightarrow> ar_sequence s + 1)"
    and p: "p = (case last_row (ev_chain_id e) t of None \<Rightarrow> GENESIS_DIGEST | Some s \<Rightarrow> ar_entry_hash s)"
    and d: "entry_digest A (ev_key_id e) p e n = Inr d"
    and ins: "insert_event_sql jsonb clock e n p d t = Inr (row, t')" and rec: "audit_record_of row = Inr r"
    and changed: "au_event r \<noteq> e" "documents_ok (au_event r)"
    and width: "length (A (ev_key_id e) (entry_payload r)) = 32"
    and apart: "\<And>b. canonical_event_bytes e n = Inr b \<Longrightarrow>
      A (ev_key_id e) (entry_payload r) = A (ev_key_id e) (p @ b) \<Longrightarrow> entry_payload r = p @ b"
  shows "verify_chain A (ev_chain_id e) 1 GENESIS_DIGEST t' =
    (Inr \<lparr>cv_valid = False, cv_first_invalid = Some (ev_event_id (au_event r)),
          cv_reason = Some ''entry_digest_mismatch'', cv_last_sequence = cv_last_sequence v,
          cv_last_digest = cv_last_digest v\<rparr>, t')"
proof -
  note row = insert_event_row [OF ins assms(3,1)]
  have f: "au_sequence r = n" "au_previous_digest r = p" "au_entry_digest r = d"
      "ev_chain_id (au_event r) = ev_chain_id e" "ev_key_id (au_event r) = ev_key_id e"
      "ev_schema_version (au_event r) = ev_schema_version e" "event_times_ok (au_event r) = event_times_ok e"
    using audit_record_of_fields [OF rec] stored_event_same [OF assms(3)] row(1)
    by (simp_all add: event_times_ok_def)
  obtain rs where rs: "traverse audit_record_of (chain_rows (ev_chain_id e) 1 t') = Inr (rs @ [r])"
      "verify_loop A (ev_chain_id e) 1 GENESIS_DIGEST rs = Inr v" "1 + int (length rs) = n"
    and head: "n = cv_last_sequence v + 1" "p = cv_last_digest v"
    using fresh_entry [OF assms(1) v assms(3) n p ins rec] by blast
  have old: "verify_loop A (ev_chain_id e) 1 GENESIS_DIGEST rs = Inr (verified (int (length rs)) p)"
    using verify_loop_valid [OF rs(2) v(2)] rs(2) head(2) by simp
  from d obtain b where b: "canonical_event_bytes e n = Inr b" "d = A (ev_key_id e) (p @ b)" "length d = 32"
    by (auto simp: entry_digest_def authenticated_def digest_bytes_def split: sum.splits if_splits)
  from b(1) f obtain b' where b': "canonical_event_bytes (au_event r) n = Inr b'"
    by (auto simp: canonical_event_Inr)
  have "documents_ok e" using make_event_ok [OF assms(2)] by (simp add: event_ok_def)
  have "b \<noteq> b'"
  proof
    assume "b = b'"
    with canonical_event_inj [OF \<open>documents_ok e\<close> changed(2) b(1)] b'
    have "au_event r = e\<lparr>ev_key_id := ev_key_id (au_event r)\<rparr>" by blast
    with changed(1) f(5) show False by simp
  qed
  moreover have pay: "entry_payload r = p @ b'" by (simp add: entry_payload_def f b')
  ultimately have "A (ev_key_id e) (p @ b') \<noteq> d" using apart [of b] b(1,2) by auto
  then have "verify_loop A (ev_chain_id e) n p [r] = Inr \<lparr>cv_valid = False,
      cv_first_invalid = Some (ev_event_id (au_event r)), cv_reason = Some ''entry_digest_mismatch'',
      cv_last_sequence = n - 1, cv_last_digest = p\<rparr>"
    using f b' width [unfolded pay]
    by (simp add: verify_loop.simps(2) Let_def entry_digest_def authenticated_def digest_bytes_def)
  with verify_loop_continue [OF old, of "[r]"] rs(1,3) head show ?thesis
    by (auto simp: verify_chain_Inr GENESIS_DIGEST_def)
qed

text \<open>
  C37. The digest is taken before storage and verified after it. Let a constructed event have a new identity
  and let its row fit the columns and read back, but as another event than the one appended (an
  identifier in another UUID spelling, a JSON number that \<open>JSONB\<close> prints differently). Then the
  append to a verified chain returns without error and stores the row; and if the authenticator
  tells the two events apart, verification then fails at that entry with a digest mismatch, although
  nobody altered it.
\<close>

theorem rewritten_event_breaks_chain:
  assumes "audit_ok t" and "make_event a = Inr e" and "stored_event jsonb e = Some e'"
    and v: "verify_chain A (ev_chain_id e) 1 GENESIS_DIGEST t = (Inr v, t)" "cv_valid v"
    and new: "\<forall>s \<in> set t. ev_event_id (ar_event s) \<noteq> ev_event_id e'"
    and d: "entry_digest A (ev_key_id e) (cv_last_digest v) e (cv_last_sequence v + 1) = Inr d"
    and row: "row = \<lparr>ar_event = e', ar_sequence = cv_last_sequence v + 1, ar_recorded_at = clock,
        ar_prev_hash = cv_last_digest v, ar_entry_hash = d\<rparr>" "audit_row_ok row"
    and rec: "audit_record_of row = Inr r" and changed: "au_event r \<noteq> e" "documents_ok (au_event r)"
    and width: "length (A (ev_key_id e) (entry_payload r)) = 32"
    and apart: "\<And>b. canonical_event_bytes e (cv_last_sequence v + 1) = Inr b \<Longrightarrow>
      A (ev_key_id e) (entry_payload r) = A (ev_key_id e) (cv_last_digest v @ b) \<Longrightarrow>
      entry_payload r = cv_last_digest v @ b"
  shows "append_event A jsonb clock e t = (Inr r, t @ [row]) \<and>
    verify_chain A (ev_chain_id e) 1 GENESIS_DIGEST (t @ [row]) =
    (Inr \<lparr>cv_valid = False, cv_first_invalid = Some (ev_event_id (au_event r)),
          cv_reason = Some ''entry_digest_mismatch'', cv_last_sequence = cv_last_sequence v,
          cv_last_digest = cv_last_digest v\<rparr>, t @ [row])"
proof -
  from v obtain rs where "traverse audit_record_of (chain_rows (ev_chain_id e) 1 t) = Inr rs"
    "verify_loop A (ev_chain_id e) 1 GENESIS_DIGEST rs = Inr v" by (auto simp: verify_chain_Inr)
  note head = verified_head [OF assms(1) this v(2), symmetric]
  note app = append_fresh [OF assms(1,3) new head d row rec]
  from rewritten_entry_invalid [OF assms(1-3) v head d app(2) rec changed width apart] app(1)
  show ?thesis by blast
qed

definition upper_event :: audit_event where
  "upper_event = sample_event\<lparr>ev_event_id := ''AAAAAAAA-2222-3333-4444-555555555555''\<rparr>"

definition upper_stored :: audit_event where
  "upper_stored = sample_event\<lparr>ev_event_id := ''aaaaaaaa-2222-3333-4444-555555555555''\<rparr>"

text \<open>An authenticator that tells the payload of the first entry from every other.\<close>

definition upper_key :: authenticator where
  "upper_key k m =
     (case canonical_event_bytes upper_event 1 of
        Inr b \<Rightarrow> if m = GENESIS_DIGEST @ b then replicate 32 1 else replicate 32 2
      | Inl _ \<Rightarrow> [])"

lemma upper_event_bytes: "\<exists>b. canonical_event_bytes upper_event 1 = Inr b"
  unfolding canonical_event_Inr by (simp add: upper_event_def sample_event_def event_times_ok_def
      in_datetime_range_def min_instant_def max_instant_def)

lemma upper_event_made: "make_event (sample_args\<lparr>ev_event_id := ev_event_id upper_event\<rparr>) = Inr upper_event"
  by (simp add: make_event_def sample_args_def with_values_def sample_event_def upper_event_def optional_aware_def
      canonical_json_def printed_json_def event_fields_ok_def audit_outcomes_def audit_required_def
      py_strip_def py_space_def Let_def)

lemma upper_event_stored: "stored_event Some upper_event = Some upper_stored"
proof -
  have "pg_uuid (ev_event_id upper_event) = Some (ev_event_id upper_stored) \<and>
      pg_uuid (ev_correlation_id upper_event) = Some (ev_correlation_id upper_stored)" by code_simp
  then show ?thesis by (simp add: stored_event_def upper_event_def upper_stored_def)
qed

theorem rewritten_event_breaks_chain_witness:
  "\<exists>r t'. append_event upper_key Some 5 upper_event [] = (Inr r, t') \<and>
     verify_chain upper_key ''ann'' 1 GENESIS_DIGEST t' =
      (Inr \<lparr>cv_valid = False, cv_first_invalid = Some ''aaaaaaaa-2222-3333-4444-555555555555'',
            cv_reason = Some ''entry_digest_mismatch'', cv_last_sequence = 0,
            cv_last_digest = GENESIS_DIGEST\<rparr>, t')"
proof -
  obtain b where b: "canonical_event_bytes upper_event 1 = Inr b" using upper_event_bytes by blast
  let ?row = "\<lparr>ar_event = upper_stored, ar_sequence = 1, ar_recorded_at = 5, ar_prev_hash = GENESIS_DIGEST,
      ar_entry_hash = replicate 32 1\<rparr>"
  let ?r = "\<lparr>au_event = upper_stored, au_sequence = 1, au_recorded_at = 5, au_previous_digest = GENESIS_DIGEST,
      au_entry_digest = replicate 32 1\<rparr>"
  have ok: "event_ok upper_stored"
    using make_event_ok [OF upper_event_made]
    by (simp add: event_ok_def documents_ok_def upper_event_def upper_stored_def)
      (simp add: event_fields_ok_def sample_event_def audit_required_def audit_outcomes_def py_strip_def py_space_def)
  have start: "verify_chain upper_key (ev_chain_id upper_event) 1 GENESIS_DIGEST [] =
      (Inr (verified 0 GENESIS_DIGEST), [])"
    by (simp add: verify_chain_Inr GENESIS_DIGEST_def)
  note breaks = rewritten_event_breaks_chain
    [OF audit_ok_Nil upper_event_made upper_event_stored start, where row = ?row and r = ?r and clock = 5
      and d = "replicate 32 1", simplified]
  have "append_event upper_key Some 5 upper_event [] = (Inr ?r, [?row]) \<and>
    verify_chain upper_key (ev_chain_id upper_event) 1 GENESIS_DIGEST [?row] =
    (Inr \<lparr>cv_valid = False, cv_first_invalid = Some (ev_event_id upper_stored),
          cv_reason = Some ''entry_digest_mismatch'', cv_last_sequence = 0,
          cv_last_digest = GENESIS_DIGEST\<rparr>, [?row])"
  proof (rule breaks)
    show "entry_digest upper_key (ev_key_id upper_event) GENESIS_DIGEST upper_event 1 = Inr (replicate 32 1)"
      by (simp add: entry_digest_def b upper_key_def authenticated_def digest_bytes_def)
    show "audit_row_ok ?row" by code_simp
    show "audit_record_of ?row = Inr ?r"
      by (rule audit_record_of_event [OF ok]) (simp_all add: GENESIS_DIGEST_def)
    show "documents_ok upper_stored" using ok by (simp add: event_ok_def)
    show "upper_stored \<noteq> upper_event" by (simp add: upper_event_def upper_stored_def sample_event_def)
    show "length (upper_key (ev_key_id upper_event) (entry_payload ?r)) = 32" by (simp add: upper_key_def b)
    fix b' assume "canonical_event_bytes upper_event 1 = Inr b'"
    with b have "b' = b" by simp
    assume "upper_key (ev_key_id upper_event) (entry_payload ?r) =
        upper_key (ev_key_id upper_event) (GENESIS_DIGEST @ b')"
    with b \<open>b' = b\<close> show "entry_payload ?r = GENESIS_DIGEST @ b'"
      by (simp add: upper_key_def split: if_splits)
  qed
  then show ?thesis
    by (intro exI [of _ ?r] exI [of _ "[?row]"]) (simp add: upper_event_def upper_stored_def sample_event_def)
qed

end
