(* ===== verification/AuditPages.thy ===== *)
theory AuditPages
  imports AuditChain "HOL-Library.Sublist"
begin

text \<open>
  Reading the audit log: the filtered, cursor-driven pages, the keyword search and the listing of
  tool calls of \<open>repositories/audit.py\<close>.
\<close>

subsection \<open>Filters, pages and patterns\<close>

text \<open>
  Text in a pattern is a list of code points, because \<open>str.casefold\<close> leaves the first 256: it maps
  the sharp s to two letters and the micro sign to the Greek letter. What \<open>LOWER\<close> gives under the
  collation of the database is the argument \<open>lower\<close>.
\<close>

type_synonym code_points = "nat list"

definition code_points :: "string \<Rightarrow> code_points" where
  "code_points s = map of_char s"

definition casefold_char :: "char \<Rightarrow> code_points" where
  "casefold_char c =
     (let n = of_char c :: nat
      in if n = 223 then [115, 115] else if n = 181 then [956] else [of_char (py_lower_char c)])"

definition casefold :: "string \<Rightarrow> code_points" where
  "casefold s = concat (map casefold_char s)"

text \<open>\<open>str.replace\<close> of one character, applied to the backslash (92), \<open>%\<close> (37) and \<open>_\<close> (95).\<close>

definition escape_point :: "nat \<Rightarrow> code_points \<Rightarrow> code_points" where
  "escape_point c s = concat (map (\<lambda>x. if x = c then [92, c] else [x]) s)"

definition keyword_pattern :: "string \<Rightarrow> code_points" where
  "keyword_pattern keyword =
     [37] @ escape_point 95 (escape_point 37 (escape_point 92 (casefold (py_strip keyword)))) @ [37]"

text \<open>SQL \<open>LIKE\<close> with the backslash as its escape character.\<close>

fun sql_like :: "code_points \<Rightarrow> code_points \<Rightarrow> bool" where
  "sql_like [] s = (s = [])"
| "sql_like (p # ps) s =
     (if p = 37 then sql_like ps s \<or> (case s of [] \<Rightarrow> False | _ # t \<Rightarrow> sql_like (p # ps) t)
      else if p = 95 then (case s of [] \<Rightarrow> False | _ # t \<Rightarrow> sql_like ps t)
      else if p = 92 then
        (case ps of [] \<Rightarrow> False
         | q # qs \<Rightarrow> (case s of [] \<Rightarrow> False | x # t \<Rightarrow> x = q \<and> sql_like qs t))
      else (case s of [] \<Rightarrow> False | x # t \<Rightarrow> x = p \<and> sql_like ps t))"

definition bounded_filters :: "string list option \<Rightarrow> string list res" where
  "bounded_filters values =
     (case values of None \<Rightarrow> Inr []
      | Some vs \<Rightarrow>
          if 32 < length vs \<or> \<not> (\<forall>v \<in> set vs. audit_required 128 v) then Inl PyValueError else Inr vs)"

text \<open>The validated arguments of a listing, and the \<open>WHERE\<close> clause they make.\<close>

record audit_filter =
  af_owner_id :: string
  af_classes :: "string list"
  af_outcomes :: "string list"
  af_from :: "instant option"
  af_to :: "instant option"
  af_keyword :: "string option"

definition make_filter ::
  "string \<Rightarrow> string list option \<Rightarrow> string list option \<Rightarrow> pytime option \<Rightarrow> pytime option \<Rightarrow> string option
     \<Rightarrow> int \<Rightarrow> audit_filter res" where
  "make_filter owner_id event_classes outcomes from_ts to_ts keyword limit =
     (if \<not> audit_required 512 owner_id then Inl PyValueError
      else if \<not> (1 \<le> limit \<and> limit \<le> 200) then Inl PyValueError
      else case bounded_filters event_classes of Inl x \<Rightarrow> Inl x | Inr classes \<Rightarrow>
       (case bounded_filters outcomes of Inl x \<Rightarrow> Inl x | Inr selected \<Rightarrow>
        (if \<not> (\<forall>v \<in> set selected. v \<in> set audit_outcomes) then Inl PyValueError
         else case optional_aware from_ts of Inl x \<Rightarrow> Inl x | Inr lo \<Rightarrow>
          (case optional_aware to_ts of Inl x \<Rightarrow> Inl x | Inr hi \<Rightarrow>
           (if case (lo, hi) of (Some a, Some b) \<Rightarrow> b \<le> a | _ \<Rightarrow> False then Inl PyValueError
            else if case keyword of None \<Rightarrow> False | Some k \<Rightarrow> \<not> audit_required 256 k then Inl PyValueError
            else Inr \<lparr>af_owner_id = owner_id, af_classes = classes, af_outcomes = selected, af_from = lo,
                      af_to = hi, af_keyword = keyword\<rparr>)))))"

definition filter_matches :: "(string \<Rightarrow> code_points) \<Rightarrow> audit_filter \<Rightarrow> audit_row \<Rightarrow> bool" where
  "filter_matches lower f r =
     (let e = ar_event r
      in ev_chain_id e = af_owner_id f \<and>
         (af_classes f = [] \<or> ev_event_class e \<in> set (af_classes f)) \<and>
         (af_outcomes f = [] \<or> ev_outcome e \<in> set (af_outcomes f)) \<and>
         (case af_from f of None \<Rightarrow> True | Some a \<Rightarrow> a \<le> ar_recorded_at r) \<and>
         (case af_to f of None \<Rightarrow> True | Some b \<Rightarrow> ar_recorded_at r < b) \<and>
         (case af_keyword f of None \<Rightarrow> True
          | Some k \<Rightarrow> sql_like (keyword_pattern k) (lower (ev_description e)) \<or>
                     sql_like (keyword_pattern k) (lower (ev_action_type e))))"

abbreviation page_key :: "audit_row \<Rightarrow> instant \<times> string" where
  "page_key r \<equiv> (ar_recorded_at r, ev_event_id (ar_event r))"

text \<open>\<open>(recorded_at, event_id) < cursor\<close>; the cursor's id is read as a UUID.\<close>

fun cursor_bound :: "audit_cursor option \<Rightarrow> sql_error + (instant \<times> string) option" where
  "cursor_bound None = Inr None"
| "cursor_bound (Some c) =
     (case pg_uuid (ac_event_id c) of None \<Rightarrow> Inl InvalidTextRepresentation
      | Some u \<Rightarrow> Inr (Some (ac_recorded_at c, u)))"

definition page_sql ::
  "(string \<Rightarrow> code_points) \<Rightarrow> audit_filter \<Rightarrow> audit_cursor option \<Rightarrow> nat \<Rightarrow> audit_row list
     \<Rightarrow> sql_error + audit_row list \<times> audit_row list" where
  "page_sql lower f cursor n t =
     (case cursor_bound cursor of Inl x \<Rightarrow> Inl x
      | Inr bound \<Rightarrow>
          Inr (sql_page_desc (\<lambda>r. filter_matches lower f r \<and>
              (case bound of None \<Rightarrow> True | Some b \<Rightarrow> page_key r < b)) page_key n t, t))"

definition list_filtered ::
  "(string \<Rightarrow> code_points) \<Rightarrow> audit_filter \<Rightarrow> audit_cursor option \<Rightarrow> nat \<Rightarrow> (audit_row list, audit_page) tx" where
  "list_filtered lower f cursor limit =
     tx_bind (tx_stmt (page_sql lower f cursor (limit + 1))) (\<lambda>rows.
     tx_bind (tx_lift (traverse audit_record_of (take limit rows))) (\<lambda>records.
     tx_return \<lparr>ap_records = records,
       ap_next_cursor =
         (if limit < length rows
          then Some \<lparr>ac_recorded_at = au_recorded_at (last records),
                     ac_event_id = ev_event_id (au_event (last records))\<rparr>
          else None)\<rparr>))"

definition list_page ::
  "(string \<Rightarrow> code_points) \<Rightarrow> string \<Rightarrow> string list option \<Rightarrow> string list option \<Rightarrow> pytime option
     \<Rightarrow> pytime option \<Rightarrow> string option \<Rightarrow> audit_cursor option \<Rightarrow> int \<Rightarrow> (audit_row list, audit_page) tx" where
  "list_page lower owner_id event_classes outcomes from_ts to_ts keyword cursor limit =
     tx_bind (tx_lift (make_filter owner_id event_classes outcomes from_ts to_ts keyword limit)) (\<lambda>f.
     list_filtered lower f cursor (nat limit))"

text \<open>SQL \<open>REPLACE\<close>: every occurrence, left to right.\<close>

function replace_all :: "string \<Rightarrow> string \<Rightarrow> string \<Rightarrow> string" where
  "replace_all old new s =
     (if s = [] \<or> old = [] then s
      else if take (length old) s = old then new @ replace_all old new (drop (length old) s)
      else hd s # replace_all old new (tl s))"
  by pat_completeness auto

termination
  by (relation "measure (\<lambda>(old, new, s). length s)") (auto simp: length_tl neq_Nil_conv)

declare replace_all.simps [simp del]

definition tool_name :: "string \<Rightarrow> string" where
  "tool_name action = replace_all ''.end'' [] (replace_all ''tool.'' [] action)"

definition trajectory_of :: "audit_row \<Rightarrow> trajectory_event res" where
  "trajectory_of r =
     (let agent = (case ev_agent_id (ar_event r) of None \<Rightarrow> [] | Some a \<Rightarrow> a);
          correlation = ev_correlation_id (ar_event r); tool = tool_name (ev_action_type (ar_event r))
      in if audit_required 512 agent \<and> audit_required 128 correlation \<and> audit_required 256 tool
         then Inr \<lparr>te_agent_id = agent, te_correlation_id = correlation, te_tool_name = tool\<rparr>
         else Inl PyValueError)"

definition list_trajectory ::
  "(string \<Rightarrow> string) \<Rightarrow> pytime \<Rightarrow> pytime \<Rightarrow> int \<Rightarrow> (audit_row list, trajectory_event list) tx" where
  "list_trajectory coll from_ts to_ts limit =
     tx_bind (tx_lift (audit_aware from_ts)) (\<lambda>lo.
     tx_bind (tx_lift (audit_aware to_ts)) (\<lambda>hi.
     tx_bind (tx_require (lo \<le> hi) PyValueError) (\<lambda>_.
     tx_bind (tx_require (1 \<le> limit \<and> limit \<le> 2000) PyValueError) (\<lambda>_.
     tx_bind (tx_read (sql_page
         (\<lambda>r. ev_event_class (ar_event r) = ''agent_tool_call'' \<and>
              sql_like (code_points ''tool.%.end'') (code_points (ev_action_type (ar_event r))) \<and>
              ev_agent_id (ar_event r) \<noteq> None \<and> lo \<le> ar_recorded_at r \<and> ar_recorded_at r \<le> hi)
         (\<lambda>r. (coll (the (ev_agent_id (ar_event r))), ev_correlation_id (ar_event r), ar_recorded_at r,
               ev_event_id (ar_event r)))
         (nat limit))) (\<lambda>rows.
     tx_lift (traverse trajectory_of rows))))))"

subsection \<open>Keyword search\<close>

definition escaped :: "code_points \<Rightarrow> code_points" where
  "escaped w = concat (map (\<lambda>x. if x \<in> {37, 92, 95} then [92, x] else [x]) w)"

lemma escape_point_append: "escape_point c (u @ v) = escape_point c u @ escape_point c v"
  by (simp add: escape_point_def)

lemma escape_points: "escape_point 95 (escape_point 37 (escape_point 92 w)) = escaped w"
proof (induction w)
  case (Cons x w)
  have "escape_point 92 (x # w) = escape_point 92 [x] @ escape_point 92 w" by (simp add: escape_point_def)
  then have "escape_point 95 (escape_point 37 (escape_point 92 (x # w))) =
      escape_point 95 (escape_point 37 (escape_point 92 [x])) @ escaped w"
    by (simp add: escape_point_append Cons)
  moreover have "escape_point 95 (escape_point 37 (escape_point 92 [x])) = (if x \<in> {37, 92, 95} then [92, x] else [x])"
    by (simp add: escape_point_def)
  ultimately show ?case by (simp add: escaped_def)
qed (simp add: escape_point_def escaped_def)

lemma sql_like_escaped: "sql_like (escaped w @ ps) s \<longleftrightarrow> (\<exists>t. s = w @ t \<and> sql_like ps t)"
proof (induction w arbitrary: s)
  case (Cons x w)
  have "escaped (x # w) = (if x \<in> {37, 92, 95} then [92, x] else [x]) @ escaped w" by (simp add: escaped_def)
  with Cons.IH show ?case by (cases s) auto
qed (simp add: escaped_def)

lemma sql_like_any: "sql_like (37 # ps) s \<longleftrightarrow> (\<exists>u t. s = u @ t \<and> sql_like ps t)"
proof (induction s)
  case (Cons x s)
  have "sql_like (37 # ps) (x # s) \<longleftrightarrow> sql_like ps (x # s) \<or> (\<exists>u t. s = u @ t \<and> sql_like ps t)"
    using Cons.IH by (subst sql_like.simps(2)) simp
  also have "\<dots> \<longleftrightarrow> (\<exists>u t. x # s = u @ t \<and> sql_like ps t)" by (auto simp: Cons_eq_append_conv)
  finally show ?case .
qed simp

text \<open>
  C19. A keyword is searched literally. The pattern made from a keyword matches a text exactly when
  the stripped, case-folded keyword occurs in it as a block: the characters \<open>%\<close>, \<open>_\<close> and the
  backslash of the keyword never act as wildcards.
\<close>

theorem keyword_is_literal:
  "sql_like (keyword_pattern k) s \<longleftrightarrow> sublist (casefold (py_strip k)) s"
proof -
  have "sql_like (keyword_pattern k) s \<longleftrightarrow>
      (\<exists>u t. s = u @ t \<and> sql_like (escaped (casefold (py_strip k)) @ [37]) t)"
    by (simp only: keyword_pattern_def escape_points append.simps sql_like_any)
  also have "\<dots> \<longleftrightarrow> (\<exists>u v. s = u @ casefold (py_strip k) @ v)"
    using sql_like_any [of "[]"] by (simp add: sql_like_escaped) blast
  finally show ?thesis by (simp add: sublist_def)
qed

subsection \<open>Walking the pages\<close>

text \<open>A client that follows \<open>next_cursor\<close> until there is none, for at most \<open>n\<close> pages.\<close>

fun walk_pages :: "nat \<Rightarrow> (audit_cursor option \<Rightarrow> (audit_row list, audit_page) tx) \<Rightarrow> audit_cursor option
     \<Rightarrow> audit_row list \<Rightarrow> audit_record list option" where
  "walk_pages 0 page cursor t = None"
| "walk_pages (Suc n) page cursor t =
     (case page cursor t of
        (Inl _, _) \<Rightarrow> None
      | (Inr pg, _) \<Rightarrow>
          (case ap_next_cursor pg of None \<Rightarrow> Some (ap_records pg)
           | Some c \<Rightarrow> map_option ((@) (ap_records pg)) (walk_pages n page (Some c) t)))"

abbreviation matching :: "(string \<Rightarrow> code_points) \<Rightarrow> audit_filter \<Rightarrow> audit_row list \<Rightarrow> audit_row list" where
  "matching lower f t \<equiv> rev (sort_key page_key (filter (filter_matches lower f) t))"

lemma sorted_distinct_split:
  fixes k :: "'r \<Rightarrow> 'k::linorder"
  assumes "distinct (map k F)" and "rev (sort_key k F) = xs @ r # ys"
  shows "\<And>x. x \<in> set xs \<Longrightarrow> k r < k x" "\<And>y. y \<in> set ys \<Longrightarrow> k y < k r"
proof -
  have S: "sort_key k F = rev ys @ r # rev xs" using arg_cong [OF assms(2), of rev] by simp
  have "sorted (map k (sort_key k F))" by simp
  moreover have "distinct (map k (sort_key k F))" using assms(1) by (simp only: distinct_map distinct_sort set_sort)
  ultimately have "sorted_wrt (<) (map k (rev ys @ r # rev xs))" unfolding S by (simp only: strict_sorted_iff)
  then show "\<And>x. x \<in> set xs \<Longrightarrow> k r < k x" "\<And>y. y \<in> set ys \<Longrightarrow> k y < k r"
    by (simp_all add: sorted_wrt_append)
qed

lemma sql_desc_below:
  fixes k :: "'r \<Rightarrow> 'k::linorder"
  assumes "distinct (map k (filter w t))" and "rev (sort_key k (filter w t)) = xs @ r # ys"
  shows "sql_page_desc (\<lambda>x. w x \<and> k x < k r) k n t = take n ys"
proof -
  note d = sorted_distinct_split [OF assms]
  have "rev (sort_key k (filter (\<lambda>x. w x \<and> k x < k r) t)) = filter (\<lambda>x. k x < k r) (rev (sort_key k (filter w t)))"
    by (simp add: filter_sort rev_filter [symmetric] conj_commute)
  also have "\<dots> = ys"
  proof -
    have "filter (\<lambda>x. k x < k r) xs = []" using d(1) by (auto simp: filter_empty_conv dest: less_asym)
    moreover have "filter (\<lambda>x. k x < k r) ys = ys" using d(2) by (simp add: filter_id_conv)
    ultimately show ?thesis unfolding assms(2) by simp
  qed
  finally show ?thesis by (simp add: sql_page_desc_def)
qed

abbreviation row_cursor :: "audit_row \<Rightarrow> audit_cursor" where
  "row_cursor r \<equiv> \<lparr>ac_recorded_at = ar_recorded_at r, ac_event_id = ev_event_id (ar_event r)\<rparr>"

abbreviation row_record :: "audit_row \<Rightarrow> audit_record" where
  "row_record r \<equiv> projr (audit_record_of r)"

text \<open>The position a cursor stands for: after the rows \<open>xs\<close>.\<close>

definition cursor_after :: "audit_row list \<Rightarrow> audit_cursor option" where
  "cursor_after xs = (if xs = [] then None else Some (row_cursor (last xs)))"

lemma page_rows:
  assumes ok: "audit_ok t" and M: "matching lower f t = xs @ ys"
  shows "page_sql lower f (cursor_after xs) n t = Inr (take n ys, t)"
proof (cases xs rule: rev_cases)
  case Nil
  with M show ?thesis by (simp add: page_sql_def cursor_after_def sql_page_desc_def)
next
  case (snoc zs r)
  with M have "r \<in> set (matching lower f t)" by simp
  then have "r \<in> set t" by simp
  with ok have "pg_uuid (ev_event_id (ar_event r)) = Some (ev_event_id (ar_event r))"
    by (simp add: table_ok_def audit_row_ok_def Let_def)
  moreover have "distinct (map page_key (filter (filter_matches lower f) t))"
  proof (rule distinct_map_filter)
    have "distinct (map snd (map page_key t))" using aei.distinct_rows [OF ok] by (simp add: comp_def)
    then show "distinct (map page_key t)" by (rule distinct_map [THEN iffD1, THEN conjunct1])
  qed
  ultimately show ?thesis
    using M snoc sql_desc_below [of page_key "filter_matches lower f" t zs r ys n]
    by (simp add: page_sql_def cursor_after_def)
qed

lemma list_filtered_page:
  assumes ok: "audit_ok t" and M: "matching lower f t = xs @ ys" and "0 < limit"
    and read: "\<And>r. r \<in> set t \<Longrightarrow> filter_matches lower f r \<Longrightarrow> \<exists>x. audit_record_of r = Inr x"
  shows "list_filtered lower f (cursor_after xs) limit t =
    (Inr \<lparr>ap_records = map row_record (take limit ys),
          ap_next_cursor = (if limit < length ys then cursor_after (xs @ take limit ys) else None)\<rparr>, t)"
proof -
  have mem: "r \<in> set t \<and> filter_matches lower f r" if "r \<in> set ys" for r
  proof -
    from that M have "r \<in> set (matching lower f t)" by simp
    then show ?thesis by simp
  qed
  have rec: "audit_record_of r = Inr (row_record r)" if "r \<in> set ys" for r
    using read mem [OF that] by fastforce
  then have trav: "traverse audit_record_of (take limit ys) = Inr (map row_record (take limit ys))"
    by (intro traverse_map) (auto dest: in_set_takeD)
  have rows: "page_sql lower f (cursor_after xs) (limit + 1) t = Inr (take (limit + 1) ys, t)"
    by (rule page_rows [OF ok M])
  show ?thesis
  proof (cases "limit < length ys")
    case True
    then have ne: "take limit ys \<noteq> []" using assms(3) by auto
    then have "last (take limit ys) \<in> set ys" using last_in_set in_set_takeD by metis
    from audit_record_of_fields [OF rec [OF this]] ne
    have "last (map row_record (take limit ys)) = row_record (last (take limit ys))"
      "au_recorded_at (row_record (last (take limit ys))) = ar_recorded_at (last (take limit ys))"
      "ev_event_id (au_event (row_record (last (take limit ys)))) = ev_event_id (ar_event (last (take limit ys)))"
      by (simp_all add: last_map)
    moreover have "cursor_after (xs @ take limit ys) = Some (row_cursor (last (take limit ys)))"
      using ne by (simp add: cursor_after_def)
    ultimately show ?thesis using True rows trav
      by (simp add: list_filtered_def tx_bind_stmt(1) [where f = "page_sql lower f (cursor_after xs) (Suc limit)"]
          tx_simps min_def)
  next
    case False
    with rows trav show ?thesis
      by (simp add: list_filtered_def tx_bind_stmt(1) [where f = "page_sql lower f (cursor_after xs) (Suc limit)"]
          tx_simps min_def)
  qed
qed

lemma walk_from:
  assumes ok: "audit_ok t" and "0 < limit"
    and read: "\<And>r. r \<in> set t \<Longrightarrow> filter_matches lower f r \<Longrightarrow> \<exists>x. audit_record_of r = Inr x"
    and "matching lower f t = xs @ ys" and "length ys < n"
  shows "walk_pages n (\<lambda>c. list_filtered lower f c limit) (cursor_after xs) t = Some (map row_record ys)"
  using assms(4,5)
proof (induction n arbitrary: xs ys)
  case (Suc n)
  note pg = list_filtered_page [OF ok Suc.prems(1) assms(2) read]
  show ?case
  proof (cases "limit < length ys")
    case True
    have "matching lower f t = (xs @ take limit ys) @ drop limit ys" using Suc.prems(1) by simp
    moreover have "length (drop limit ys) < n" using Suc.prems(2) True assms(2) by simp
    ultimately have "walk_pages n (\<lambda>c. list_filtered lower f c limit) (cursor_after (xs @ take limit ys)) t =
        Some (map row_record (drop limit ys))" by (rule Suc.IH)
    moreover have "cursor_after (xs @ take limit ys) = Some (row_cursor (last (xs @ take limit ys)))"
      using True assms(2) by (auto simp: cursor_after_def)
    ultimately show ?thesis using True pg by (simp flip: map_append)
  next
    case False
    with pg show ?thesis by simp
  qed
qed simp

text \<open>
  C20. Following the cursors lists every matching record exactly once. For any accepted filter and page
  size, a client that starts without a cursor and follows \<open>next_cursor\<close> ends after at most one
  more page than there are rows, with the records of all matching rows in descending order of
  recording time and id.
\<close>

theorem pages_cover_the_log:
  assumes "audit_ok t"
    and filter: "make_filter owner classes outcomes from_ts to_ts keyword limit = Inr f"
    and "\<And>r. r \<in> set t \<Longrightarrow> chain_of r = owner \<Longrightarrow> \<exists>x. audit_record_of r = Inr x"
  shows "walk_pages (length t + 1)
      (\<lambda>c. list_page lower owner classes outcomes from_ts to_ts keyword c limit) None t =
    Some (map row_record (matching lower f t))"
proof -
  have f: "af_owner_id f = owner" "0 < nat limit"
    using filter by (auto simp: make_filter_def split: if_splits sum.splits)
  have page: "list_page lower owner classes outcomes from_ts to_ts keyword c limit = list_filtered lower f c (nat limit)" for c
    by (rule ext) (simp add: list_page_def filter tx_simps)
  have "walk_pages (length t + 1) (\<lambda>c. list_filtered lower f c (nat limit)) (cursor_after []) t =
      Some (map row_record (matching lower f t))"
    by (rule walk_from [OF assms(1) f(2)])
      (use assms(3) f(1) in \<open>auto simp: filter_matches_def Let_def less_Suc_eq_le\<close>)
  then show ?thesis by (simp add: page cursor_after_def)
qed

theorem pages_cover_the_log_witness:
  "walk_pages 2 (\<lambda>c. list_page code_points ''ann'' None None None None None c 1) None [sample_row] =
    Some [sample_record]"
proof -
  let ?f = "\<lparr>af_owner_id = ''ann'', af_classes = [], af_outcomes = [], af_from = None, af_to = None, af_keyword = None\<rparr>"
  have rec: "audit_record_of sample_row = Inr sample_record"
    using audit_record_of_event [OF make_event_ok [OF sample_event_made], of 1 GENESIS_DIGEST "replicate 32 7" 5]
    by (simp add: sample_row_def sample_record_def GENESIS_DIGEST_def)
  have "audit_row_ok sample_row" by code_simp
  then have ok: "audit_ok [sample_row]" by (simp add: table_ok_def)
  have "make_filter ''ann'' None None None None None 1 = Inr ?f"
    by (simp add: make_filter_def bounded_filters_def optional_aware_def audit_required_def py_strip_def py_space_def)
  from pages_cover_the_log [OF ok this, of code_points] rec
  have "walk_pages (length [sample_row] + 1) (\<lambda>c. list_page code_points ''ann'' None None None None None c 1) None [sample_row] =
      Some (map row_record (matching code_points ?f [sample_row]))" by auto
  moreover have "matching code_points ?f [sample_row] = [sample_row]"
    by (simp add: filter_matches_def sample_row_def sample_event_def Let_def)
  ultimately show ?thesis using rec by (simp add: numeral_2_eq_2)
qed

end
