(* ===== verification/AuditRetention.thy ===== *)
theory AuditRetention
  imports AuditChain
begin

text \<open>
  Retention of the audit log: \<open>audit_retention.py\<close>. A prefix of a chain is deleted only together
  with an authenticated anchor that records the digest the retained part continues from. The
  locale states what the code needs from an anchor authenticator; the HMAC authenticator of the
  source provides it.
\<close>

subsection \<open>Anchors\<close>

record retention_anchor =
  an_anchor_id :: string
  an_chain_id :: string
  an_first_retained :: int
  an_previous_digest :: bytes
  an_policy_digest :: bytes
  an_created_at :: instant
  an_key_id :: string
  an_authentication :: bytes

record prune_result =
  pr_anchor :: retention_anchor
  pr_deleted_events :: int

record anchor_authenticator =
  aa_sign :: "string \<Rightarrow> bytes \<Rightarrow> bytes res"
  aa_verify :: "string \<Rightarrow> bytes \<Rightarrow> bytes \<Rightarrow> bool res"

definition hmac_sign :: "(string \<Rightarrow> bytes) \<Rightarrow> string \<Rightarrow> bytes \<Rightarrow> bytes res" where
  "hmac_sign key_resolver key_id payload =
     (let key = key_resolver key_id
      in if length key < 32 then Inl PyValueError else Inr (hmac_sha256 key payload))"

definition hmac_verify :: "(string \<Rightarrow> bytes) \<Rightarrow> string \<Rightarrow> bytes \<Rightarrow> bytes \<Rightarrow> bool res" where
  "hmac_verify key_resolver key_id payload authentication =
     (case hmac_sign key_resolver key_id payload of Inl x \<Rightarrow> Inl x | Inr s \<Rightarrow> Inr (s = authentication))"

definition HMACAnchorAuthenticator :: "(string \<Rightarrow> bytes) \<Rightarrow> anchor_authenticator" where
  "HMACAnchorAuthenticator key_resolver =
     \<lparr>aa_sign = hmac_sign key_resolver, aa_verify = hmac_verify key_resolver\<rparr>"

text \<open>\<open>AuditRetentionAnchor.__post_init__\<close>.\<close>

definition anchor_fields_ok :: "retention_anchor \<Rightarrow> bool" where
  "anchor_fields_ok a =
     (audit_required 512 (an_anchor_id a) \<and> audit_required 512 (an_chain_id a) \<and>
      audit_required 512 (an_key_id a) \<and> 1 < an_first_retained a \<and>
      length (an_previous_digest a) = 32 \<and> length (an_policy_digest a) = 32 \<and> an_authentication a \<noteq> [])"

definition make_anchor :: "retention_anchor \<Rightarrow> retention_anchor res" where
  "make_anchor a = (if anchor_fields_ok a then Inr a else Inl PyValueError)"

definition canonical_anchor_bytes :: "retention_anchor \<Rightarrow> bytes res" where
  "canonical_anchor_bytes a =
     (if in_datetime_range (an_created_at a) then
        Inr (utf8 (json_dumps True (JObj
          [(''type'', JStr ''astral.audit-retention-anchor/v1''),
           (''anchor_id'', JStr (an_anchor_id a)),
           (''owner_or_chain'', JStr (an_chain_id a)),
           (''first_retained_sequence'', JInt (an_first_retained a)),
           (''previous_entry_digest'', JStr (to_hex (an_previous_digest a))),
           (''retention_policy_digest'', JStr (to_hex (an_policy_digest a))),
           (''created_at'', JStr (utc_iso (an_created_at a))),
           (''key_id'', JStr (an_key_id a))])))
      else Inl PyOverflowError)"

text \<open>\<open>verify_anchor\<close>: any exception counts as a failed verification.\<close>

definition verify_anchor :: "anchor_authenticator \<Rightarrow> retention_anchor \<Rightarrow> bool" where
  "verify_anchor authenticator a =
     (case canonical_anchor_bytes a of Inl _ \<Rightarrow> False
      | Inr b \<Rightarrow> (case aa_verify authenticator (an_key_id a) b (an_authentication a) of
                    Inl _ \<Rightarrow> False | Inr ok \<Rightarrow> ok))"

definition build_anchor ::
  "anchor_authenticator \<Rightarrow> string \<Rightarrow> string \<Rightarrow> int \<Rightarrow> bytes \<Rightarrow> bytes \<Rightarrow> instant \<Rightarrow> string \<Rightarrow> retention_anchor res" where
  "build_anchor authenticator anchor_id chain_id first prev policy created key_id =
     (case make_anchor \<lparr>an_anchor_id = anchor_id, an_chain_id = chain_id, an_first_retained = first,
          an_previous_digest = prev, an_policy_digest = policy, an_created_at = created,
          an_key_id = key_id, an_authentication = map (\<lambda>c. of_nat (of_char c)) ''pending''\<rparr> of
        Inl x \<Rightarrow> Inl x
      | Inr draft \<Rightarrow>
          (case canonical_anchor_bytes draft of Inl x \<Rightarrow> Inl x
           | Inr b \<Rightarrow> (case aa_sign authenticator key_id b of Inl x \<Rightarrow> Inl x
              | Inr s \<Rightarrow> make_anchor (draft\<lparr>an_authentication := s\<rparr>))))"

subsection \<open>Tables\<close>

record audit_db =
  db_events :: "audit_row list"
  db_anchors :: "retention_anchor list"
  db_allow_purge :: bool  \<comment> \<open>the transaction's setting \<open>audit.allow_purge\<close>\<close>

definition anchor_row_ok :: "retention_anchor \<Rightarrow> bool" where
  "anchor_row_ok a =
     (pg_text (an_anchor_id a) \<and> pg_text (an_chain_id a) \<and> pg_text (an_key_id a) \<and>
      1 < an_first_retained a \<and> an_first_retained a \<le> MAX_BIGINT \<and>
      length (an_previous_digest a) = 32 \<and> length (an_policy_digest a) = 32)"

definition anchor_conflict :: "retention_anchor \<Rightarrow> retention_anchor \<Rightarrow> bool" where
  "anchor_conflict a b =
     (an_anchor_id a = an_anchor_id b \<or>
      an_chain_id a = an_chain_id b \<and> an_first_retained a = an_first_retained b)"

definition anchor_arbiter :: "retention_anchor \<Rightarrow> retention_anchor \<Rightarrow> bool" where
  "anchor_arbiter a b = (an_chain_id a = an_chain_id b \<and> an_first_retained a = an_first_retained b)"

abbreviation on_events :: "(audit_row list, 'a) tx \<Rightarrow> (audit_db, 'a) tx" where
  "on_events \<equiv> tx_on db_events (\<lambda>t d. d\<lparr>db_events := t\<rparr>)"

abbreviation on_anchors :: "(retention_anchor list, 'a) tx \<Rightarrow> (audit_db, 'a) tx" where
  "on_anchors \<equiv> tx_on db_anchors (\<lambda>t d. d\<lparr>db_anchors := t\<rparr>)"

subsection \<open>The repository\<close>

text \<open>Reading a stored anchor repeats the checks of its constructor.\<close>

definition load_anchor :: "string \<Rightarrow> int \<Rightarrow> (audit_db, retention_anchor option) tx" where
  "load_anchor chain_id first =
     tx_bind (tx_read (\<lambda>d. List.find (\<lambda>a. an_chain_id a = chain_id \<and> an_first_retained a = first) (db_anchors d)))
       (\<lambda>row.
     case row of None \<Rightarrow> tx_return None
     | Some a \<Rightarrow> tx_bind (tx_lift (make_anchor a)) (\<lambda>anchor. tx_return (Some anchor)))"

definition chain_row :: "string \<Rightarrow> int \<Rightarrow> audit_db \<Rightarrow> audit_row option" where
  "chain_row chain_id n d = List.find (\<lambda>r. chain_of r = chain_id \<and> ar_sequence r = n) (db_events d)"

abbreviation retention_error :: "string \<Rightarrow> plane_error" where
  "retention_error code \<equiv> err_code AuditRetentionError code"

definition replay_prune ::
  "anchor_authenticator \<Rightarrow> string \<Rightarrow> int \<Rightarrow> bytes \<Rightarrow> audit_row \<Rightarrow> (audit_db, prune_result) tx" where
  "replay_prune authenticator chain_id first policy boundary =
     tx_bind (load_anchor chain_id first) (\<lambda>existing.
     case existing of
       None \<Rightarrow> tx_raise (retention_error ''audit_retention_anchor_missing'')
     | Some a \<Rightarrow>
         tx_bind (tx_lift (digest_bytes (ar_prev_hash boundary))) (\<lambda>prev.
         if an_previous_digest a \<noteq> prev \<or> an_policy_digest a \<noteq> policy \<or> \<not> verify_anchor authenticator a
         then tx_raise (retention_error ''audit_retention_anchor_missing'')
         else tx_return \<lparr>pr_anchor = a, pr_deleted_events = 0\<rparr>))"

definition insert_anchor :: "retention_anchor \<Rightarrow> (audit_db, retention_anchor option) tx" where
  "insert_anchor candidate =
     tx_bind (on_anchors (tx_stmt (sql_insert_or_skip anchor_row_ok anchor_arbiter anchor_conflict candidate)))
       (\<lambda>inserted.
     case inserted of
       Some a \<Rightarrow> tx_bind (tx_lift (make_anchor a)) (\<lambda>anchor. tx_return (Some anchor))
     | None \<Rightarrow> load_anchor (an_chain_id candidate) (an_first_retained candidate))"

definition allow_purge :: "(audit_db, unit) tx" where
  "allow_purge d = (Inr (), d\<lparr>db_allow_purge := True\<rparr>)"

text \<open>
  A \<open>DELETE\<close> on the events under the trigger \<open>audit_events_protect\<close>, which fires for every row and
  refuses unless the transaction allowed the purge.
\<close>

definition delete_events :: "(audit_row \<Rightarrow> bool) \<Rightarrow> (audit_db, int) tx" where
  "delete_events p d =
     (case sql_delete p (db_events d) of
        (deleted, t') \<Rightarrow>
          if deleted \<noteq> [] \<and> \<not> db_allow_purge d then (Inl (DriverError InsufficientPrivilege), d)
          else (Inr (int (length deleted)), d\<lparr>db_events := t'\<rparr>))"

definition delete_prefix :: "string \<Rightarrow> int \<Rightarrow> (audit_db, int) tx" where
  "delete_prefix chain_id first =
     tx_bind allow_purge (\<lambda>_. delete_events (\<lambda>r. chain_of r = chain_id \<and> ar_sequence r < first))"

definition prune_prefix ::
  "anchor_authenticator \<Rightarrow> string \<Rightarrow> int \<Rightarrow> string \<Rightarrow> bytes \<Rightarrow> pytime \<Rightarrow> string \<Rightarrow> (audit_db, prune_result) tx" where
  "prune_prefix authenticator chain_id first anchor_id policy created_at key_id =
     tx_bind (tx_require (1 < first) PyValueError) (\<lambda>_.
     tx_bind (tx_lift (digest_bytes policy)) (\<lambda>_.
     tx_bind (tx_lift (audit_aware created_at)) (\<lambda>created.
     tx_bind (tx_read (chain_row chain_id first)) (\<lambda>boundary.
     case boundary of
       None \<Rightarrow> tx_raise (retention_error ''audit_retention_boundary_missing'')
     | Some b \<Rightarrow>
       tx_bind (tx_read (chain_row chain_id (first - 1))) (\<lambda>previous.
       case previous of
         None \<Rightarrow> replay_prune authenticator chain_id first policy b
       | Some p \<Rightarrow>
         tx_bind (tx_lift (digest_bytes (ar_entry_hash p))) (\<lambda>previous_digest.
         tx_bind (tx_lift (digest_bytes (ar_prev_hash b))) (\<lambda>joined.
         tx_bind (tx_require (joined = previous_digest) (retention_error ''audit_retention_boundary_tampered''))
           (\<lambda>_.
         tx_bind (tx_lift (build_anchor authenticator anchor_id chain_id first previous_digest policy created key_id))
           (\<lambda>candidate.
         tx_bind (insert_anchor candidate) (\<lambda>durable.
         tx_bind (tx_require (durable = Some candidate \<and> verify_anchor authenticator candidate)
             (retention_error ''audit_retention_anchor_conflict'')) (\<lambda>_.
         tx_bind (delete_prefix chain_id first) (\<lambda>deleted.
         tx_return \<lparr>pr_anchor = candidate, pr_deleted_events = deleted\<rparr>))))))))))))"

definition invalid_retention :: "audit_record \<Rightarrow> string \<Rightarrow> chain_verification" where
  "invalid_retention r reason =
     \<lparr>cv_valid = False, cv_first_invalid = Some (ev_event_id (au_event r)), cv_reason = Some reason,
      cv_last_sequence = au_sequence r - 1, cv_last_digest = GENESIS_DIGEST\<rparr>"

definition verify_retained_chain ::
  "authenticator \<Rightarrow> anchor_authenticator \<Rightarrow> string \<Rightarrow> (audit_db, chain_verification) tx" where
  "verify_retained_chain authenticate_event authenticate_anchor chain_id =
     tx_bind (on_events (load_chain chain_id 1)) (\<lambda>records.
     case records of
       [] \<Rightarrow> tx_return (verified 0 GENESIS_DIGEST)
     | r # _ \<Rightarrow>
       if au_sequence r = 1 then
         tx_lift (verify_records authenticate_event chain_id 1 GENESIS_DIGEST records)
       else
         tx_bind (load_anchor chain_id (au_sequence r)) (\<lambda>anchor.
         case anchor of
           None \<Rightarrow> tx_return (invalid_retention r ''missing_retention_anchor'')
         | Some a \<Rightarrow>
             if \<not> verify_anchor authenticate_anchor a
             then tx_return (invalid_retention r ''invalid_retention_anchor'')
             else if an_chain_id a \<noteq> chain_id \<or> an_previous_digest a \<noteq> au_previous_digest r \<or>
                     an_first_retained a \<noteq> au_sequence r
             then tx_return (invalid_retention r ''retention_anchor_mismatch'')
             else tx_lift (verify_records authenticate_event chain_id (au_sequence r)
                    (an_previous_digest a) records)))"

subsection \<open>Pruning keeps what the chain proves\<close>

lemma sorted_threshold:
  "sorted (map g xs) \<Longrightarrow> filter (\<lambda>x. g x < k) xs @ filter (\<lambda>x. k \<le> g x) xs = xs"
proof (induction xs)
  case (Cons x xs)
  then have ih: "filter (\<lambda>x. g x < k) xs @ filter (\<lambda>x. k \<le> g x) xs = xs" by simp
  show ?case
  proof (cases "g x < k")
    case False
    with Cons.prems have "filter (\<lambda>x. g x < k) xs = []" by (auto simp: filter_empty_conv)
    with False ih show ?thesis by simp
  qed (use ih in auto)
qed simp

lemma chain_rows_split:
  "chain_rows c 1 t = filter (\<lambda>r. ar_sequence r < k) (chain_rows c 1 t) @
     chain_rows c 1 (filter (\<lambda>r. \<not> (chain_of r = c \<and> ar_sequence r < k)) t)"
proof -
  let ?S = "chain_rows c 1 t"
  have "sorted (map chain_key ?S)" by simp
  then have "sorted (map ar_sequence ?S)"
    by (auto simp: sorted_wrt_map elim!: sorted_wrt_mono_rel [rotated])
  from sorted_threshold [OF this, of k]
  have "filter (\<lambda>r. ar_sequence r < k) ?S @ filter (\<lambda>r. k \<le> ar_sequence r) ?S = ?S" .
  moreover have "filter (\<lambda>r. k \<le> ar_sequence r) ?S =
      chain_rows c 1 (filter (\<lambda>r. \<not> (chain_of r = c \<and> ar_sequence r < k)) t)"
  proof -
    have "filter (\<lambda>r. k \<le> ar_sequence r \<and> chain_of r = c \<and> 1 \<le> ar_sequence r) t =
        filter (\<lambda>r. (chain_of r = c \<and> 1 \<le> ar_sequence r) \<and> \<not> (chain_of r = c \<and> ar_sequence r < k)) t"
      by (intro filter_cong) auto
    then show ?thesis by (simp add: filter_sort conj_commute)
  qed
  ultimately show ?thesis by simp
qed

lemma traverse_append:
  "traverse f (xs @ ys) = Inr zs \<Longrightarrow> (\<exists>us vs. zs = us @ vs \<and> traverse f xs = Inr us \<and> traverse f ys = Inr vs)"
  by (auto simp: traverse_Inr_iff list_all2_append1)

lemma load_anchor_Inr:
  "load_anchor c n d = (Inr x, d') \<longleftrightarrow>
     d' = d \<and> (case List.find (\<lambda>a. an_chain_id a = c \<and> an_first_retained a = n) (db_anchors d) of
        None \<Rightarrow> x = None | Some a \<Rightarrow> x = Some a \<and> anchor_fields_ok a)"
  by (auto simp: load_anchor_def tx_success make_anchor_def split: option.splits if_splits)

lemma load_anchor_found:
  "load_anchor c n d = (Inr (Some a), d') \<Longrightarrow> an_chain_id a = c \<and> an_first_retained a = n"
  by (auto simp: load_anchor_Inr split: option.splits dest: find_SomeD)

lemma retained_elim:
  assumes "verify_retained_chain A au c d = (Inr v, d')" "cv_valid v"
  obtains rs n p where "d' = d" "traverse audit_record_of (chain_rows c 1 (db_events d)) = Inr rs"
    and "length p = 32" "verify_loop A c n p rs = Inr v"
proof -
  from assms(1) obtain rs where rs: "traverse audit_record_of (chain_rows c 1 (db_events d)) = Inr rs"
    and rest: "(case rs of [] \<Rightarrow> tx_return (verified 0 GENESIS_DIGEST)
     | r # _ \<Rightarrow>
       if au_sequence r = 1 then tx_lift (verify_records A c 1 GENESIS_DIGEST rs)
       else
         tx_bind (load_anchor c (au_sequence r)) (\<lambda>anchor.
         case anchor of
           None \<Rightarrow> tx_return (invalid_retention r ''missing_retention_anchor'')
         | Some a \<Rightarrow>
             if \<not> verify_anchor au a then tx_return (invalid_retention r ''invalid_retention_anchor'')
             else if an_chain_id a \<noteq> c \<or> an_previous_digest a \<noteq> au_previous_digest r \<or>
                     an_first_retained a \<noteq> au_sequence r
             then tx_return (invalid_retention r ''retention_anchor_mismatch'')
             else tx_lift (verify_records A c (au_sequence r) (an_previous_digest a) rs))) d = (Inr v, d')"
    by (auto simp: verify_retained_chain_def tx_success load_chain_Inr)
  show ?thesis
  proof (cases rs)
    case Nil
    with rest have "d' = d" "v = verified 0 GENESIS_DIGEST" by (simp_all add: tx_success)
    with rs Nil that [of "[]" GENESIS_DIGEST 1] show ?thesis by (simp add: GENESIS_DIGEST_def)
  next
    case (Cons r qs)
    with rest assms(2) obtain n p where "d' = d" "verify_records A c n p rs = Inr v"
      by (auto simp: tx_success invalid_retention_def load_anchor_Inr split: if_splits)
    with rs that show ?thesis by (auto simp: verify_records_def digest_bytes_def split: if_splits)
  qed
qed

lemma retained_intro:
  assumes "traverse audit_record_of (chain_rows c 1 (db_events d)) = Inr (r # rs)" "au_sequence r \<noteq> 1"
    and "load_anchor c (au_sequence r) d = (Inr (Some a), d)" "verify_anchor au a"
    and "an_previous_digest a = au_previous_digest r" "length (an_previous_digest a) = 32"
    and "verify_loop A c (au_sequence r) (an_previous_digest a) (r # rs) = Inr v"
  shows "verify_retained_chain A au c d = (Inr v, d)"
proof -
  have load: "on_events (load_chain c 1) d = (Inr (r # rs), d)"
    using assms(1) by (simp add: tx_success load_chain_Inr)
  show ?thesis
    using load_anchor_found [OF assms(3)] assms(2,4-7)
    by (simp add: verify_retained_chain_def tx_bind_Inr [where m = "on_events (load_chain c 1)", OF load]
        tx_bind_Inr [where m = "load_anchor c (au_sequence r)", OF assms(3)]
        verify_records_def digest_bytes_def tx_lift_def)
qed

lemma insert_anchor_load:
  assumes "insert_anchor a d = (Inr (Some a), d')"
  shows "load_anchor (an_chain_id a) (an_first_retained a) d' = (Inr (Some a), d')" "db_events d' = db_events d"
    "anchor_fields_ok a"
proof -
  let ?P = "\<lambda>b. an_chain_id b = an_chain_id a \<and> an_first_retained b = an_first_retained a"
  from assms consider
    "load_anchor (an_chain_id a) (an_first_retained a) d = (Inr (Some a), d')"
  | "db_events d' = db_events d" "db_anchors d' = db_anchors d @ [a]" "anchor_fields_ok a"
      "\<forall>b \<in> set (db_anchors d). an_chain_id a = an_chain_id b \<longrightarrow> an_first_retained a \<noteq> an_first_retained b"
    by (auto simp: insert_anchor_def tx_success make_anchor_def sql_insert_or_skip_def anchor_arbiter_def
        split: if_splits)
  then have "load_anchor (an_chain_id a) (an_first_retained a) d' = (Inr (Some a), d') \<and>
      db_events d' = db_events d \<and> anchor_fields_ok a"
  proof cases
    case 1
    then show ?thesis by (auto simp: load_anchor_Inr split: option.splits)
  next
    case 2
    then have "filter ?P (db_anchors d) = []" by (auto simp: filter_empty_conv)
    with 2(2) have "List.find ?P (db_anchors d') = Some a" by (simp add: find_filter)
    with 2 show ?thesis by (simp add: load_anchor_Inr)
  qed
  then show "load_anchor (an_chain_id a) (an_first_retained a) d' = (Inr (Some a), d')" "db_events d' = db_events d"
    "anchor_fields_ok a" by blast+
qed

lemma build_anchor_fields:
  assumes "build_anchor au aid c k p policy created key = Inr a"
  shows "an_chain_id a = c" "an_first_retained a = k" "an_previous_digest a = p" "an_policy_digest a = policy"
    "an_anchor_id a = aid" "an_key_id a = key" "an_created_at a = created"
  using assms by (auto simp: build_anchor_def make_anchor_def split: sum.splits if_splits)

text \<open>What a successful prune did.\<close>

lemma prune_prefix_Inr:
  assumes "prune_prefix au c k aid policy created key d = (Inr res, d')"
  shows "d' = d \<and> pr_deleted_events res = 0 \<or>
    (\<exists>b p d1. 1 < k \<and> chain_row c k d = Some b \<and> chain_row c (k - 1) d = Some p \<and>
      ar_prev_hash b = ar_entry_hash p \<and> length (ar_entry_hash p) = 32 \<and>
      insert_anchor (pr_anchor res) d = (Inr (Some (pr_anchor res)), d1) \<and>
      an_chain_id (pr_anchor res) = c \<and> an_first_retained (pr_anchor res) = k \<and>
      an_previous_digest (pr_anchor res) = ar_entry_hash p \<and> verify_anchor au (pr_anchor res) \<and>
      delete_prefix c k d1 = (Inr (pr_deleted_events res), d'))"
proof -
  consider b where "chain_row c k d = Some b" "chain_row c (k - 1) d = None"
      "replay_prune au c k policy b d = (Inr res, d')"
  | b p a x d1 where "1 < k" "chain_row c k d = Some b" "chain_row c (k - 1) d = Some p"
      "length (ar_entry_hash p) = 32" "ar_prev_hash b = ar_entry_hash p"
      "build_anchor au aid c k (ar_entry_hash p) policy x key = Inr a"
      "insert_anchor a d = (Inr (Some a), d1)" "verify_anchor au a"
      "delete_prefix c k d1 = (Inr (pr_deleted_events res), d')" "pr_anchor res = a"
    using assms by (auto simp: prune_prefix_def tx_success digest_bytes_def split: if_splits)
  then show ?thesis
  proof cases
    case 1
    then show ?thesis by (auto simp: replay_prune_def tx_success load_anchor_Inr)
  next
    case 2
    with build_anchor_fields [OF 2(6)] show ?thesis by blast
  qed
qed

lemma delete_prefix_result:
  "delete_prefix c k d =
     (Inr (int (length (filter (\<lambda>r. chain_of r = c \<and> ar_sequence r < k) (db_events d)))),
      d\<lparr>db_events := filter (\<lambda>r. \<not> (chain_of r = c \<and> ar_sequence r < k)) (db_events d),
        db_allow_purge := True\<rparr>)"
  by (simp add: delete_prefix_def allow_purge_def delete_events_def tx_bind_def sql_delete_def)

lemma delete_prefix_events:
  "delete_prefix c k d = (Inr n, d') \<Longrightarrow>
     d' = d\<lparr>db_events := filter (\<lambda>r. \<not> (chain_of r = c \<and> ar_sequence r < k)) (db_events d),
       db_allow_purge := True\<rparr> \<and>
     n = int (length (filter (\<lambda>r. chain_of r = c \<and> ar_sequence r < k) (db_events d)))"
  by (auto simp: delete_prefix_result)

lemma boundary_first:
  assumes ok: "audit_ok t" and b: "List.find (\<lambda>r. chain_of r = c \<and> ar_sequence r = k) t = Some b"
    and rows: "chain_rows c 1 (filter (\<lambda>r. \<not> (chain_of r = c \<and> ar_sequence r < k)) t) = S"
  obtains S' where "S = b # S'"
proof -
  let ?t = "filter (\<lambda>r. \<not> (chain_of r = c \<and> ar_sequence r < k)) t"
  have bt: "b \<in> set t" "chain_of b = c" "ar_sequence b = k" using find_SomeD [OF b] by auto
  moreover have "1 \<le> ar_sequence b" using ok bt(1) by (auto simp: table_ok_def audit_row_ok_def Let_def)
  ultimately have "b \<in> set S" unfolding rows [symmetric] by simp
  then obtain x S' where S: "S = x # S'" by (cases S) auto
  have x: "x \<in> set t" "chain_of x = c" "k \<le> ar_sequence x"
  proof -
    have "x \<in> set (chain_rows c 1 ?t)" using S rows by simp
    then show "x \<in> set t" "chain_of x = c" "k \<le> ar_sequence x" by auto
  qed
  have "sorted (map chain_key S)" unfolding rows [symmetric] by simp
  with S \<open>b \<in> set S\<close> have "chain_key x \<le> chain_key b" by auto
  then have "ar_sequence x = ar_sequence b" using x(3) bt(3) by (auto simp: less_eq_prod_def)
  then have "x = b" using x bt by (intro aes.key_unique [OF ok]) auto
  with S that show ?thesis by blast
qed

text \<open>The records of a chain, split at the first retained one.\<close>

lemma records_split:
  assumes ok: "audit_ok t" and b: "List.find (\<lambda>r. chain_of r = c \<and> ar_sequence r = k) t = Some b"
    and rs: "traverse audit_record_of (chain_rows c 1 t) = Inr rs"
  obtains r rs1 rs2 where "rs = rs1 @ r # rs2" "audit_record_of b = Inr r"
    and "traverse audit_record_of (chain_rows c 1 (filter (\<lambda>r. \<not> (chain_of r = c \<and> ar_sequence r < k)) t)) = Inr (r # rs2)"
    and "length rs1 = length (filter (\<lambda>r. chain_of r = c \<and> ar_sequence r < k) t)"
proof -
  let ?F = "filter (\<lambda>r. ar_sequence r < k) (chain_rows c 1 t)"
  let ?G = "chain_rows c 1 (filter (\<lambda>r. \<not> (chain_of r = c \<and> ar_sequence r < k)) t)"
  obtain S' where S': "?G = b # S'" using boundary_first [OF ok b] by blast
  have "traverse audit_record_of (?F @ b # S') = Inr rs" using rs chain_rows_split [of c t k] S' by simp
  from traverse_append [OF this] obtain r rs1 rs2 where split: "rs = rs1 @ r # rs2" "audit_record_of b = Inr r"
      "traverse audit_record_of (b # S') = Inr (r # rs2)" "traverse audit_record_of ?F = Inr rs1"
    by (auto split: sum.splits)
  have "length rs1 = length ?F" using split(4) by (auto simp: traverse_Inr_iff dest: list_all2_lengthD)
  also have "\<dots> = length (filter (\<lambda>r. ar_sequence r < k \<and> chain_of r = c \<and> 1 \<le> ar_sequence r) t)"
    by (simp add: filter_sort conj_commute)
  also have "filter (\<lambda>r. ar_sequence r < k \<and> chain_of r = c \<and> 1 \<le> ar_sequence r) t =
      filter (\<lambda>r. chain_of r = c \<and> ar_sequence r < k) t"
    using ok by (intro filter_cong) (auto simp: table_ok_def audit_row_ok_def Let_def)
  finally show ?thesis using split S' by (intro that) auto
qed

text \<open>
  C8. Pruning never costs the chain its proof. If the retained chain verifies before a successful
  prune, it verifies afterwards with the same head: the same last sequence number and the same last
  digest. The prune deletes exactly the events of that chain before the first retained one, and the
  count it reports is their number.
\<close>

theorem prune_keeps_the_head:
  assumes ok: "audit_ok (db_events d)" and before: "verify_retained_chain A au c d = (Inr v, d)" "cv_valid v"
    and prune: "prune_prefix au c k aid policy created key d = (Inr res, d')"
  shows "verify_retained_chain A au c d' = (Inr v, d') \<and>
    (d' = d \<and> pr_deleted_events res = 0 \<or>
     db_events d' = filter (\<lambda>r. \<not> (chain_of r = c \<and> ar_sequence r < k)) (db_events d) \<and>
     pr_deleted_events res = int (length (filter (\<lambda>r. chain_of r = c \<and> ar_sequence r < k) (db_events d))))"
  using prune_prefix_Inr [OF prune]
proof (elim disjE exE conjE)
  assume "d' = d" "pr_deleted_events res = 0"
  with before show ?thesis by simp
next
  fix b p d1
  let ?t = "db_events d" and ?a = "pr_anchor res"
  assume k: "1 < k" and b: "chain_row c k d = Some b" and join: "ar_prev_hash b = ar_entry_hash p"
      "length (ar_entry_hash p) = 32"
    and ins: "insert_anchor ?a d = (Inr (Some ?a), d1)"
    and a: "an_chain_id ?a = c" "an_first_retained ?a = k" "an_previous_digest ?a = ar_entry_hash p" "verify_anchor au ?a"
    and del: "delete_prefix c k d1 = (Inr (pr_deleted_events res), d')"
  note anchor = insert_anchor_load [OF ins, unfolded a(1,2)] and d' = delete_prefix_events [OF del]
  from d' anchor(2) have events: "db_events d' = filter (\<lambda>r. \<not> (chain_of r = c \<and> ar_sequence r < k)) ?t"
    and count: "pr_deleted_events res = int (length (filter (\<lambda>r. chain_of r = c \<and> ar_sequence r < k) ?t))" by auto
  have load: "load_anchor c k d' = (Inr (Some ?a), d')" using anchor(1) d' by (auto simp: load_anchor_Inr split: option.splits)
  obtain rs n q where rs: "traverse audit_record_of (chain_rows c 1 ?t) = Inr rs" "verify_loop A c n q rs = Inr v"
    using retained_elim [OF before] by blast
  obtain r rs1 rs2 where split: "rs = rs1 @ r # rs2" "audit_record_of b = Inr r"
      "traverse audit_record_of (chain_rows c 1 (db_events d')) = Inr (r # rs2)"
    using records_split [OF ok b [unfolded chain_row_def] rs(1)] unfolding events by blast
  have "au_sequence r = k" "au_previous_digest r = ar_prev_hash b"
    using audit_record_of_fields [OF split(2)] find_SomeD [OF b [unfolded chain_row_def]] by auto
  moreover obtain m e where tail: "verify_loop A c m e (r # rs2) = Inr v"
    using verify_loop_append [of A c n q rs1 "r # rs2" v] rs(2) before(2) split(1) by auto
  then have "au_sequence r = m" "au_previous_digest r = e"
    using verify_loop_Cons [of A c m e r rs2 v] before(2) by (auto simp: entry_verifies_def)
  ultimately have "verify_retained_chain A au c d' = (Inr v, d')"
    using split(3) k load a(3,4) join tail by (intro retained_intro) auto
  with events count show ?thesis by blast
qed

subsection \<open>Pruning succeeds on an intact chain\<close>

text \<open>What the code needs from an anchor authenticator: it accepts what it signed.\<close>

locale anchor_signer =
  fixes au :: anchor_authenticator
  assumes verifies: "aa_sign au key m = Inr s \<Longrightarrow> aa_verify au key m s = Inr True"
begin

lemma build_verifies:
  assumes "build_anchor au aid c k p policy created key = Inr a"
  shows "verify_anchor au a"
proof -
  from assms obtain draft b s where "canonical_anchor_bytes draft = Inr b" "aa_sign au key b = Inr s"
      "a = draft\<lparr>an_authentication := s\<rparr>" "an_key_id draft = key"
    by (auto simp: build_anchor_def make_anchor_def split: sum.splits if_splits)
  moreover have "canonical_anchor_bytes (draft\<lparr>an_authentication := s\<rparr>) = canonical_anchor_bytes draft"
    by (simp add: canonical_anchor_bytes_def)
  ultimately show ?thesis using verifies by (simp add: verify_anchor_def)
qed

lemma prune_runs:
  assumes "1 < k" "length policy = 32" "chain_row c k d = Some b" "chain_row c (k - 1) d = Some p"
    and "ar_prev_hash b = ar_entry_hash p" "length (ar_entry_hash p) = 32"
    and a: "build_anchor au aid c k (ar_entry_hash p) policy created key = Inr a" "anchor_row_ok a"
    and "\<forall>x \<in> set (db_anchors d). \<not> anchor_conflict a x"
  shows "prune_prefix au c k aid policy (utc created) key d =
    (Inr \<lparr>pr_anchor = a, pr_deleted_events =
       int (length (filter (\<lambda>r. chain_of r = c \<and> ar_sequence r < k) (db_events d)))\<rparr>,
     \<lparr>db_events = filter (\<lambda>r. \<not> (chain_of r = c \<and> ar_sequence r < k)) (db_events d),
      db_anchors = db_anchors d @ [a], db_allow_purge = True\<rparr>)"
proof -
  let ?d1 = "d\<lparr>db_anchors := db_anchors d @ [a]\<rparr>"
  have "anchor_fields_ok a" using a(1) by (auto simp: build_anchor_def make_anchor_def split: sum.splits if_splits)
  moreover have "\<not> (\<exists>x \<in> set (db_anchors d). anchor_arbiter a x)"
    using assms(9) by (auto simp: anchor_arbiter_def anchor_conflict_def)
  ultimately have ins: "insert_anchor a d = (Inr (Some a), ?d1)"
    using a(2) assms(9)
    by (auto simp: insert_anchor_def tx_on_def tx_stmt_def sql_insert_or_skip_def make_anchor_def tx_simps tx_bind_def)
  note del = delete_prefix_result [of c k ?d1]
  show ?thesis
    using assms(1-6) a build_verifies [OF a(1)]
    by (simp add: prune_prefix_def tx_simps digest_bytes_def tx_bind_Inr [where m = "insert_anchor a", OF ins]
        tx_bind_Inr [where m = "delete_prefix c k", OF del])
qed

end

interpretation hms: anchor_signer "HMACAnchorAuthenticator key_resolver" for key_resolver
  by unfold_locales (auto simp: HMACAnchorAuthenticator_def hmac_verify_def)

lemma hmac_build_anchor:
  assumes "audit_required 512 aid" "audit_required 512 c" "audit_required 512 key" "1 < k"
    and "length p = 32" "length policy = 32" "in_datetime_range created" "32 \<le> length (key_resolver key)"
  obtains a where "build_anchor (HMACAnchorAuthenticator key_resolver) aid c k p policy created key = Inr a"
proof -
  have "hmac_sha256 x m \<noteq> []" for x m using length_hmac_sha256 [of x m] by fastforce
  with assms that show ?thesis
    by (auto simp: build_anchor_def make_anchor_def anchor_fields_ok_def canonical_anchor_bytes_def
        HMACAnchorAuthenticator_def hmac_sign_def Let_def)
qed

text \<open>Entries of a verified chain by position.\<close>

lemma verify_loop_nth:
  assumes "verify_loop A c n p rs = Inr v" "cv_valid v" "i < length rs"
  shows "au_sequence (rs ! i) = n + int i"
    and "Suc i < length rs \<Longrightarrow> au_previous_digest (rs ! Suc i) = au_entry_digest (rs ! i)"
proof -
  have "rs = take i rs @ rs ! i # drop (Suc i) rs" using assms(3) by (rule id_take_nth_drop)
  with verify_loop_append [of A c n p "take i rs" "rs ! i # drop (Suc i) rs" v] assms
  obtain d where d: "verify_loop A c (n + int i) d (rs ! i # drop (Suc i) rs) = Inr v" by (auto simp: min_def)
  with verify_loop_Cons [of A c "n + int i" d "rs ! i" "drop (Suc i) rs" v] assms(2)
  have "entry_verifies A c (n + int i) d (rs ! i)"
    and rest: "verify_loop A c (n + int i + 1) (au_entry_digest (rs ! i)) (drop (Suc i) rs) = Inr v" by auto
  then show "au_sequence (rs ! i) = n + int i" by (simp add: entry_verifies_def)
  show "au_previous_digest (rs ! Suc i) = au_entry_digest (rs ! i)" if "Suc i < length rs"
    using rest assms(2) verify_loop_Cons [of A c "n + int i + 1" "au_entry_digest (rs ! i)" "rs ! Suc i" "drop (Suc (Suc i)) rs" v]
    by (simp add: Cons_nth_drop_Suc [OF that] entry_verifies_def)
qed

lemma verified_chain_row:
  assumes ok: "audit_ok t" and rs: "traverse audit_record_of (chain_rows c 1 t) = Inr rs"
    and v: "verify_loop A c 1 GENESIS_DIGEST rs = Inr v" "cv_valid v" and k: "1 \<le> k" "k \<le> int (length rs)"
  obtains b where "b \<in> set t" "chain_of b = c" "ar_sequence b = k"
    and "audit_record_of b = Inr (rs ! nat (k - 1))"
    and "List.find (\<lambda>r. chain_of r = c \<and> ar_sequence r = k) t = Some b"
proof -
  let ?i = "nat (k - 1)"
  have i: "?i < length rs" using k by linarith
  have all: "list_all2 (\<lambda>x y. audit_record_of x = Inr y) (chain_rows c 1 t) rs"
    using rs by (simp add: traverse_Inr_iff)
  then have rec: "audit_record_of (chain_rows c 1 t ! ?i) = Inr (rs ! ?i)" and len: "length (chain_rows c 1 t) = length rs"
    using i by (auto dest: list_all2_lengthD list_all2_nthD2)
  have "chain_rows c 1 t ! ?i \<in> set (chain_rows c 1 t)" using i len by (intro nth_mem) simp
  then have b: "chain_rows c 1 t ! ?i \<in> set t" "chain_of (chain_rows c 1 t ! ?i) = c" by auto
  have "ar_sequence (chain_rows c 1 t ! ?i) = k"
    using audit_record_of_fields(1) [OF rec] verify_loop_nth(1) [OF v i] k by simp
  moreover have "List.find (\<lambda>r. chain_of r = c \<and> ar_sequence r = k) t = Some (chain_rows c 1 t ! ?i)"
    by (rule aes.find_key [OF ok b(1)]) (use b calculation in auto)
  ultimately show ?thesis using b rec that by blast
qed

text \<open>
  C27. Pruning an intact chain succeeds. On a chain that verifies from genesis, with a well-formed
  request for a first retained entry that exists and is not the first, a signing key of at least 32
  bytes, an anchor identity not used yet and no anchor stored for that entry, the prune returns. It
  has stored exactly one new anchor, which is bound to the chain, the entry, the policy and the digest the
  entry follows and which verifies, has deleted exactly the \<open>k - 1\<close> events of the chain before the
  entry, reports that number, and has changed nothing else.
\<close>

theorem prune_succeeds:
  assumes ok: "audit_ok (db_events d)"
    and v: "verify_chain A c 1 GENESIS_DIGEST (db_events d) = (Inr v, db_events d)" "cv_valid v"
    and k: "1 < k" "k \<le> cv_last_sequence v" and "length policy = 32" and "in_datetime_range created"
    and texts: "audit_required 512 aid" "audit_required 512 c" "audit_required 512 key"
      "pg_text aid" "pg_text c" "pg_text key"
    and key: "32 \<le> length (key_resolver key)"
    and fresh: "\<forall>x \<in> set (db_anchors d). an_anchor_id x \<noteq> aid \<and> \<not> (an_chain_id x = c \<and> an_first_retained x = k)"
  shows "\<exists>a. prune_prefix (HMACAnchorAuthenticator key_resolver) c k aid policy (utc created) key d =
      (Inr \<lparr>pr_anchor = a, pr_deleted_events = k - 1\<rparr>,
       \<lparr>db_events = filter (\<lambda>r. \<not> (chain_of r = c \<and> ar_sequence r < k)) (db_events d),
        db_anchors = db_anchors d @ [a], db_allow_purge = True\<rparr>) \<and>
    an_anchor_id a = aid \<and> an_chain_id a = c \<and> an_first_retained a = k \<and> an_key_id a = key \<and>
    an_policy_digest a = policy \<and> an_created_at a = created \<and>
    verify_anchor (HMACAnchorAuthenticator key_resolver) a \<and>
    (\<exists>b \<in> set (db_events d). chain_of b = c \<and> ar_sequence b = k \<and> an_previous_digest a = ar_prev_hash b)"
proof -
  let ?t = "db_events d"
  from v obtain rs where rs: "traverse audit_record_of (chain_rows c 1 ?t) = Inr rs" "verify_loop A c 1 GENESIS_DIGEST rs = Inr v"
    by (auto simp: verify_chain_Inr)
  have len: "cv_last_sequence v = int (length rs)"
    using verify_loop_valid [OF rs(2) v(2)] by (metis chain_verification.select_convs(4) add_diff_cancel_left')
  obtain b where b: "b \<in> set ?t" "ar_sequence b = k" "audit_record_of b = Inr (rs ! nat (k - 1))" "chain_row c k d = Some b" "chain_of b = c"
    using verified_chain_row [OF ok rs v(2), of k] k len unfolding chain_row_def by auto
  obtain p where p: "p \<in> set ?t" "audit_record_of p = Inr (rs ! nat (k - 1 - 1))" "chain_row c (k - 1) d = Some p"
    using verified_chain_row [OF ok rs v(2), of "k - 1"] k len unfolding chain_row_def by auto
  have "Suc (nat (k - 1 - 1)) = nat (k - 1)" "nat (k - 1) < length rs" using k len by linarith+
  then have join: "ar_prev_hash b = ar_entry_hash p"
    using verify_loop_nth(2) [OF rs(2) v(2), of "nat (k - 1 - 1)"]
      audit_record_of_fields [OF b(3)] audit_record_of_fields [OF p(2)] by simp
  moreover have ph: "length (ar_entry_hash p) = 32" and kmax: "k \<le> MAX_BIGINT"
    using ok p(1) b(1,2) by (auto simp: table_ok_def audit_row_ok_def Let_def)
  moreover obtain a where a: "build_anchor (HMACAnchorAuthenticator key_resolver) aid c k (ar_entry_hash p) policy created key = Inr a"
    using hmac_build_anchor [of aid c key k "ar_entry_hash p" policy created key_resolver] texts k(1) ph assms(6,7) key by blast
  moreover note af = build_anchor_fields [OF a]
  have "anchor_row_ok a" using af texts k(1) kmax ph assms(6) by (simp add: anchor_row_ok_def)
  moreover have "\<forall>x \<in> set (db_anchors d). \<not> anchor_conflict a x" using fresh af by (auto simp: anchor_conflict_def)
  ultimately have run: "prune_prefix (HMACAnchorAuthenticator key_resolver) c k aid policy (utc created) key d =
      (Inr \<lparr>pr_anchor = a, pr_deleted_events = int (length (filter (\<lambda>r. chain_of r = c \<and> ar_sequence r < k) ?t))\<rparr>,
       \<lparr>db_events = filter (\<lambda>r. \<not> (chain_of r = c \<and> ar_sequence r < k)) (db_events d),
        db_anchors = db_anchors d @ [a], db_allow_purge = True\<rparr>)"
    using k(1) assms(6) b(4) p(3) by (intro hms.prune_runs) auto
  have "int (length (filter (\<lambda>r. chain_of r = c \<and> ar_sequence r < k) ?t)) = k - 1"
  proof -
    obtain r rs1 rs2 where split: "rs = rs1 @ r # rs2" "audit_record_of b = Inr r"
      "length rs1 = length (filter (\<lambda>r. chain_of r = c \<and> ar_sequence r < k) ?t)"
      using records_split [OF ok b(4) [unfolded chain_row_def] rs(1)] by blast
    have "rs ! length rs1 = r" "length rs1 < length rs" by (simp_all add: split(1))
    then have "au_sequence r = 1 + int (length rs1)" using verify_loop_nth(1) [OF rs(2) v(2), of "length rs1"] by simp
    with split audit_record_of_fields(1) [OF split(2)] b(2) show ?thesis by simp
  qed
  with run have "prune_prefix (HMACAnchorAuthenticator key_resolver) c k aid policy (utc created) key d =
      (Inr \<lparr>pr_anchor = a, pr_deleted_events = k - 1\<rparr>,
       \<lparr>db_events = filter (\<lambda>r. \<not> (chain_of r = c \<and> ar_sequence r < k)) (db_events d),
        db_anchors = db_anchors d @ [a], db_allow_purge = True\<rparr>)" by simp
  with b(1,2,5) join af hms.build_verifies [OF a] show ?thesis by (intro exI [of _ a]) auto
qed

text \<open>A chain of two events.\<close>

definition second_event :: audit_event where
  "second_event = sample_event\<lparr>ev_event_id := ''22222222-2222-3333-4444-555555555555''\<rparr>"

definition second_row :: audit_row where
  "second_row =
     \<lparr>ar_event = second_event, ar_sequence = 2, ar_recorded_at = 6, ar_prev_hash = replicate 32 7,
      ar_entry_hash = replicate 32 7\<rparr>"

definition sample_db :: audit_db where
  "sample_db = \<lparr>db_events = [sample_row, second_row], db_anchors = [], db_allow_purge = False\<rparr>"

lemma sample_db_ok: "audit_ok (db_events sample_db)"
proof -
  have "audit_row_ok sample_row" by code_simp
  moreover have "audit_row_ok second_row" by code_simp
  moreover have "\<not> audit_conflict sample_row second_row" by code_simp
  ultimately show ?thesis by (simp add: sample_db_def table_ok_def)
qed

lemma second_event_ok: "event_ok second_event"
proof -
  have "event_ok sample_event" by (rule make_event_ok [OF sample_event_made])
  then show ?thesis
    by (simp add: event_ok_def documents_ok_def second_event_def)
      (simp add: event_fields_ok_def sample_event_def audit_required_def py_strip_def py_space_def)
qed

lemma sample_db_rows: "chain_rows ''ann'' 1 (db_events sample_db) = [sample_row, second_row]"
  by (simp add: sample_db_def sample_row_def second_row_def second_event_def sample_event_def)

lemma sample_db_verifies:
  "verify_chain sevens ''ann'' 1 GENESIS_DIGEST (db_events sample_db) =
     (Inr (verified 2 (replicate 32 7)), db_events sample_db)"
proof -
  let ?r2 = "\<lparr>au_event = second_event, au_sequence = 2, au_recorded_at = 6, au_previous_digest = replicate 32 7,
      au_entry_digest = replicate 32 7\<rparr>"
  have rec: "audit_record_of sample_row = Inr sample_record" "audit_record_of second_row = Inr ?r2"
    using audit_record_of_event [OF make_event_ok [OF sample_event_made], of 1 GENESIS_DIGEST "replicate 32 7" 5]
      audit_record_of_event [OF second_event_ok, of 2 "replicate 32 7" "replicate 32 7" 6]
    by (simp_all add: sample_row_def sample_record_def second_row_def GENESIS_DIGEST_def)
  have "\<exists>b. canonical_event_bytes e n = Inr b" if "e = sample_event \<or> e = second_event" "0 < n" for e n
    using that unfolding canonical_event_Inr
    by (auto simp: second_event_def sample_event_def event_times_ok_def in_datetime_range_def min_instant_def max_instant_def)
  then have dig: "entry_digest sevens k p e n = Inr (replicate 32 7)" if "e = sample_event \<or> e = second_event" "0 < n" for e n k p
    using that unfolding entry_digest_def by (fastforce simp: authenticated_def digest_bytes_def)
  have "verify_loop sevens ''ann'' 1 GENESIS_DIGEST [sample_record, ?r2] = Inr (verified 2 (replicate 32 7))"
    by (simp add: verify_loop.simps(2) dig sample_record_def Let_def) (simp add: second_event_def sample_event_def)
  then show ?thesis unfolding verify_chain_Inr sample_db_rows by (simp add: rec GENESIS_DIGEST_def)
qed

lemma sample_texts: "audit_required 512 ''a1''" "audit_required 512 ''ann''" "audit_required 512 ''k''"
    "pg_text ''a1''" "pg_text ''ann''" "pg_text ''k''"
  by (simp_all add: audit_required_def py_strip_def py_space_def pg_text_def)

theorem prune_succeeds_witness:
  "\<exists>a. prune_prefix (HMACAnchorAuthenticator (\<lambda>_. replicate 32 1)) ''ann'' 2 ''a1'' (replicate 32 0)
      (utc 9) ''k'' sample_db = (Inr \<lparr>pr_anchor = a, pr_deleted_events = 1\<rparr>,
        \<lparr>db_events = [second_row], db_anchors = [a], db_allow_purge = True\<rparr>)"
proof -
  have "in_datetime_range 9" by (simp add: in_datetime_range_def min_instant_def max_instant_def)
  moreover have "filter (\<lambda>r. \<not> (chain_of r = ''ann'' \<and> ar_sequence r < 2)) (db_events sample_db) = [second_row]"
    by (simp add: sample_db_def sample_row_def second_row_def sample_event_def)
  moreover note prune_succeeds [OF sample_db_ok sample_db_verifies, of 2 "replicate 32 0" 9 "''a1''" "''k''" "\<lambda>_. replicate 32 1"]
  ultimately show ?thesis using sample_texts by (auto simp: sample_db_def)
qed

lemma sample_prune:
  obtains res d' where "prune_prefix (HMACAnchorAuthenticator (\<lambda>_. replicate 32 1)) ''ann'' 2 ''a1'' (replicate 32 0)
      (utc 9) ''k'' sample_db = (Inr res, d')"
proof -
  have "in_datetime_range 9" by (simp add: in_datetime_range_def min_instant_def max_instant_def)
  with hmac_build_anchor [of "''a1''" "''ann''" "''k''" 2 "replicate 32 7" "replicate 32 0" 9 "\<lambda>_. replicate 32 1"] sample_texts
  obtain a where a: "build_anchor (HMACAnchorAuthenticator (\<lambda>_. replicate 32 1)) ''a1'' ''ann'' 2 (replicate 32 7)
      (replicate 32 0) 9 ''k'' = Inr a" by auto
  have "anchor_row_ok a"
    using build_anchor_fields [OF a] sample_texts by (simp add: anchor_row_ok_def MAX_BIGINT_def)
  with hms.prune_runs [of 2 "replicate 32 0" "''ann''" sample_db second_row sample_row "\<lambda>_. replicate 32 1" "''a1''" 9 "''k''" a]
    a that show ?thesis
    by (force simp: sample_db_def chain_row_def sample_row_def second_row_def second_event_def sample_event_def)
qed

theorem prune_keeps_the_head_witness:
  "\<exists>d'. verify_retained_chain sevens (HMACAnchorAuthenticator (\<lambda>_. replicate 32 1)) ''ann'' d' =
     (Inr (verified 2 (replicate 32 7)), d')"
proof -
  let ?au = "HMACAnchorAuthenticator (\<lambda>_. replicate 32 1)"
  obtain rs where rs: "traverse audit_record_of [sample_row, second_row] = Inr rs"
      "verify_loop sevens ''ann'' 1 GENESIS_DIGEST rs = Inr (verified 2 (replicate 32 7))"
    using sample_db_verifies unfolding verify_chain_Inr sample_db_rows by blast
  then obtain r qs where cons: "rs = r # qs" "audit_record_of sample_row = Inr r" by (auto split: sum.splits)
  have "au_sequence r = 1" using audit_record_of_fields(1) [OF cons(2)] by (simp add: sample_row_def)
  moreover have "on_events (load_chain ''ann'' 1) sample_db = (Inr rs, sample_db)"
    unfolding tx_on_success load_chain_Inr sample_db_rows using rs(1) by simp
  ultimately have before: "verify_retained_chain sevens ?au ''ann'' sample_db = (Inr (verified 2 (replicate 32 7)), sample_db)"
    using cons(1) rs(2) by (simp add: verify_retained_chain_def tx_bind_def tx_lift_def verify_records_def digest_bytes_def GENESIS_DIGEST_def)
  obtain res d' where "prune_prefix ?au ''ann'' 2 ''a1'' (replicate 32 0) (utc 9) ''k'' sample_db = (Inr res, d')"
    by (rule sample_prune)
  from prune_keeps_the_head [OF sample_db_ok before _ this] show ?thesis by auto
qed

end
