(* ===== verification/AuthorityModels.thy ===== *)
theory AuthorityModels
  imports Domain Sha256
begin

text \<open>
  The durable values of the external authority (\<open>authority/models.py\<close>, \<open>lifecycle.py\<close>,
  \<open>effects.py\<close> and \<open>claims.py\<close>): agent bindings, lifecycle operations, protected effects,
  rollback anchors, sequence watermarks and receipt claims, each with the validation of its
  \<open>__post_init__\<close>.

  A class is a record over the type of its instants. The arguments of a constructor hold
  \<open>pytime\<close> values, a constructed value holds UTC instants; \<open>make_*\<close> is the constructor and
  \<open>*_ok\<close> the invariant of what it returns. The enum and integer type tests of the source are
  the types of the fields.
\<close>

subsection \<open>Shared checks\<close>

definition lets_digest :: "string \<Rightarrow> bool" where
  "lets_digest s = (take 7 s = ''sha256:'' \<and> lower_hex 64 (drop 7 s))"

abbreviation bad_domain :: "plane_error + 'a" where
  "bad_domain \<equiv> Inl (err DomainValidationError)"

definition optional_time :: "pytime option \<Rightarrow> instant option res" where
  "optional_time t =
     (case t of None \<Rightarrow> Inr None
      | Some x \<Rightarrow> (case require_utc x of Inl e \<Rightarrow> Inl e | Inr i \<Rightarrow> Inr (Some i)))"

fun optional_ok :: "('a \<Rightarrow> bool) \<Rightarrow> 'a option \<Rightarrow> bool" where
  "optional_ok p None = True"
| "optional_ok p (Some x) = p x"

lemma optional_time_Inr:
  "optional_time t = Inr u \<Longrightarrow> optional_ok in_datetime_range u"
  by (auto simp: optional_time_def dest: require_utc_range split: option.splits sum.splits)

lemma optional_time_utc:
  "optional_ok in_datetime_range u \<Longrightarrow> optional_time (map_option utc u) = Inr u"
  by (cases u) (auto simp: optional_time_def require_utc_instant)

subsection \<open>Agent bindings\<close>

datatype population = SERVER_DYNAMIC | BYO_USER

datatype binding_state =
  PROVISIONING | ACTIVE | QUIESCENT | CLOSING | CLOSED | REVOKING | REVOKED | RECONCILING | EXPIRED

definition binding_terminal :: "binding_state \<Rightarrow> bool" where
  "binding_terminal s = (s \<in> {CLOSED, REVOKED, EXPIRED})"

definition canonical_capabilities :: "string list \<Rightarrow> bool" where
  "canonical_capabilities v =
     (v \<noteq> [] \<and> (\<forall>c \<in> set v. canonical_identifier c) \<and> sort v = v \<and> length v = card (set v))"

datatype pending_field = Warden | Lease | Lineage | Subject

fun pending_name :: "pending_field \<Rightarrow> string" where
  "pending_name Warden = ''warden''"
| "pending_name Lease = ''lease''"
| "pending_name Lineage = ''lineage''"
| "pending_name Subject = ''subject''"

definition encode_ascii :: "string \<Rightarrow> bytes" where
  "encode_ascii s = map of_char s"

definition PENDING_ID_DOMAIN :: bytes where
  "PENDING_ID_DOMAIN = encode_ascii (''astralplane.authority.pending/v1'' @ [CHR 0x00])"

definition PENDING_ID_PREFIX :: string where
  "PENDING_ID_PREFIX = ''pending:''"

definition pending_digest :: "string \<Rightarrow> string" where
  "pending_digest binding_id = take 32 (sha256_hex (PENDING_ID_DOMAIN @ encode_ascii binding_id))"

definition pending_id :: "string \<Rightarrow> pending_field \<Rightarrow> string" where
  "pending_id binding_id field =
     PENDING_ID_PREFIX @ pending_name field @ '':'' @ pending_digest binding_id"

definition pending_authority_identity :: "string \<Rightarrow> pending_field \<Rightarrow> string res" where
  "pending_authority_identity binding_id field =
     (case require_identifier binding_id of Inl e \<Rightarrow> Inl e
      | Inr b \<Rightarrow> Inr (pending_id b field))"

record 't binding_fields =
  bd_binding_id :: string
  bd_owner_id :: string
  bd_agent_id :: string
  bd_runtime_id :: string
  bd_runtime_generation :: int
  bd_population :: population
  bd_tenant_id :: string
  bd_envelope_id :: string
  bd_warden_id :: string
  bd_lease_id :: string
  bd_lineage_id :: string
  bd_subject_id :: string
  bd_policy_digest :: string
  bd_machine_digest :: string
  bd_config_epoch :: int
  bd_capabilities :: "string list"
  bd_lease_sequence :: int
  bd_lease_expires_at_ns :: int
  bd_state :: binding_state
  bd_created_at :: 't
  bd_updated_at :: 't
  bd_version :: int

type_synonym binding_args = "pytime binding_fields"
type_synonym binding = "instant binding_fields"

definition bd_with_times :: "'s \<Rightarrow> 's \<Rightarrow> 't binding_fields \<Rightarrow> 's binding_fields" where
  "bd_with_times created updated b =
     \<lparr>bd_binding_id = bd_binding_id b, bd_owner_id = bd_owner_id b, bd_agent_id = bd_agent_id b,
      bd_runtime_id = bd_runtime_id b, bd_runtime_generation = bd_runtime_generation b,
      bd_population = bd_population b, bd_tenant_id = bd_tenant_id b,
      bd_envelope_id = bd_envelope_id b, bd_warden_id = bd_warden_id b, bd_lease_id = bd_lease_id b,
      bd_lineage_id = bd_lineage_id b, bd_subject_id = bd_subject_id b,
      bd_policy_digest = bd_policy_digest b, bd_machine_digest = bd_machine_digest b,
      bd_config_epoch = bd_config_epoch b, bd_capabilities = bd_capabilities b,
      bd_lease_sequence = bd_lease_sequence b, bd_lease_expires_at_ns = bd_lease_expires_at_ns b,
      bd_state = bd_state b, bd_created_at = created, bd_updated_at = updated,
      bd_version = bd_version b\<rparr>"

definition remote_identities :: "'t binding_fields \<Rightarrow> string list" where
  "remote_identities b = [bd_warden_id b, bd_lease_id b, bd_lineage_id b, bd_subject_id b]"

definition expected_pending :: "string \<Rightarrow> string list" where
  "expected_pending binding_id = map (pending_id binding_id) [Warden, Lease, Lineage, Subject]"

definition has_pending_identity :: "'t binding_fields \<Rightarrow> bool" where
  "has_pending_identity b =
     (\<exists>v \<in> set (remote_identities b). take (length PENDING_ID_PREFIX) v = PENDING_ID_PREFIX)"

text \<open>Only a provisioning or closed binding may still name the pending remote identities.\<close>

definition remote_state_ok :: "'t binding_fields \<Rightarrow> bool" where
  "remote_state_ok b =
     (if bd_state b \<in> {PROVISIONING, CLOSED} \<and> has_pending_identity b then
        remote_identities b = expected_pending (bd_binding_id b) \<and>
        bd_lease_sequence b = 0 \<and> bd_lease_expires_at_ns b = 0
      else if bd_state b = PROVISIONING then False
      else \<not> has_pending_identity b \<and> bd_lease_expires_at_ns b \<noteq> 0)"

definition binding_fields_ok :: "'t binding_fields \<Rightarrow> bool" where
  "binding_fields_ok b =
     ((\<forall>v \<in> set ([bd_binding_id b, bd_owner_id b, bd_agent_id b, bd_runtime_id b, bd_tenant_id b,
                bd_envelope_id b] @ remote_identities b). canonical_identifier v) \<and>
      0 < bd_runtime_generation b \<and> lets_digest (bd_policy_digest b) \<and>
      lets_digest (bd_machine_digest b) \<and> 0 < bd_config_epoch b \<and>
      canonical_capabilities (bd_capabilities b) \<and> 0 \<le> bd_lease_sequence b \<and>
      0 \<le> bd_lease_expires_at_ns b \<and> 0 \<le> bd_version b \<and> remote_state_ok b)"

definition make_binding :: "binding_args \<Rightarrow> binding res" where
  "make_binding a =
     (if \<not> binding_fields_ok a then bad_domain
      else case require_utc (bd_created_at a) of Inl e \<Rightarrow> Inl e | Inr created \<Rightarrow>
       (case require_utc (bd_updated_at a) of Inl e \<Rightarrow> Inl e | Inr updated \<Rightarrow>
        (if updated < created then bad_domain else Inr (bd_with_times created updated a))))"

definition binding_ok :: "binding \<Rightarrow> bool" where
  "binding_ok b =
     (binding_fields_ok b \<and> in_datetime_range (bd_created_at b) \<and>
      in_datetime_range (bd_updated_at b) \<and> bd_created_at b \<le> bd_updated_at b)"

definition provisioning_intent ::
  "string \<Rightarrow> string \<Rightarrow> string \<Rightarrow> string \<Rightarrow> int \<Rightarrow> population \<Rightarrow> string \<Rightarrow> string \<Rightarrow> string \<Rightarrow> string \<Rightarrow> int
     \<Rightarrow> string list \<Rightarrow> pytime \<Rightarrow> binding res" where
  "provisioning_intent binding_id owner_id agent_id runtime_id runtime_generation population
       tenant_id envelope_id policy_digest machine_digest config_epoch capabilities created_at =
     (case pending_authority_identity binding_id Warden of Inl e \<Rightarrow> Inl e | Inr warden \<Rightarrow>
      (case pending_authority_identity binding_id Lease of Inl e \<Rightarrow> Inl e | Inr lease \<Rightarrow>
       (case pending_authority_identity binding_id Lineage of Inl e \<Rightarrow> Inl e | Inr lineage \<Rightarrow>
        (case pending_authority_identity binding_id Subject of Inl e \<Rightarrow> Inl e | Inr subject \<Rightarrow>
          make_binding
            \<lparr>bd_binding_id = binding_id, bd_owner_id = owner_id, bd_agent_id = agent_id,
             bd_runtime_id = runtime_id, bd_runtime_generation = runtime_generation,
             bd_population = population, bd_tenant_id = tenant_id, bd_envelope_id = envelope_id,
             bd_warden_id = warden, bd_lease_id = lease, bd_lineage_id = lineage,
             bd_subject_id = subject, bd_policy_digest = policy_digest,
             bd_machine_digest = machine_digest, bd_config_epoch = config_epoch,
             bd_capabilities = capabilities, bd_lease_sequence = 0, bd_lease_expires_at_ns = 0,
             bd_state = PROVISIONING, bd_created_at = created_at, bd_updated_at = created_at,
             bd_version = 0\<rparr>))))"

definition owner_agent_key :: "'t binding_fields \<Rightarrow> string \<times> string \<times> population" where
  "owner_agent_key b = (bd_owner_id b, bd_agent_id b, bd_population b)"

definition runtime_generation_key :: "'t binding_fields \<Rightarrow> string \<times> string \<times> string \<times> int" where
  "runtime_generation_key b =
     (bd_owner_id b, bd_agent_id b, bd_runtime_id b, bd_runtime_generation b)"

subsection \<open>Lifecycle operations\<close>

datatype lifecycle_kind = PROVISION | SPAWN | RENEW | QUIESCE | RESUME | CLOSE | REVOKE | RECONCILE

datatype lifecycle_status = PENDING | IN_FLIGHT | SUCCEEDED | FAILED | UNCERTAIN | RECONCILED

definition lifecycle_terminal :: "lifecycle_status \<Rightarrow> bool" where
  "lifecycle_terminal s = (s \<in> {SUCCEEDED, FAILED, RECONCILED})"

record 't lifecycle_fields =
  lo_operation_id :: string
  lo_owner_id :: string
  lo_binding_id :: string
  lo_kind :: lifecycle_kind
  lo_expected_binding_version :: int
  lo_expected_lease_sequence :: "int option"
  lo_request_fingerprint :: string
  lo_status :: lifecycle_status
  lo_remote_request_id :: string
  lo_result_digest :: "string option"
  lo_error_code :: "string option"
  lo_attempt_count :: int
  lo_next_attempt_at :: "'t option"
  lo_last_attempt_at :: "'t option"
  lo_reconciled_at :: "'t option"
  lo_reconciliation_digest :: "string option"
  lo_created_at :: 't
  lo_updated_at :: 't
  lo_version :: int

type_synonym lifecycle_args = "pytime lifecycle_fields"
type_synonym lifecycle = "instant lifecycle_fields"

definition lo_with_times ::
  "'s option \<Rightarrow> 's option \<Rightarrow> 's option \<Rightarrow> 's \<Rightarrow> 's \<Rightarrow> 't lifecycle_fields \<Rightarrow> 's lifecycle_fields" where
  "lo_with_times next_attempt last_attempt reconciled created updated x =
     \<lparr>lo_operation_id = lo_operation_id x, lo_owner_id = lo_owner_id x,
      lo_binding_id = lo_binding_id x, lo_kind = lo_kind x,
      lo_expected_binding_version = lo_expected_binding_version x,
      lo_expected_lease_sequence = lo_expected_lease_sequence x,
      lo_request_fingerprint = lo_request_fingerprint x, lo_status = lo_status x,
      lo_remote_request_id = lo_remote_request_id x, lo_result_digest = lo_result_digest x,
      lo_error_code = lo_error_code x, lo_attempt_count = lo_attempt_count x,
      lo_next_attempt_at = next_attempt, lo_last_attempt_at = last_attempt,
      lo_reconciled_at = reconciled, lo_reconciliation_digest = lo_reconciliation_digest x,
      lo_created_at = created, lo_updated_at = updated, lo_version = lo_version x\<rparr>"

definition lifecycle_fields_ok :: "'t lifecycle_fields \<Rightarrow> bool" where
  "lifecycle_fields_ok x =
     ((\<forall>v \<in> set [lo_operation_id x, lo_owner_id x, lo_binding_id x, lo_remote_request_id x].
         canonical_identifier v) \<and>
      lo_remote_request_id x = lo_operation_id x \<and> 0 \<le> lo_expected_binding_version x \<and>
      optional_ok ((\<le>) 0) (lo_expected_lease_sequence x) \<and>
      lower_hex 64 (lo_request_fingerprint x) \<and> 0 \<le> lo_attempt_count x \<and> 0 \<le> lo_version x \<and>
      optional_ok (lower_hex 64) (lo_result_digest x) \<and>
      optional_ok canonical_identifier (lo_error_code x) \<and>
      \<not> (lo_result_digest x \<noteq> None \<and> lo_error_code x \<noteq> None))"

text \<open>The checks that follow the conversion of the instants, in the order of the source.\<close>

definition lifecycle_shape_ok :: "lifecycle \<Rightarrow> bool" where
  "lifecycle_shape_ok x =
     (lo_created_at x \<le> lo_updated_at x \<and>
      (\<forall>t \<in> set [lo_next_attempt_at x, lo_last_attempt_at x, lo_reconciled_at x].
         optional_ok ((\<le>) (lo_created_at x)) t) \<and>
      (lo_attempt_count x = 0 \<longrightarrow> lo_last_attempt_at x = None) \<and>
      (0 < lo_attempt_count x \<longrightarrow> lo_last_attempt_at x \<noteq> None) \<and>
      (lo_status x \<noteq> PENDING \<longrightarrow> lo_attempt_count x \<noteq> 0) \<and>
      (lo_status x = SUCCEEDED \<longrightarrow> lo_result_digest x \<noteq> None) \<and>
      (lo_status x \<in> {FAILED, UNCERTAIN} \<longrightarrow> lo_error_code x \<noteq> None) \<and>
      (if lo_status x = RECONCILED then
         lo_reconciled_at x \<noteq> None \<and> lo_reconciliation_digest x \<noteq> None \<and>
         (lo_result_digest x \<noteq> None \<or> lo_error_code x \<noteq> None)
       else lo_reconciled_at x = None \<and> lo_reconciliation_digest x = None) \<and>
      (lifecycle_terminal (lo_status x) \<longrightarrow> lo_next_attempt_at x = None))"

definition make_lifecycle :: "lifecycle_args \<Rightarrow> lifecycle res" where
  "make_lifecycle a =
     (if \<not> lifecycle_fields_ok a then bad_domain
      else case optional_time (lo_next_attempt_at a) of Inl e \<Rightarrow> Inl e | Inr next_attempt \<Rightarrow>
       (case optional_time (lo_last_attempt_at a) of Inl e \<Rightarrow> Inl e | Inr last_attempt \<Rightarrow>
        (case optional_time (lo_reconciled_at a) of Inl e \<Rightarrow> Inl e | Inr reconciled \<Rightarrow>
         (if \<not> optional_ok (lower_hex 64) (lo_reconciliation_digest a) then bad_domain
          else case require_utc (lo_created_at a) of Inl e \<Rightarrow> Inl e | Inr created \<Rightarrow>
           (case require_utc (lo_updated_at a) of Inl e \<Rightarrow> Inl e | Inr updated \<Rightarrow>
            (let x = lo_with_times next_attempt last_attempt reconciled created updated a
             in if lifecycle_shape_ok x then Inr x else bad_domain))))))"

definition lifecycle_ok :: "lifecycle \<Rightarrow> bool" where
  "lifecycle_ok x =
     (lifecycle_fields_ok x \<and> optional_ok (lower_hex 64) (lo_reconciliation_digest x) \<and>
      (\<forall>t \<in> set [lo_next_attempt_at x, lo_last_attempt_at x, lo_reconciled_at x].
         optional_ok in_datetime_range t) \<and>
      in_datetime_range (lo_created_at x) \<and> in_datetime_range (lo_updated_at x) \<and>
      lifecycle_shape_ok x)"

definition idempotency_key :: "'t lifecycle_fields \<Rightarrow> string \<times> string \<times> string" where
  "idempotency_key x = (lo_owner_id x, lo_operation_id x, lo_request_fingerprint x)"

subsection \<open>Protected effects\<close>

datatype tool_scope = READ | WRITE | SEARCH | SYSTEM | FILES | EXECUTE

datatype effect_status =
  CREATED | ASTRAL_AUTHORIZED | LETS_PENDING | RECEIPT_RECEIVED | RECEIPT_CLAIMED | EXECUTING |
  SUCCEEDED | DENIED | FAILED_CLOSED | EFFECT_FAILED | OUTCOME_UNCERTAIN

definition effect_terminal :: "effect_status \<Rightarrow> bool" where
  "effect_terminal s = (s \<in> {SUCCEEDED, DENIED, FAILED_CLOSED, EFFECT_FAILED})"

definition RECEIPT_REQUIRED :: "effect_status set" where
  "RECEIPT_REQUIRED =
     {RECEIPT_RECEIVED, RECEIPT_CLAIMED, EXECUTING, SUCCEEDED, EFFECT_FAILED, OUTCOME_UNCERTAIN}"

definition RECEIPT_FORBIDDEN :: "effect_status set" where
  "RECEIPT_FORBIDDEN = {CREATED, ASTRAL_AUTHORIZED, LETS_PENDING}"

definition ERROR_REQUIRED :: "effect_status set" where
  "ERROR_REQUIRED = {DENIED, FAILED_CLOSED, EFFECT_FAILED, OUTCOME_UNCERTAIN}"

definition OUTCOME_REQUIRED :: "effect_status set" where
  "OUTCOME_REQUIRED = {SUCCEEDED, EFFECT_FAILED}"

lemmas effect_status_sets =
  RECEIPT_REQUIRED_def RECEIPT_FORBIDDEN_def ERROR_REQUIRED_def OUTCOME_REQUIRED_def

record 't effect_fields =
  ef_operation_id :: string
  ef_owner_id :: string
  ef_agent_id :: string
  ef_binding_id :: string
  ef_tool_id :: string
  ef_astral_scope :: tool_scope
  ef_lets_capability :: string
  ef_lets_transition :: string
  ef_executor_audience :: string
  ef_nonce :: string
  ef_effect_digest :: string
  ef_expected_sequence :: int
  ef_audit_correlation_id :: string
  ef_status :: effect_status
  ef_receipt_id :: "string option"
  ef_receipt_digest :: "string option"
  ef_effect_result_digest :: "string option"
  ef_error_code :: "string option"
  ef_created_at :: 't
  ef_updated_at :: 't
  ef_version :: int

type_synonym effect_args = "pytime effect_fields"
type_synonym effect = "instant effect_fields"

definition ef_with_times :: "'s \<Rightarrow> 's \<Rightarrow> 't effect_fields \<Rightarrow> 's effect_fields" where
  "ef_with_times created updated x =
     \<lparr>ef_operation_id = ef_operation_id x, ef_owner_id = ef_owner_id x, ef_agent_id = ef_agent_id x,
      ef_binding_id = ef_binding_id x, ef_tool_id = ef_tool_id x,
      ef_astral_scope = ef_astral_scope x, ef_lets_capability = ef_lets_capability x,
      ef_lets_transition = ef_lets_transition x, ef_executor_audience = ef_executor_audience x,
      ef_nonce = ef_nonce x, ef_effect_digest = ef_effect_digest x,
      ef_expected_sequence = ef_expected_sequence x,
      ef_audit_correlation_id = ef_audit_correlation_id x, ef_status = ef_status x,
      ef_receipt_id = ef_receipt_id x, ef_receipt_digest = ef_receipt_digest x,
      ef_effect_result_digest = ef_effect_result_digest x, ef_error_code = ef_error_code x,
      ef_created_at = created, ef_updated_at = updated, ef_version = ef_version x\<rparr>"

definition effect_nonce :: "string \<Rightarrow> bool" where
  "effect_nonce s =
     (16 \<le> length s \<and> length s \<le> 256 \<and> s = py_strip s \<and>
      (\<forall>c \<in> set s. \<not> (of_char c < (0x20 :: nat) \<or> of_char c = (0x7F :: nat))))"

definition effect_fields_ok :: "'t effect_fields \<Rightarrow> bool" where
  "effect_fields_ok x =
     ((\<forall>v \<in> set [ef_operation_id x, ef_owner_id x, ef_agent_id x, ef_binding_id x, ef_tool_id x,
                ef_lets_capability x, ef_lets_transition x, ef_executor_audience x,
                ef_audit_correlation_id x]. canonical_identifier v) \<and>
      effect_nonce (ef_nonce x) \<and> lower_hex 64 (ef_effect_digest x) \<and>
      0 \<le> ef_expected_sequence x \<and> 0 \<le> ef_version x \<and>
      optional_ok canonical_identifier (ef_receipt_id x) \<and>
      optional_ok (lower_hex 64) (ef_receipt_digest x) \<and>
      optional_ok (lower_hex 64) (ef_effect_result_digest x) \<and>
      optional_ok canonical_identifier (ef_error_code x) \<and>
      (ef_receipt_id x \<noteq> None \<longleftrightarrow> ef_receipt_digest x \<noteq> None) \<and>
      (ef_status x \<in> RECEIPT_REQUIRED \<longrightarrow> ef_receipt_id x \<noteq> None) \<and>
      (ef_status x \<in> RECEIPT_FORBIDDEN \<longrightarrow> ef_receipt_id x = None) \<and>
      (ef_status x \<in> ERROR_REQUIRED \<longleftrightarrow> ef_error_code x \<noteq> None) \<and>
      (ef_status x \<in> OUTCOME_REQUIRED \<longleftrightarrow> ef_effect_result_digest x \<noteq> None))"

definition make_effect :: "effect_args \<Rightarrow> effect res" where
  "make_effect a =
     (if \<not> effect_fields_ok a then bad_domain
      else case require_utc (ef_created_at a) of Inl e \<Rightarrow> Inl e | Inr created \<Rightarrow>
       (case require_utc (ef_updated_at a) of Inl e \<Rightarrow> Inl e | Inr updated \<Rightarrow>
        (if updated < created then bad_domain else Inr (ef_with_times created updated a))))"

definition effect_ok :: "effect \<Rightarrow> bool" where
  "effect_ok x =
     (effect_fields_ok x \<and> in_datetime_range (ef_created_at x) \<and>
      in_datetime_range (ef_updated_at x) \<and> ef_created_at x \<le> ef_updated_at x)"

definition ef_owner_operation_key :: "'t effect_fields \<Rightarrow> string \<times> string" where
  "ef_owner_operation_key x = (ef_owner_id x, ef_operation_id x)"

definition ef_audit_key :: "'t effect_fields \<Rightarrow> string \<times> string \<times> string" where
  "ef_audit_key x = (ef_owner_id x, ef_audit_correlation_id x, ef_operation_id x)"

subsection \<open>Anchors, watermarks and receipt claims\<close>

definition EXECUTOR_ANCHOR_FORMAT :: string where
  "EXECUTOR_ANCHOR_FORMAT = ''LETS-EXECUTOR-AUTHORITY-ANCHOR/1''"

definition signed_integer :: "int \<Rightarrow> int \<Rightarrow> bool" where
  "signed_integer minimum n = (minimum \<le> n \<and> n \<le> MAX_BIGINT)"

definition ZERO_SHA256 :: string where
  "ZERO_SHA256 = replicate 64 (CHR ''0'')"

record 't anchor_fields =
  xa_anchor_format :: string
  xa_audience :: string
  xa_tenant_id :: string
  xa_envelope_id :: string
  xa_config_epoch :: int
  xa_executor_policy_sha256 :: string
  xa_trust_registry_sha256 :: string
  xa_schema_version :: int
  xa_database_instance_id :: string
  xa_claim_sequence :: int
  xa_claim_digest :: string
  xa_clock_floor_ns :: "int option"
  xa_confirmed_at :: 't

type_synonym anchor_args = "pytime anchor_fields"
type_synonym authority_anchor = "instant anchor_fields"

definition xa_with_time :: "'s \<Rightarrow> 't anchor_fields \<Rightarrow> 's anchor_fields" where
  "xa_with_time confirmed x =
     \<lparr>xa_anchor_format = xa_anchor_format x, xa_audience = xa_audience x,
      xa_tenant_id = xa_tenant_id x, xa_envelope_id = xa_envelope_id x,
      xa_config_epoch = xa_config_epoch x, xa_executor_policy_sha256 = xa_executor_policy_sha256 x,
      xa_trust_registry_sha256 = xa_trust_registry_sha256 x,
      xa_schema_version = xa_schema_version x,
      xa_database_instance_id = xa_database_instance_id x,
      xa_claim_sequence = xa_claim_sequence x, xa_claim_digest = xa_claim_digest x,
      xa_clock_floor_ns = xa_clock_floor_ns x, xa_confirmed_at = confirmed\<rparr>"

definition xa_fields_ok :: "'t anchor_fields \<Rightarrow> bool" where
  "xa_fields_ok x =
     (xa_anchor_format x = EXECUTOR_ANCHOR_FORMAT \<and>
      (\<forall>v \<in> set [xa_audience x, xa_tenant_id x, xa_envelope_id x]. canonical_identifier v) \<and>
      signed_integer 1 (xa_config_epoch x) \<and> lower_hex 64 (xa_executor_policy_sha256 x) \<and>
      lower_hex 64 (xa_trust_registry_sha256 x) \<and> signed_integer 1 (xa_schema_version x) \<and>
      lower_hex 64 (xa_database_instance_id x) \<and> signed_integer 0 (xa_claim_sequence x) \<and>
      lower_hex 64 (xa_claim_digest x) \<and>
      \<not> (xa_claim_sequence x = 0 \<and> xa_claim_digest x \<noteq> ZERO_SHA256) \<and>
      optional_ok (signed_integer 0) (xa_clock_floor_ns x))"

definition make_authority_anchor :: "anchor_args \<Rightarrow> authority_anchor res" where
  "make_authority_anchor a =
     (if \<not> xa_fields_ok a then bad_domain
      else case require_utc (xa_confirmed_at a) of Inl e \<Rightarrow> Inl e
      | Inr confirmed \<Rightarrow> Inr (xa_with_time confirmed a))"

definition authority_anchor_ok :: "authority_anchor \<Rightarrow> bool" where
  "authority_anchor_ok x = (xa_fields_ok x \<and> in_datetime_range (xa_confirmed_at x))"

record 't watermark_fields =
  wm_warden_id :: string
  wm_lease_id :: string
  wm_audience :: string
  wm_last_sequence :: int
  wm_updated_at :: 't
  wm_expires_at_ns :: int
  wm_version :: int

type_synonym watermark_args = "pytime watermark_fields"
type_synonym watermark = "instant watermark_fields"

definition wm_with_time :: "'s \<Rightarrow> 't watermark_fields \<Rightarrow> 's watermark_fields" where
  "wm_with_time updated x =
     \<lparr>wm_warden_id = wm_warden_id x, wm_lease_id = wm_lease_id x, wm_audience = wm_audience x,
      wm_last_sequence = wm_last_sequence x, wm_updated_at = updated,
      wm_expires_at_ns = wm_expires_at_ns x, wm_version = wm_version x\<rparr>"

definition watermark_fields_ok :: "'t watermark_fields \<Rightarrow> bool" where
  "watermark_fields_ok x =
     ((\<forall>v \<in> set [wm_warden_id x, wm_lease_id x, wm_audience x]. canonical_identifier v) \<and>
      signed_integer 1 (wm_last_sequence x) \<and> signed_integer 1 (wm_expires_at_ns x) \<and>
      signed_integer 0 (wm_version x))"

definition make_watermark :: "watermark_args \<Rightarrow> watermark res" where
  "make_watermark a =
     (if \<not> watermark_fields_ok a then bad_domain
      else case require_utc (wm_updated_at a) of Inl e \<Rightarrow> Inl e
      | Inr updated \<Rightarrow> Inr (wm_with_time updated a))"

definition watermark_ok :: "watermark \<Rightarrow> bool" where
  "watermark_ok x = (watermark_fields_ok x \<and> in_datetime_range (wm_updated_at x))"

definition wm_key :: "'t watermark_fields \<Rightarrow> string \<times> string \<times> string" where
  "wm_key x = (wm_warden_id x, wm_lease_id x, wm_audience x)"

definition require_advance :: "watermark \<Rightarrow> string \<times> string \<times> string \<Rightarrow> int \<Rightarrow> unit res" where
  "require_advance x key sequence =
     (if key \<noteq> wm_key x then bad_domain
      else if \<not> signed_integer 1 sequence then bad_domain
      else if sequence \<le> wm_last_sequence x then bad_domain
      else Inr ())"

record 't claim_fields =
  rc_receipt_id :: string
  rc_operation_id :: string
  rc_owner_id :: string
  rc_binding_id :: string
  rc_tenant_id :: string
  rc_envelope_id :: string
  rc_warden_id :: string
  rc_lease_id :: string
  rc_subject_id :: string
  rc_lineage_id :: string
  rc_policy_digest :: string
  rc_machine_digest :: string
  rc_config_epoch :: int
  rc_audience :: string
  rc_transition :: string
  rc_nonce :: string
  rc_resulting_sequence :: int
  rc_evidence_digest :: "string option"
  rc_issued_at_ns :: int
  rc_expires_at_ns :: int
  rc_claimed_at :: 't
  rc_canonical_digest :: string
  rc_authority_anchor :: authority_anchor

type_synonym claim_args = "pytime claim_fields"
type_synonym receipt_claim = "instant claim_fields"

definition rc_with_time :: "'s \<Rightarrow> 't claim_fields \<Rightarrow> 's claim_fields" where
  "rc_with_time claimed x =
     \<lparr>rc_receipt_id = rc_receipt_id x, rc_operation_id = rc_operation_id x,
      rc_owner_id = rc_owner_id x, rc_binding_id = rc_binding_id x, rc_tenant_id = rc_tenant_id x,
      rc_envelope_id = rc_envelope_id x, rc_warden_id = rc_warden_id x, rc_lease_id = rc_lease_id x,
      rc_subject_id = rc_subject_id x, rc_lineage_id = rc_lineage_id x,
      rc_policy_digest = rc_policy_digest x, rc_machine_digest = rc_machine_digest x,
      rc_config_epoch = rc_config_epoch x, rc_audience = rc_audience x,
      rc_transition = rc_transition x, rc_nonce = rc_nonce x,
      rc_resulting_sequence = rc_resulting_sequence x, rc_evidence_digest = rc_evidence_digest x,
      rc_issued_at_ns = rc_issued_at_ns x, rc_expires_at_ns = rc_expires_at_ns x,
      rc_claimed_at = claimed, rc_canonical_digest = rc_canonical_digest x,
      rc_authority_anchor = rc_authority_anchor x\<rparr>"

definition claim_fields_ok :: "'t claim_fields \<Rightarrow> bool" where
  "claim_fields_ok x =
     ((\<forall>v \<in> set [rc_receipt_id x, rc_operation_id x, rc_owner_id x, rc_binding_id x, rc_tenant_id x,
                rc_envelope_id x, rc_warden_id x, rc_lease_id x, rc_subject_id x, rc_lineage_id x,
                rc_audience x, rc_transition x, rc_nonce x]. canonical_identifier v) \<and>
      lets_digest (rc_policy_digest x) \<and> lets_digest (rc_machine_digest x) \<and>
      optional_ok lets_digest (rc_evidence_digest x) \<and> signed_integer 1 (rc_config_epoch x) \<and>
      signed_integer 1 (rc_resulting_sequence x) \<and> signed_integer 0 (rc_issued_at_ns x) \<and>
      signed_integer 1 (rc_expires_at_ns x) \<and> rc_issued_at_ns x < rc_expires_at_ns x)"

definition claim_anchor_ok :: "receipt_claim \<Rightarrow> bool" where
  "claim_anchor_ok x =
     (let anchor = rc_authority_anchor x
      in (xa_audience anchor, xa_tenant_id anchor, xa_envelope_id anchor, xa_config_epoch anchor) =
           (rc_audience x, rc_tenant_id x, rc_envelope_id x, rc_config_epoch x) \<and>
         1 \<le> xa_claim_sequence anchor \<and> xa_clock_floor_ns anchor \<noteq> None \<and>
         rc_claimed_at x \<le> xa_confirmed_at anchor)"

definition make_claim :: "claim_args \<Rightarrow> receipt_claim res" where
  "make_claim a =
     (if \<not> claim_fields_ok a then bad_domain
      else case require_utc (rc_claimed_at a) of Inl e \<Rightarrow> Inl e | Inr claimed \<Rightarrow>
       (let x = rc_with_time claimed a
        in if lower_hex 64 (rc_canonical_digest x) \<and> claim_anchor_ok x then Inr x else bad_domain))"

text \<open>The anchor of a claim is itself a constructed value.\<close>

definition claim_ok :: "receipt_claim \<Rightarrow> bool" where
  "claim_ok x =
     (claim_fields_ok x \<and> in_datetime_range (rc_claimed_at x) \<and>
      lower_hex 64 (rc_canonical_digest x) \<and> claim_anchor_ok x \<and>
      authority_anchor_ok (rc_authority_anchor x))"

definition receipt_uniqueness_key :: "'t claim_fields \<Rightarrow> string" where
  "receipt_uniqueness_key x = rc_receipt_id x"

definition nonce_uniqueness_key :: "'t claim_fields \<Rightarrow> string \<times> string \<times> string \<times> string" where
  "nonce_uniqueness_key x = (rc_tenant_id x, rc_envelope_id x, rc_audience x, rc_nonce x)"

definition sequence_watermark_key :: "'t claim_fields \<Rightarrow> string \<times> string \<times> string" where
  "sequence_watermark_key x = (rc_warden_id x, rc_lease_id x, rc_audience x)"

definition rc_owner_operation_key :: "'t claim_fields \<Rightarrow> string \<times> string" where
  "rc_owner_operation_key x = (rc_owner_id x, rc_operation_id x)"

subsection \<open>What a constructor returns\<close>

lemma bd_with_times_id [simp]: "bd_with_times (bd_created_at b) (bd_updated_at b) b = b"
  by (simp add: bd_with_times_def)

lemma bd_with_times_twice [simp]: "bd_with_times c u (bd_with_times c' u' b) = bd_with_times c u b"
  by (simp add: bd_with_times_def)

lemma bd_with_times_ok [simp]: "binding_fields_ok (bd_with_times c u b) = binding_fields_ok b"
  by (simp add: binding_fields_ok_def remote_state_ok_def has_pending_identity_def
      remote_identities_def bd_with_times_def)

lemma bd_with_times_fields [simp]:
  "bd_created_at (bd_with_times c u b) = c" "bd_updated_at (bd_with_times c u b) = u"
  by (simp_all add: bd_with_times_def)

lemma make_binding_ok: "make_binding a = Inr b \<Longrightarrow> binding_ok b"
  by (auto simp: make_binding_def binding_ok_def dest: require_utc_range split: if_splits sum.splits)

lemma make_binding_utc:
  assumes "in_datetime_range (bd_created_at b)" and "in_datetime_range (bd_updated_at b)"
  shows "make_binding (bd_with_times (utc (bd_created_at b)) (utc (bd_updated_at b)) b) =
    (if binding_ok b then Inr b else bad_domain)"
  using assms by (auto simp: make_binding_def binding_ok_def require_utc_instant)

lemma lo_with_times_id [simp]:
  "lo_with_times (lo_next_attempt_at x) (lo_last_attempt_at x) (lo_reconciled_at x) (lo_created_at x)
     (lo_updated_at x) x = x"
  by (simp add: lo_with_times_def)

lemma lo_with_times_twice [simp]:
  "lo_with_times n l r c u (lo_with_times n' l' r' c' u' x) = lo_with_times n l r c u x"
  by (simp add: lo_with_times_def)

lemma lo_with_times_fields [simp]:
  "lifecycle_fields_ok (lo_with_times n l r c u x) = lifecycle_fields_ok x"
  "lo_reconciliation_digest (lo_with_times n l r c u x) = lo_reconciliation_digest x"
  "lo_next_attempt_at (lo_with_times n l r c u x) = n"
  "lo_last_attempt_at (lo_with_times n l r c u x) = l"
  "lo_reconciled_at (lo_with_times n l r c u x) = r"
  "lo_created_at (lo_with_times n l r c u x) = c"
  "lo_updated_at (lo_with_times n l r c u x) = u"
  by (simp_all add: lo_with_times_def lifecycle_fields_ok_def)

lemma make_lifecycle_ok: "make_lifecycle a = Inr x \<Longrightarrow> lifecycle_ok x"
  by (auto simp: make_lifecycle_def lifecycle_ok_def Let_def dest: require_utc_range optional_time_Inr
      split: if_splits sum.splits)

lemma make_lifecycle_utc:
  assumes "in_datetime_range (lo_created_at x)" and "in_datetime_range (lo_updated_at x)"
    and "optional_ok in_datetime_range (lo_next_attempt_at x)"
    and "optional_ok in_datetime_range (lo_last_attempt_at x)"
    and "optional_ok in_datetime_range (lo_reconciled_at x)"
  shows "make_lifecycle (lo_with_times (map_option utc (lo_next_attempt_at x))
      (map_option utc (lo_last_attempt_at x)) (map_option utc (lo_reconciled_at x))
      (utc (lo_created_at x)) (utc (lo_updated_at x)) x) =
    (if lifecycle_ok x then Inr x else bad_domain)"
  using assms by (auto simp: make_lifecycle_def lifecycle_ok_def require_utc_instant optional_time_utc)

lemma ef_with_times_id [simp]: "ef_with_times (ef_created_at x) (ef_updated_at x) x = x"
  by (simp add: ef_with_times_def)

lemma ef_with_times_twice [simp]: "ef_with_times c u (ef_with_times c' u' x) = ef_with_times c u x"
  by (simp add: ef_with_times_def)

lemma ef_with_times_fields [simp]:
  "effect_fields_ok (ef_with_times c u x) = effect_fields_ok x"
  "ef_created_at (ef_with_times c u x) = c" "ef_updated_at (ef_with_times c u x) = u"
  by (simp_all add: ef_with_times_def effect_fields_ok_def)

lemma make_effect_ok: "make_effect a = Inr x \<Longrightarrow> effect_ok x"
  by (auto simp: make_effect_def effect_ok_def dest: require_utc_range split: if_splits sum.splits)

lemma make_effect_utc:
  assumes "in_datetime_range (ef_created_at x)" and "in_datetime_range (ef_updated_at x)"
  shows "make_effect (ef_with_times (utc (ef_created_at x)) (utc (ef_updated_at x)) x) =
    (if effect_ok x then Inr x else bad_domain)"
  using assms by (auto simp: make_effect_def effect_ok_def require_utc_instant)

lemma xa_with_time_simps [simp]:
  "xa_with_time (xa_confirmed_at x) x = x" "xa_with_time t (xa_with_time t' x) = xa_with_time t x"
  "xa_fields_ok (xa_with_time t x) = xa_fields_ok x" "xa_confirmed_at (xa_with_time t x) = t"
  by (simp_all add: xa_with_time_def xa_fields_ok_def)

lemma make_authority_anchor_ok: "make_authority_anchor a = Inr x \<Longrightarrow> authority_anchor_ok x"
  by (auto simp: make_authority_anchor_def authority_anchor_ok_def dest: require_utc_range
      split: if_splits sum.splits)

lemma make_authority_anchor_utc:
  "in_datetime_range (xa_confirmed_at x) \<Longrightarrow>
   make_authority_anchor (xa_with_time (utc (xa_confirmed_at x)) x) =
     (if authority_anchor_ok x then Inr x else bad_domain)"
  by (auto simp: make_authority_anchor_def authority_anchor_ok_def require_utc_instant)

lemma wm_with_time_simps [simp]:
  "wm_with_time (wm_updated_at x) x = x" "wm_with_time t (wm_with_time t' x) = wm_with_time t x"
  "watermark_fields_ok (wm_with_time t x) = watermark_fields_ok x"
  "wm_updated_at (wm_with_time t x) = t"
  by (simp_all add: wm_with_time_def watermark_fields_ok_def)

lemma make_watermark_ok: "make_watermark a = Inr x \<Longrightarrow> watermark_ok x"
  by (auto simp: make_watermark_def watermark_ok_def dest: require_utc_range
      split: if_splits sum.splits)

lemma make_watermark_utc:
  "in_datetime_range (wm_updated_at x) \<Longrightarrow>
   make_watermark (wm_with_time (utc (wm_updated_at x)) x) =
     (if watermark_ok x then Inr x else bad_domain)"
  by (auto simp: make_watermark_def watermark_ok_def require_utc_instant)

lemma rc_with_time_simps [simp]:
  "rc_with_time (rc_claimed_at x) x = x" "rc_with_time t (rc_with_time t' x) = rc_with_time t x"
  "claim_fields_ok (rc_with_time t x) = claim_fields_ok x"
  "rc_claimed_at (rc_with_time t x) = t"
  "rc_canonical_digest (rc_with_time t x) = rc_canonical_digest x"
  "rc_authority_anchor (rc_with_time t x) = rc_authority_anchor x"
  by (simp_all add: rc_with_time_def claim_fields_ok_def)

lemma make_claim_ok:
  "make_claim a = Inr x \<Longrightarrow> authority_anchor_ok (rc_authority_anchor a) \<Longrightarrow> claim_ok x"
  by (auto simp: make_claim_def claim_ok_def Let_def dest: require_utc_range
      split: if_splits sum.splits)

lemma make_claim_utc:
  "in_datetime_range (rc_claimed_at x) \<Longrightarrow> authority_anchor_ok (rc_authority_anchor x) \<Longrightarrow>
   make_claim (rc_with_time (utc (rc_claimed_at x)) x) = (if claim_ok x then Inr x else bad_domain)"
  by (auto simp: make_claim_def claim_ok_def require_utc_instant)

end
