(* ===== verification/AuthorityTables.thy ===== *)
theory AuthorityTables
  imports AuthorityModels
begin

text \<open>
  The five authority tables of \<open>database/migrations.py\<close>: the \<open>CHECK\<close> clauses, unique keys and
  the watermark trigger, and how the values of the model classes relate to them.

  A row has the type of the value it stores: the \<open>CHECK\<close> clauses restrict the text of an enum
  column to the members of the enum.
\<close>

subsection \<open>Constraints of the tables\<close>

definition identifier_is_canonical :: "string \<Rightarrow> bool" where
  "identifier_is_canonical s =
     (case s of [] \<Rightarrow> False
      | c # cs \<Rightarrow> c \<in> set alnum_chars \<and>
          (cs = [] \<or> last cs \<in> set alnum_chars \<and> length (butlast cs) \<le> 126 \<and>
             (\<forall>d \<in> set (butlast cs). d \<in> set (alnum_chars @ ''._:@/-''))))"

fun strictly_ascending :: "string list \<Rightarrow> bool" where
  "strictly_ascending (x # y # zs) = (x < y \<and> strictly_ascending (y # zs))"
| "strictly_ascending _ = True"

definition capabilities_are_canonical :: "string list \<Rightarrow> bool" where
  "capabilities_are_canonical v =
     (0 < length v \<and> (\<forall>c \<in> set v. identifier_is_canonical c) \<and> strictly_ascending v)"

definition bigint :: "int \<Rightarrow> bool" where
  "bigint n = (- MAX_BIGINT - 1 \<le> n \<and> n \<le> MAX_BIGINT)"

text \<open>\<open>'^pending:<name>:[0-9a-f]{32}$'\<close> and \<open>'^pending:'\<close>.\<close>

definition pending_pattern :: "pending_field \<Rightarrow> string \<Rightarrow> bool" where
  "pending_pattern field s =
     (let p = PENDING_ID_PREFIX @ pending_name field @ '':''
      in take (length p) s = p \<and> lower_hex 32 (drop (length p) s))"

definition pending_prefix :: "string \<Rightarrow> bool" where
  "pending_prefix s = (take (length PENDING_ID_PREFIX) s = PENDING_ID_PREFIX)"

definition binding_row_ok :: "binding \<Rightarrow> bool" where
  "binding_row_ok r =
     ((\<forall>v \<in> set ([bd_binding_id r, bd_owner_id r, bd_agent_id r, bd_runtime_id r, bd_tenant_id r,
                bd_envelope_id r] @ remote_identities r). identifier_is_canonical v) \<and>
      lets_digest (bd_policy_digest r) \<and> lets_digest (bd_machine_digest r) \<and>
      capabilities_are_canonical (bd_capabilities r) \<and>
      (\<forall>n \<in> set [bd_runtime_generation r, bd_config_epoch r, bd_lease_sequence r,
                bd_lease_expires_at_ns r, bd_version r]. bigint n) \<and>
      0 < bd_runtime_generation r \<and> 0 < bd_config_epoch r \<and> 0 \<le> bd_lease_sequence r \<and>
      0 \<le> bd_lease_expires_at_ns r \<and> 0 \<le> bd_version r \<and> bd_created_at r \<le> bd_updated_at r \<and>
      (bd_state r \<in> {PROVISIONING, CLOSED} \<and>
         list_all2 pending_pattern [Warden, Lease, Lineage, Subject] (remote_identities r) \<and>
         bd_lease_sequence r = 0 \<and> bd_lease_expires_at_ns r = 0 \<or>
       bd_state r \<noteq> PROVISIONING \<and> (\<forall>v \<in> set (remote_identities r). \<not> pending_prefix v) \<and>
         0 < bd_lease_expires_at_ns r))"

definition binding_conflict :: "binding \<Rightarrow> binding \<Rightarrow> bool" where
  "binding_conflict r s =
     (bd_binding_id r = bd_binding_id s \<or>
      (bd_owner_id r, bd_binding_id r) = (bd_owner_id s, bd_binding_id s) \<or>
      runtime_generation_key r = runtime_generation_key s \<or>
      \<not> binding_terminal (bd_state r) \<and> \<not> binding_terminal (bd_state s) \<and>
        owner_agent_key r = owner_agent_key s)"

definition lifecycle_row_ok :: "lifecycle \<Rightarrow> bool" where
  "lifecycle_row_ok r =
     ((\<forall>v \<in> set [lo_operation_id r, lo_owner_id r, lo_binding_id r, lo_remote_request_id r].
         identifier_is_canonical v) \<and>
      lo_remote_request_id r = lo_operation_id r \<and>
      optional_ok identifier_is_canonical (lo_error_code r) \<and>
      (\<forall>n \<in> set [lo_expected_binding_version r, lo_version r]. 0 \<le> n \<and> bigint n) \<and>
      optional_ok (\<lambda>n. 0 \<le> n \<and> bigint n) (lo_expected_lease_sequence r) \<and>
      0 \<le> lo_attempt_count r \<and> lo_attempt_count r \<le> MAX_INTEGER \<and>
      lower_hex 64 (lo_request_fingerprint r) \<and> optional_ok (lower_hex 64) (lo_result_digest r) \<and>
      optional_ok (lower_hex 64) (lo_reconciliation_digest r) \<and>
      (lo_attempt_count r = 0 \<and> lo_last_attempt_at r = None \<or>
       0 < lo_attempt_count r \<and> lo_last_attempt_at r \<noteq> None) \<and>
      (lo_status r = PENDING \<or> 0 < lo_attempt_count r) \<and>
      (lo_status r \<in> {PENDING, IN_FLIGHT} \<and> lo_result_digest r = None \<and> lo_error_code r = None \<or>
       lo_status r = lifecycle_status.SUCCEEDED \<and> lo_result_digest r \<noteq> None \<and> lo_error_code r = None \<or>
       lo_status r \<in> {FAILED, UNCERTAIN} \<and> lo_result_digest r = None \<and> lo_error_code r \<noteq> None \<or>
       lo_status r = RECONCILED \<and> (lo_result_digest r \<noteq> None) \<noteq> (lo_error_code r \<noteq> None)) \<and>
      (if lo_status r = RECONCILED
       then lo_reconciled_at r \<noteq> None \<and> lo_reconciliation_digest r \<noteq> None
       else lo_reconciled_at r = None \<and> lo_reconciliation_digest r = None) \<and>
      lo_created_at r \<le> lo_updated_at r \<and>
      (\<forall>t \<in> set [lo_next_attempt_at r, lo_last_attempt_at r, lo_reconciled_at r].
         optional_ok ((\<le>) (lo_created_at r)) t) \<and>
      (lo_status r \<notin> {lifecycle_status.SUCCEEDED, FAILED, RECONCILED} \<or> lo_next_attempt_at r = None))"

definition lifecycle_conflict :: "lifecycle \<Rightarrow> lifecycle \<Rightarrow> bool" where
  "lifecycle_conflict r s =
     (lo_operation_id r = lo_operation_id s \<or>
      (lo_owner_id r, lo_operation_id r) = (lo_owner_id s, lo_operation_id s))"

text \<open>\<open>btrim\<close> takes spaces only; the class \<open>[:cntrl:]\<close> is 0 to 31 and 127 to 159.\<close>

definition pg_control :: "char \<Rightarrow> bool" where
  "pg_control c = (let n = of_char c :: nat in n < 32 \<or> 127 \<le> n \<and> n \<le> 159)"

definition nonce_column_ok :: "string \<Rightarrow> bool" where
  "nonce_column_ok s =
     (16 \<le> length s \<and> length s \<le> 256 \<and>
      s = rev (dropWhile ((=) CHR '' '') (rev (dropWhile ((=) CHR '' '') s))) \<and>
      (\<forall>c \<in> set s. \<not> pg_control c))"

definition effect_row_ok :: "effect \<Rightarrow> bool" where
  "effect_row_ok r =
     ((\<forall>v \<in> set [ef_operation_id r, ef_owner_id r, ef_agent_id r, ef_binding_id r, ef_tool_id r,
                ef_lets_capability r, ef_lets_transition r, ef_executor_audience r,
                ef_audit_correlation_id r]. identifier_is_canonical v) \<and>
      optional_ok identifier_is_canonical (ef_receipt_id r) \<and>
      optional_ok identifier_is_canonical (ef_error_code r) \<and> nonce_column_ok (ef_nonce r) \<and>
      lower_hex 64 (ef_effect_digest r) \<and> optional_ok (lower_hex 64) (ef_receipt_digest r) \<and>
      optional_ok (lower_hex 64) (ef_effect_result_digest r) \<and>
      0 \<le> ef_expected_sequence r \<and> bigint (ef_expected_sequence r) \<and>
      0 \<le> ef_version r \<and> bigint (ef_version r) \<and>
      (ef_receipt_id r = None \<longleftrightarrow> ef_receipt_digest r = None) \<and>
      (ef_status r \<notin> {RECEIPT_RECEIVED, RECEIPT_CLAIMED, EXECUTING, SUCCEEDED, EFFECT_FAILED,
         OUTCOME_UNCERTAIN} \<or> ef_receipt_id r \<noteq> None) \<and>
      (ef_status r \<notin> {CREATED, ASTRAL_AUTHORIZED, LETS_PENDING} \<or> ef_receipt_id r = None) \<and>
      (ef_status r \<in> {DENIED, FAILED_CLOSED, EFFECT_FAILED, OUTCOME_UNCERTAIN} \<longleftrightarrow>
         ef_error_code r \<noteq> None) \<and>
      (ef_status r \<in> {SUCCEEDED, EFFECT_FAILED} \<longleftrightarrow> ef_effect_result_digest r \<noteq> None) \<and>
      ef_created_at r \<le> ef_updated_at r)"

definition effect_conflict :: "effect \<Rightarrow> effect \<Rightarrow> bool" where
  "effect_conflict r s =
     (ef_operation_id r = ef_operation_id s \<or> ef_owner_operation_key r = ef_owner_operation_key s \<or>
      ef_receipt_id r \<noteq> None \<and> ef_receipt_id r = ef_receipt_id s \<or>
      (ef_owner_id r, ef_binding_id r, ef_executor_audience r, ef_nonce r) =
        (ef_owner_id s, ef_binding_id s, ef_executor_audience s, ef_nonce s))"

definition watermark_row_ok :: "watermark \<Rightarrow> bool" where
  "watermark_row_ok r =
     ((\<forall>v \<in> set [wm_warden_id r, wm_lease_id r, wm_audience r]. identifier_is_canonical v) \<and>
      0 < wm_last_sequence r \<and> bigint (wm_last_sequence r) \<and> 0 < wm_expires_at_ns r \<and>
      bigint (wm_expires_at_ns r) \<and> 0 \<le> wm_version r \<and> bigint (wm_version r))"

definition watermark_conflict :: "watermark \<Rightarrow> watermark \<Rightarrow> bool" where
  "watermark_conflict r s = (wm_key r = wm_key s)"

text \<open>The trigger \<open>astralplane_receipt_watermark_require_advance\<close> accepts the update.\<close>

definition watermark_require_advance :: "watermark \<Rightarrow> watermark \<Rightarrow> bool" where
  "watermark_require_advance old new =
     (\<not> (wm_key new \<noteq> wm_key old \<or> wm_last_sequence new \<le> wm_last_sequence old \<or>
         wm_version new \<noteq> wm_version old + 1 \<or> wm_updated_at new < wm_updated_at old))"

definition claim_row_ok :: "receipt_claim \<Rightarrow> bool" where
  "claim_row_ok r =
     (let anchor = rc_authority_anchor r
      in (\<forall>v \<in> set [rc_receipt_id r, rc_operation_id r, rc_owner_id r, rc_binding_id r, rc_tenant_id r,
                rc_envelope_id r, rc_warden_id r, rc_lease_id r, rc_subject_id r, rc_lineage_id r,
                rc_audience r, rc_transition r, rc_nonce r]. identifier_is_canonical v) \<and>
         lets_digest (rc_policy_digest r) \<and> lets_digest (rc_machine_digest r) \<and>
         optional_ok lets_digest (rc_evidence_digest r) \<and>
         (\<forall>n \<in> set [rc_config_epoch r, rc_resulting_sequence r, rc_issued_at_ns r,
                   rc_expires_at_ns r, xa_schema_version anchor, xa_claim_sequence anchor]. bigint n) \<and>
         0 < rc_config_epoch r \<and> 0 < rc_resulting_sequence r \<and> 0 \<le> rc_issued_at_ns r \<and>
         rc_issued_at_ns r < rc_expires_at_ns r \<and>
         (\<forall>d \<in> set [rc_canonical_digest r, xa_executor_policy_sha256 anchor,
                   xa_trust_registry_sha256 anchor, xa_database_instance_id anchor,
                   xa_claim_digest anchor]. lower_hex 64 d) \<and>
         xa_anchor_format anchor = ''LETS-EXECUTOR-AUTHORITY-ANCHOR/1'' \<and>
         0 < xa_schema_version anchor \<and> 0 < xa_claim_sequence anchor \<and>
         (case xa_clock_floor_ns anchor of None \<Rightarrow> False | Some n \<Rightarrow> 0 \<le> n \<and> bigint n) \<and>
         rc_claimed_at r \<le> xa_confirmed_at anchor)"

definition claim_conflict :: "receipt_claim \<Rightarrow> receipt_claim \<Rightarrow> bool" where
  "claim_conflict r s =
     (receipt_uniqueness_key r = receipt_uniqueness_key s \<or>
      rc_operation_id r = rc_operation_id s \<or> nonce_uniqueness_key r = nonce_uniqueness_key s \<or>
      sequence_watermark_key r = sequence_watermark_key s \<and>
        rc_resulting_sequence r = rc_resulting_sequence s \<or>
      rc_canonical_digest r = rc_canonical_digest s)"

subsection \<open>The two validators agree\<close>

lemma identifier_is_canonical_iff: "identifier_is_canonical s \<longleftrightarrow> canonical_identifier s"
proof (cases s)
  case (Cons c cs)
  show ?thesis
  proof (cases cs rule: rev_cases)
    case Nil
    with Cons show ?thesis by (auto simp: identifier_is_canonical_def canonical_identifier_def)
  next
    case (snoc ds d)
    with Cons show ?thesis by (auto simp: identifier_is_canonical_def canonical_identifier_def)
  qed
qed (simp add: identifier_is_canonical_def canonical_identifier_def)

lemma strictly_ascending_iff: "strictly_ascending v \<longleftrightarrow> sorted_wrt (<) v"
proof (induction v rule: strictly_ascending.induct)
  case (1 x y zs)
  have "sorted_wrt (<) (x # y # zs) \<longleftrightarrow> x < y \<and> sorted_wrt (<) (y # zs)"
    by (auto intro: less_trans)
  with 1 show ?case by simp
qed simp_all

lemma ascending_iff: "strictly_ascending v \<longleftrightarrow> sort v = v \<and> length v = card (set v)"
proof -
  have "sort v = v \<and> length v = card (set v) \<longleftrightarrow> sorted v \<and> distinct v"
    by (metis card_distinct distinct_card sorted_sort sorted_sort_id)
  then show ?thesis by (simp add: strictly_ascending_iff strict_sorted_iff)
qed

text \<open>
  The capability lists the constructor of a binding accepts are exactly those the database
  function accepts, so neither layer stores or refuses a list the other one would not.
\<close>

theorem capability_checks_agree: "capabilities_are_canonical v \<longleftrightarrow> canonical_capabilities v"
  by (auto simp: capabilities_are_canonical_def canonical_capabilities_def ascending_iff
      identifier_is_canonical_iff)

lemma pending_digest_hex: "lower_hex 32 (pending_digest b)"
proof -
  have "lower_hex 64 (sha256_hex (PENDING_ID_DOMAIN @ encode_ascii b))" by simp
  then show ?thesis by (auto simp: pending_digest_def lower_hex_def dest: in_set_takeD)
qed

lemma pending_id_pattern: "pending_pattern f (pending_id b f)"
  by (simp add: pending_pattern_def pending_id_def pending_digest_hex Let_def)

lemma expected_pending_pattern:
  "list_all2 pending_pattern [Warden, Lease, Lineage, Subject] (expected_pending b)"
  by (simp add: expected_pending_def pending_id_pattern)

abbreviation fits :: "int list \<Rightarrow> bool" where
  "fits ns \<equiv> \<forall>n \<in> set ns. bigint n"

lemma binding_fits:
  assumes "binding_ok b"
    and "fits [bd_runtime_generation b, bd_config_epoch b, bd_lease_sequence b,
           bd_lease_expires_at_ns b, bd_version b]"
  shows "binding_row_ok b"
proof -
  have f: "binding_fields_ok b" "bd_created_at b \<le> bd_updated_at b"
    using assms(1) by (simp_all add: binding_ok_def)
  have ids: "\<forall>v \<in> set ([bd_binding_id b, bd_owner_id b, bd_agent_id b, bd_runtime_id b,
      bd_tenant_id b, bd_envelope_id b] @ remote_identities b). identifier_is_canonical v"
    using f(1) by (simp add: binding_fields_ok_def identifier_is_canonical_iff)
  have "capabilities_are_canonical (bd_capabilities b)"
    using f(1) by (auto simp: binding_fields_ok_def canonical_capabilities_def
        capabilities_are_canonical_def ascending_iff identifier_is_canonical_iff card_gt_0_iff)
  moreover have "bd_state b \<in> {PROVISIONING, CLOSED} \<and>
         list_all2 pending_pattern [Warden, Lease, Lineage, Subject] (remote_identities b) \<and>
         bd_lease_sequence b = 0 \<and> bd_lease_expires_at_ns b = 0 \<or>
       bd_state b \<noteq> PROVISIONING \<and> (\<forall>v \<in> set (remote_identities b). \<not> pending_prefix v) \<and>
         0 < bd_lease_expires_at_ns b"
    using f(1) expected_pending_pattern [of "bd_binding_id b"]
    by (auto simp: binding_fields_ok_def remote_state_ok_def has_pending_identity_def
        pending_prefix_def split: if_splits)
  ultimately show ?thesis
    using f ids assms(2) unfolding binding_row_ok_def binding_fields_ok_def by blast
qed

lemma lifecycle_fits:
  assumes "lifecycle_ok x"
    and "lo_status x \<in> {PENDING, IN_FLIGHT} \<Longrightarrow> lo_result_digest x = None \<and> lo_error_code x = None"
    and "fits [lo_expected_binding_version x, lo_version x]"
    and "optional_ok bigint (lo_expected_lease_sequence x)" and "lo_attempt_count x \<le> MAX_INTEGER"
  shows "lifecycle_row_ok x"
proof -
  have f: "lifecycle_fields_ok x" "lifecycle_shape_ok x"
    "optional_ok (lower_hex 64) (lo_reconciliation_digest x)"
    using assms(1) by (simp_all add: lifecycle_ok_def)
  have [simp]: "identifier_is_canonical = canonical_identifier"
    by (rule ext) (rule identifier_is_canonical_iff)
  show ?thesis
    using f assms(2-)
    by (cases "lo_status x"; cases "lo_expected_lease_sequence x")
      (auto simp: lifecycle_row_ok_def lifecycle_fields_ok_def lifecycle_shape_ok_def
        lifecycle_terminal_def)
qed

lemma dropWhile_same_length: "length (dropWhile p s) = length s \<Longrightarrow> dropWhile p s = s"
  using length_dropWhile_le [of p "tl s"] by (cases s) (auto split: if_splits)

lemma strip_btrim:
  assumes "s = py_strip s"
  shows "s = rev (dropWhile ((=) CHR '' '') (rev (dropWhile ((=) CHR '' '') s)))"
proof -
  have space: "py_space CHR '' ''" by (simp add: py_space_def)
  have weaker: "dropWhile ((=) CHR '' '') u = u" if "dropWhile py_space u = u" for u
    using that space by (cases u) (auto split: if_splits, metis dropWhile_eq_Cons_conv)
  have "length s \<le> length (dropWhile py_space s)"
    using length_dropWhile_le [of py_space "rev (dropWhile py_space s)"] arg_cong [OF assms, of length]
    by (simp add: py_strip_def)
  then have front: "dropWhile py_space s = s"
    using length_dropWhile_le [of py_space s] by (intro dropWhile_same_length) simp
  then have rear: "dropWhile py_space (rev s) = rev s"
    using arg_cong [OF assms, of rev] by (simp add: py_strip_def)
  show ?thesis by (simp add: weaker front rear)
qed

lemma effect_fits:
  assumes "effect_ok x" and "\<forall>c \<in> set (ef_nonce x). \<not> pg_control c"
    and "fits [ef_expected_sequence x, ef_version x]"
  shows "effect_row_ok x"
proof -
  have f: "effect_fields_ok x" "ef_created_at x \<le> ef_updated_at x"
    using assms(1) by (simp_all add: effect_ok_def)
  have "nonce_column_ok (ef_nonce x)"
    using f(1) assms(2) strip_btrim [of "ef_nonce x"]
    by (simp add: effect_fields_ok_def effect_nonce_def nonce_column_ok_def)
  moreover have [simp]: "identifier_is_canonical = canonical_identifier"
    by (rule ext) (rule identifier_is_canonical_iff)
  ultimately show ?thesis
    using f assms(3)
    by (cases "ef_receipt_id x"; cases "ef_receipt_digest x"; cases "ef_status x")
      (simp_all add: effect_row_ok_def effect_fields_ok_def effect_status_sets)
qed

lemma watermark_fits: "watermark_ok w \<Longrightarrow> watermark_row_ok w"
  by (auto simp: watermark_ok_def watermark_fields_ok_def watermark_row_ok_def signed_integer_def
      identifier_is_canonical_iff bigint_def MAX_BIGINT_def)

lemma claim_fits:
  assumes "claim_ok c"
  shows "claim_row_ok c"
proof -
  let ?x = "rc_authority_anchor c"
  have f: "claim_fields_ok c" "xa_fields_ok ?x" "claim_anchor_ok c" "lower_hex 64 (rc_canonical_digest c)"
    using assms by (simp_all add: claim_ok_def authority_anchor_ok_def)
  have "case xa_clock_floor_ns ?x of None \<Rightarrow> False | Some n \<Rightarrow> 0 \<le> n \<and> bigint n"
    using f(2,3)
    by (cases "xa_clock_floor_ns ?x")
      (auto simp: xa_fields_ok_def claim_anchor_ok_def Let_def signed_integer_def bigint_def MAX_BIGINT_def)
  moreover have "\<forall>n \<in> set [rc_config_epoch c, rc_resulting_sequence c, rc_issued_at_ns c,
      rc_expires_at_ns c, xa_schema_version ?x, xa_claim_sequence ?x]. bigint n"
    using f(1,2)
    by (auto simp: claim_fields_ok_def xa_fields_ok_def signed_integer_def bigint_def MAX_BIGINT_def)
  moreover have [simp]: "identifier_is_canonical = canonical_identifier"
    by (rule ext) (rule identifier_is_canonical_iff)
  ultimately show ?thesis
    using f
    by (simp add: claim_row_ok_def claim_fields_ok_def xa_fields_ok_def claim_anchor_ok_def Let_def
        EXECUTOR_ANCHOR_FORMAT_def signed_integer_def)
qed

subsection \<open>Sample values\<close>

definition sample_digest :: string where
  "sample_digest = replicate 64 (CHR ''a'')"

definition sample_binding :: binding where
  "sample_binding =
     \<lparr>bd_binding_id = ''bind-1'', bd_owner_id = ''ann'', bd_agent_id = ''agent-1'',
      bd_runtime_id = ''run-1'', bd_runtime_generation = 1, bd_population = SERVER_DYNAMIC,
      bd_tenant_id = ''tenant'', bd_envelope_id = ''env'', bd_warden_id = ''warden-1'',
      bd_lease_id = ''lease-1'', bd_lineage_id = ''line-1'', bd_subject_id = ''sub-1'',
      bd_policy_digest = ''sha256:'' @ sample_digest, bd_machine_digest = ''sha256:'' @ sample_digest,
      bd_config_epoch = 1, bd_capabilities = [''fs.read'', ''fs.write''], bd_lease_sequence = 4,
      bd_lease_expires_at_ns = 1000, bd_state = ACTIVE, bd_created_at = 0, bd_updated_at = 5,
      bd_version = 1\<rparr>"

definition sample_effect :: effect where
  "sample_effect =
     \<lparr>ef_operation_id = ''op-1'', ef_owner_id = ''ann'', ef_agent_id = ''agent-1'',
      ef_binding_id = ''bind-1'', ef_tool_id = ''tool'', ef_astral_scope = WRITE,
      ef_lets_capability = ''fs.write'', ef_lets_transition = ''write'',
      ef_executor_audience = ''exec'', ef_nonce = ''nonce-0123456789'',
      ef_effect_digest = sample_digest, ef_expected_sequence = 4,
      ef_audit_correlation_id = ''corr-1'', ef_status = RECEIPT_RECEIVED,
      ef_receipt_id = Some ''receipt-1'', ef_receipt_digest = Some sample_digest,
      ef_effect_result_digest = None, ef_error_code = None, ef_created_at = 0, ef_updated_at = 5,
      ef_version = 3\<rparr>"

definition sample_anchor :: authority_anchor where
  "sample_anchor =
     \<lparr>xa_anchor_format = EXECUTOR_ANCHOR_FORMAT, xa_audience = ''exec'', xa_tenant_id = ''tenant'',
      xa_envelope_id = ''env'', xa_config_epoch = 1, xa_executor_policy_sha256 = sample_digest,
      xa_trust_registry_sha256 = sample_digest, xa_schema_version = 1,
      xa_database_instance_id = sample_digest, xa_claim_sequence = 1,
      xa_claim_digest = sample_digest, xa_clock_floor_ns = Some 0, xa_confirmed_at = 7\<rparr>"

definition sample_receipt :: receipt_claim where
  "sample_receipt =
     \<lparr>rc_receipt_id = ''receipt-1'', rc_operation_id = ''op-1'', rc_owner_id = ''ann'',
      rc_binding_id = ''bind-1'', rc_tenant_id = ''tenant'', rc_envelope_id = ''env'',
      rc_warden_id = ''warden-1'', rc_lease_id = ''lease-1'', rc_subject_id = ''sub-1'',
      rc_lineage_id = ''line-1'', rc_policy_digest = ''sha256:'' @ sample_digest,
      rc_machine_digest = ''sha256:'' @ sample_digest, rc_config_epoch = 1,
      rc_audience = ''exec'', rc_transition = ''write'', rc_nonce = ''nonce-0123456789'',
      rc_resulting_sequence = 5, rc_evidence_digest = Some (''sha256:'' @ sample_digest),
      rc_issued_at_ns = 10, rc_expires_at_ns = 900, rc_claimed_at = 6,
      rc_canonical_digest = sample_digest, rc_authority_anchor = sample_anchor\<rparr>"

definition sample_watermark :: watermark where
  "sample_watermark =
     \<lparr>wm_warden_id = ''warden-1'', wm_lease_id = ''lease-1'', wm_audience = ''exec'',
      wm_last_sequence = 5, wm_updated_at = 6, wm_expires_at_ns = 900, wm_version = 0\<rparr>"

definition sample_lifecycle :: lifecycle where
  "sample_lifecycle =
     \<lparr>lo_operation_id = ''life-1'', lo_owner_id = ''ann'', lo_binding_id = ''bind-1'', lo_kind = RENEW,
      lo_expected_binding_version = 1, lo_expected_lease_sequence = Some 4,
      lo_request_fingerprint = sample_digest, lo_status = PENDING, lo_remote_request_id = ''life-1'',
      lo_result_digest = None, lo_error_code = None, lo_attempt_count = 0,
      lo_next_attempt_at = Some 5, lo_last_attempt_at = None, lo_reconciled_at = None,
      lo_reconciliation_digest = None, lo_created_at = 0, lo_updated_at = 5, lo_version = 0\<rparr>"

lemmas sample_value_defs = sample_binding_def sample_effect_def sample_anchor_def sample_receipt_def
  sample_watermark_def

lemma sample_values_ok:
  "binding_ok sample_binding" "effect_ok sample_effect" "claim_ok sample_receipt"
  "watermark_ok sample_watermark" "authority_anchor_ok sample_anchor" "lifecycle_ok sample_lifecycle"
  by code_simp+

text \<open>
  C22. When exactly a constructed authority value satisfies the \<open>CHECK\<close> clauses and column types of its
  table. A binding does if and only if its integers fit a \<open>BIGINT\<close>. An effect does if and only if its
  integers fit and its nonce holds none of the characters 128 to 159, which only the database
  counts as control characters. A lifecycle operation does if and only if its integers fit, its attempt
  count fits an \<open>INTEGER\<close>, and, while it is pending or in flight, it carries neither a result digest
  nor an error code, which only the database refuses. A watermark and a receipt claim always do.
\<close>

theorem constructed_values_fit_columns:
  assumes b: "make_binding ba = Inr b" and x: "make_effect ea = Inr x" and y: "make_lifecycle la = Inr y"
    and w: "make_watermark wa = Inr w"
    and c: "make_authority_anchor aa = Inr (rc_authority_anchor ca)" "make_claim ca = Inr c"
  shows "(binding_row_ok b \<longleftrightarrow>
      fits [bd_runtime_generation b, bd_config_epoch b, bd_lease_sequence b, bd_lease_expires_at_ns b,
        bd_version b]) \<and>
    (effect_row_ok x \<longleftrightarrow>
      fits [ef_expected_sequence x, ef_version x] \<and>
      \<not> (\<exists>a \<in> set (ef_nonce x). (of_char a :: nat) \<in> {128..159})) \<and>
    (lifecycle_row_ok y \<longleftrightarrow>
      fits [lo_expected_binding_version y, lo_version y] \<and>
      optional_ok bigint (lo_expected_lease_sequence y) \<and> lo_attempt_count y \<le> MAX_INTEGER \<and>
      \<not> (lo_status y \<in> {PENDING, IN_FLIGHT} \<and> (lo_result_digest y \<noteq> None \<or> lo_error_code y \<noteq> None))) \<and>
    watermark_row_ok w \<and> claim_row_ok c"
proof (intro conjI)
  show "binding_row_ok b \<longleftrightarrow>
      fits [bd_runtime_generation b, bd_config_epoch b, bd_lease_sequence b, bd_lease_expires_at_ns b,
        bd_version b]"
    using binding_fits [OF make_binding_ok [OF b]] unfolding binding_row_ok_def by blast
  have "effect_nonce (ef_nonce x)"
    using make_effect_ok [OF x] by (simp add: effect_ok_def effect_fields_ok_def)
  then have nonce: "(\<forall>a \<in> set (ef_nonce x). \<not> pg_control a) \<longleftrightarrow>
      \<not> (\<exists>a \<in> set (ef_nonce x). (of_char a :: nat) \<in> {128..159})"
    unfolding effect_nonce_def pg_control_def Let_def by (force simp: not_le not_less Suc_le_eq)
  show "effect_row_ok x \<longleftrightarrow> fits [ef_expected_sequence x, ef_version x] \<and>
      \<not> (\<exists>a \<in> set (ef_nonce x). (of_char a :: nat) \<in> {128..159})"
    unfolding nonce [symmetric] using effect_fits [OF make_effect_ok [OF x]]
    by (auto simp: effect_row_ok_def nonce_column_ok_def)
  show "lifecycle_row_ok y \<longleftrightarrow>
      fits [lo_expected_binding_version y, lo_version y] \<and>
      optional_ok bigint (lo_expected_lease_sequence y) \<and> lo_attempt_count y \<le> MAX_INTEGER \<and>
      \<not> (lo_status y \<in> {PENDING, IN_FLIGHT} \<and> (lo_result_digest y \<noteq> None \<or> lo_error_code y \<noteq> None))"
    (is "_ \<longleftrightarrow> ?conditions")
  proof
    show "lifecycle_row_ok y \<Longrightarrow> ?conditions"
      by (cases "lo_expected_lease_sequence y") (auto simp: lifecycle_row_ok_def)
    show "?conditions \<Longrightarrow> lifecycle_row_ok y"
      by (rule lifecycle_fits [OF make_lifecycle_ok [OF y]]) blast+
  qed
  show "watermark_row_ok w" by (rule watermark_fits [OF make_watermark_ok [OF w]])
  show "claim_row_ok c" by (rule claim_fits [OF make_claim_ok [OF c(2) make_authority_anchor_ok [OF c(1)]]])
qed

theorem constructed_values_fit_columns_witness:
  "binding_row_ok sample_binding \<and> effect_row_ok sample_effect \<and> lifecycle_row_ok sample_lifecycle \<and>
   watermark_row_ok sample_watermark \<and> claim_row_ok sample_receipt"
proof -
  have "make_binding (bd_with_times (utc 0) (utc 5) sample_binding) = Inr sample_binding"
    using make_binding_utc [of sample_binding] sample_values_ok(1)
    by (simp add: binding_ok_def) (simp add: sample_binding_def)
  moreover have "make_effect (ef_with_times (utc 0) (utc 5) sample_effect) = Inr sample_effect"
    using make_effect_utc [of sample_effect] sample_values_ok(2)
    by (simp add: effect_ok_def) (simp add: sample_effect_def)
  moreover have "make_lifecycle (lo_with_times (Some (utc 5)) None None (utc 0) (utc 5) sample_lifecycle) =
      Inr sample_lifecycle"
    using make_lifecycle_utc [of sample_lifecycle] sample_values_ok(6)
    by (simp add: lifecycle_ok_def) (simp add: sample_lifecycle_def)
  moreover have "make_watermark (wm_with_time (utc 6) sample_watermark) = Inr sample_watermark"
    using make_watermark_utc [of sample_watermark] sample_values_ok(4)
    by (simp add: watermark_ok_def) (simp add: sample_watermark_def)
  moreover have "make_authority_anchor (xa_with_time (utc 7) sample_anchor) =
      Inr (rc_authority_anchor (rc_with_time (utc 6) sample_receipt))"
    using make_authority_anchor_utc [of sample_anchor] sample_values_ok(5)
    by (simp add: authority_anchor_ok_def) (simp add: sample_anchor_def sample_receipt_def)
  moreover have "make_claim (rc_with_time (utc 6) sample_receipt) = Inr sample_receipt"
    using make_claim_utc [of sample_receipt] sample_values_ok(3)
    by (simp add: claim_ok_def) (simp add: sample_receipt_def)
  moreover have "fits [bd_runtime_generation sample_binding, bd_config_epoch sample_binding,
      bd_lease_sequence sample_binding, bd_lease_expires_at_ns sample_binding, bd_version sample_binding]"
    "fits [ef_expected_sequence sample_effect, ef_version sample_effect]"
    "\<not> (\<exists>a \<in> set (ef_nonce sample_effect). (of_char a :: nat) \<in> {128..159})"
    by code_simp+
  moreover have "fits [lo_expected_binding_version sample_lifecycle, lo_version sample_lifecycle]"
    "optional_ok bigint (lo_expected_lease_sequence sample_lifecycle)"
    "lo_attempt_count sample_lifecycle \<le> MAX_INTEGER" "lo_result_digest sample_lifecycle = None"
    "lo_error_code sample_lifecycle = None"
    by code_simp+
  ultimately show ?thesis using constructed_values_fit_columns by blast
qed

end
