(* ===== verification/AuthorityStore.thy ===== *)
theory AuthorityStore
  imports AuthorityTables Outbox
begin

text \<open>
  The repository \<open>authority/repository.py\<close> over the authority tables and the outbox: bindings,
  lifecycle operations and protected effects under compare-and-set fences, and the claim of a
  receipt, which spends a nonce and a sequence number, moves the effect and enqueues an outbox
  entry in one savepoint.

  As in the outbox, \<open>coll\<close> is the sort key of the collation of a text column, \<open>locked\<close> says
  which rows a concurrent transaction holds, and \<open>clock\<close> is \<open>clock_timestamp()\<close>.
\<close>

record authority_db =
  ad_bindings :: "binding list"
  ad_lifecycles :: "lifecycle list"
  ad_effects :: "effect list"
  ad_watermarks :: "watermark list"
  ad_claims :: "receipt_claim list"
  ad_outbox :: "outbox_row list"

abbreviation on_bindings :: "(binding list, 'a) tx \<Rightarrow> (authority_db, 'a) tx" where
  "on_bindings \<equiv> tx_on ad_bindings (\<lambda>t db. db\<lparr>ad_bindings := t\<rparr>)"

abbreviation on_lifecycles :: "(lifecycle list, 'a) tx \<Rightarrow> (authority_db, 'a) tx" where
  "on_lifecycles \<equiv> tx_on ad_lifecycles (\<lambda>t db. db\<lparr>ad_lifecycles := t\<rparr>)"

abbreviation on_effects :: "(effect list, 'a) tx \<Rightarrow> (authority_db, 'a) tx" where
  "on_effects \<equiv> tx_on ad_effects (\<lambda>t db. db\<lparr>ad_effects := t\<rparr>)"

abbreviation on_watermarks :: "(watermark list, 'a) tx \<Rightarrow> (authority_db, 'a) tx" where
  "on_watermarks \<equiv> tx_on ad_watermarks (\<lambda>t db. db\<lparr>ad_watermarks := t\<rparr>)"

abbreviation on_claims :: "(receipt_claim list, 'a) tx \<Rightarrow> (authority_db, 'a) tx" where
  "on_claims \<equiv> tx_on ad_claims (\<lambda>t db. db\<lparr>ad_claims := t\<rparr>)"

abbreviation on_outbox :: "(outbox_row list, 'a) tx \<Rightarrow> (authority_db, 'a) tx" where
  "on_outbox \<equiv> tx_on ad_outbox (\<lambda>t db. db\<lparr>ad_outbox := t\<rparr>)"

subsection \<open>Rows and values\<close>

fun decode_row :: "'a res \<Rightarrow> 'a res" where
  "decode_row (Inl (Raised c code)) =
     Inl (if c = DomainValidationError then err RepositoryDataError else Raised c code)"
| "decode_row (Inl PyValueError) = Inl (err RepositoryDataError)"
| "decode_row (Inl PyTypeError) = Inl (err RepositoryDataError)"
| "decode_row x = x"

definition binding_from_row :: "binding \<Rightarrow> binding res" where
  "binding_from_row r =
     decode_row (make_binding (bd_with_times (utc (bd_created_at r)) (utc (bd_updated_at r)) r))"

definition lifecycle_from_row :: "lifecycle \<Rightarrow> lifecycle res" where
  "lifecycle_from_row r =
     decode_row (make_lifecycle (lo_with_times (map_option utc (lo_next_attempt_at r))
       (map_option utc (lo_last_attempt_at r)) (map_option utc (lo_reconciled_at r))
       (utc (lo_created_at r)) (utc (lo_updated_at r)) r))"

definition effect_from_row :: "effect \<Rightarrow> effect res" where
  "effect_from_row r =
     decode_row (make_effect (ef_with_times (utc (ef_created_at r)) (utc (ef_updated_at r)) r))"

definition watermark_from_row :: "watermark \<Rightarrow> watermark res" where
  "watermark_from_row r = decode_row (make_watermark (wm_with_time (utc (wm_updated_at r)) r))"

text \<open>The anchor's audience, tenant, envelope and epoch are the columns of the claim itself.\<close>

definition claim_values :: "receipt_claim \<Rightarrow> receipt_claim" where
  "claim_values c =
     c\<lparr>rc_authority_anchor := (rc_authority_anchor c)
         \<lparr>xa_audience := rc_audience c, xa_tenant_id := rc_tenant_id c,
          xa_envelope_id := rc_envelope_id c, xa_config_epoch := rc_config_epoch c\<rparr>\<rparr>"

definition claim_from_row :: "receipt_claim \<Rightarrow> receipt_claim res" where
  "claim_from_row r =
     (let stored = rc_authority_anchor r
      in case decode_row (make_authority_anchor (xa_with_time (utc (xa_confirmed_at stored)) stored)) of
           Inl e \<Rightarrow> Inl e
         | Inr anchor \<Rightarrow>
             decode_row (make_claim (rc_with_time (utc (rc_claimed_at r))
               (r\<lparr>rc_authority_anchor := anchor\<rparr>))))"

definition same_lifecycle_request :: "lifecycle \<Rightarrow> lifecycle \<Rightarrow> bool" where
  "same_lifecycle_request x y =
     ((lo_owner_id x, lo_operation_id x, lo_binding_id x, lo_kind x, lo_expected_binding_version x,
       lo_expected_lease_sequence x, lo_request_fingerprint x, lo_remote_request_id x) =
      (lo_owner_id y, lo_operation_id y, lo_binding_id y, lo_kind y, lo_expected_binding_version y,
       lo_expected_lease_sequence y, lo_request_fingerprint y, lo_remote_request_id y))"

text \<open>The first thirteen columns of an effect: what the intent is.\<close>

definition effect_intent :: "effect \<Rightarrow> (string list \<times> tool_scope \<times> int)" where
  "effect_intent x =
     ([ef_operation_id x, ef_owner_id x, ef_agent_id x, ef_binding_id x, ef_tool_id x,
       ef_lets_capability x, ef_lets_transition x, ef_executor_audience x, ef_nonce x,
       ef_effect_digest x, ef_audit_correlation_id x], ef_astral_scope x, ef_expected_sequence x)"

definition same_effect_intent :: "effect \<Rightarrow> effect \<Rightarrow> bool" where
  "same_effect_intent x y = (effect_intent x = effect_intent y \<and> ef_created_at x = ef_created_at y)"

definition require_next_version :: "int \<Rightarrow> int \<Rightarrow> bool" where
  "require_next_version replacement expected = (\<not> (expected < 0 \<or> replacement \<noteq> expected + 1))"

definition require_query_identifier :: "string \<Rightarrow> string res" where
  "require_query_identifier s =
     (case require_identifier s of Inl _ \<Rightarrow> Inl (err RepositoryValidationError) | Inr t \<Rightarrow> Inr t)"

abbreviation require :: "bool \<Rightarrow> plane_class \<Rightarrow> ('s, unit) tx" where
  "require b c \<equiv> tx_require b (err c)"

subsection \<open>Bindings\<close>

abbreviation bound_to :: "string \<Rightarrow> string \<Rightarrow> binding \<Rightarrow> bool" where
  "bound_to owner binding r \<equiv> bd_owner_id r = owner \<and> bd_binding_id r = binding"

definition binding_exists :: "string \<Rightarrow> string \<Rightarrow> authority_db \<Rightarrow> bool" where
  "binding_exists owner binding db = (\<exists>r \<in> set (ad_bindings db). bound_to owner binding r)"

definition binding_conflict_row :: "binding \<Rightarrow> binding \<Rightarrow> bool" where
  "binding_conflict_row b r =
     (bd_owner_id r = bd_owner_id b \<and>
      (bd_binding_id r = bd_binding_id b \<or>
       bd_agent_id r = bd_agent_id b \<and> bd_population r = bd_population b \<and>
         bd_state r \<notin> {CLOSED, REVOKED, EXPIRED} \<or>
       bd_agent_id r = bd_agent_id b \<and> bd_runtime_id r = bd_runtime_id b \<and>
         bd_runtime_generation r = bd_runtime_generation b))"

definition create_binding :: "binding \<Rightarrow> (authority_db, binding) tx" where
  "create_binding b =
     tx_bind (on_bindings (tx_stmt (sql_insert_referencing binding_row_ok binding_conflict True b)))
       (\<lambda>row. case row of
          Some r \<Rightarrow>
            tx_bind (tx_lift (binding_from_row r)) (\<lambda>persisted.
            tx_bind (require (persisted = b) RepositoryDataError) (\<lambda>_.
            tx_return persisted))
        | None \<Rightarrow>
            tx_bind (tx_read (\<lambda>db. List.find (binding_conflict_row b) (ad_bindings db))) (\<lambda>found.
            case found of
              None \<Rightarrow> tx_raise (err AuthorityIdempotencyConflictError)
            | Some r \<Rightarrow>
                tx_bind (tx_lift (binding_from_row r)) (\<lambda>existing.
                if existing = b then tx_return b
                else tx_raise (err AuthorityIdempotencyConflictError))))"

definition get_binding :: "string \<Rightarrow> string \<Rightarrow> (authority_db, binding option) tx" where
  "get_binding owner_id binding_id =
     tx_bind (tx_read (\<lambda>db. List.find (bound_to owner_id binding_id) (ad_bindings db))) (\<lambda>row.
     case row of None \<Rightarrow> tx_return None
     | Some r \<Rightarrow> tx_bind (tx_lift (binding_from_row r)) (\<lambda>b. tx_return (Some b)))"

definition get_active_binding ::
  "string \<Rightarrow> string \<Rightarrow> string \<Rightarrow> int \<Rightarrow> (authority_db, binding option) tx" where
  "get_active_binding owner_id agent_id runtime_id runtime_generation =
     tx_bind (tx_lift (require_query_identifier owner_id)) (\<lambda>owner.
     tx_bind (tx_lift (require_query_identifier agent_id)) (\<lambda>agent.
     tx_bind (tx_lift (require_query_identifier runtime_id)) (\<lambda>runtime.
     tx_bind (require (0 < runtime_generation) RepositoryValidationError) (\<lambda>_.
     let scope = (\<lambda>r. runtime_generation_key r = (owner, agent, runtime, runtime_generation) \<and>
                      bd_state r = ACTIVE) in
     tx_bind (tx_read (\<lambda>db. List.find scope (ad_bindings db))) (\<lambda>row.
     case row of None \<Rightarrow> tx_return None
     | Some r \<Rightarrow>
         tx_bind (tx_lift (binding_from_row r)) (\<lambda>b.
         tx_bind (require (scope b) RepositoryDataError) (\<lambda>_. tx_return (Some b))))))))"

definition get_latest_binding ::
  "(string \<Rightarrow> string) \<Rightarrow> string \<Rightarrow> string \<Rightarrow> population \<Rightarrow> (authority_db, binding option) tx" where
  "get_latest_binding coll owner_id agent_id population =
     tx_bind (tx_lift (require_query_identifier owner_id)) (\<lambda>owner.
     tx_bind (tx_lift (require_query_identifier agent_id)) (\<lambda>agent.
     let scope = (\<lambda>r. owner_agent_key r = (owner, agent, population)) in
     tx_bind (tx_read (\<lambda>db. first_row (sql_page_desc scope
         (\<lambda>r. (bd_created_at r, coll (bd_binding_id r))) 1 (ad_bindings db)))) (\<lambda>row.
     case row of None \<Rightarrow> tx_return None
     | Some r \<Rightarrow>
         tx_bind (tx_lift (binding_from_row r)) (\<lambda>b.
         tx_bind (require (scope b) RepositoryDataError) (\<lambda>_. tx_return (Some b))))))"

text \<open>The columns both updates compare.\<close>

definition binding_scope :: "binding \<Rightarrow> string list \<times> int \<times> population \<times> int \<times> string list" where
  "binding_scope r =
     ([bd_owner_id r, bd_binding_id r, bd_agent_id r, bd_runtime_id r, bd_tenant_id r,
       bd_envelope_id r, bd_policy_digest r, bd_machine_digest r],
      bd_runtime_generation r, bd_population r, bd_config_epoch r, bd_capabilities r)"

definition transition_binding_fence :: "binding \<Rightarrow> binding_state \<Rightarrow> int \<Rightarrow> binding \<Rightarrow> bool" where
  "transition_binding_fence b state version r =
     (binding_scope r = binding_scope b \<and> remote_identities r = remote_identities b \<and>
      bd_state r = state \<and> bd_version r = version)"

definition transition_binding_row :: "binding \<Rightarrow> binding \<Rightarrow> binding" where
  "transition_binding_row b r =
     r\<lparr>bd_lease_sequence := bd_lease_sequence b, bd_lease_expires_at_ns := bd_lease_expires_at_ns b,
       bd_state := bd_state b, bd_updated_at := bd_updated_at b, bd_version := bd_version b\<rparr>"

definition update_binding ::
  "(binding \<Rightarrow> bool) \<Rightarrow> (binding \<Rightarrow> binding) \<Rightarrow> binding \<Rightarrow> (authority_db, binding) tx" where
  "update_binding matches change exact =
     tx_bind (on_bindings (tx_stmt (sql_update binding_row_ok binding_conflict matches change))) (\<lambda>rows.
     case first_row rows of
       None \<Rightarrow> tx_raise (err AuthorityCompareAndSetConflictError)
     | Some r \<Rightarrow>
         tx_bind (tx_lift (binding_from_row r)) (\<lambda>persisted.
         tx_bind (require (persisted = exact) RepositoryDataError) (\<lambda>_.
         tx_return persisted)))"

definition transition_binding :: "binding \<Rightarrow> binding_state \<Rightarrow> int \<Rightarrow> (authority_db, binding) tx" where
  "transition_binding b expected_state expected_version =
     tx_bind (require (require_next_version (bd_version b) expected_version) RepositoryValidationError)
       (\<lambda>_.
     tx_bind (require (\<not> binding_terminal expected_state) AuthorityCompareAndSetConflictError) (\<lambda>_.
     update_binding (transition_binding_fence b expected_state expected_version)
       (transition_binding_row b) b))"

definition activate_binding_fence :: "binding \<Rightarrow> string list \<Rightarrow> int \<Rightarrow> binding \<Rightarrow> bool" where
  "activate_binding_fence b pending version r =
     (binding_scope r = binding_scope b \<and> bd_created_at r = bd_created_at b \<and>
      remote_identities r = pending \<and> bd_lease_sequence r = 0 \<and> bd_lease_expires_at_ns r = 0 \<and>
      bd_state r = PROVISIONING \<and> bd_version r = version)"

definition activate_binding_row :: "binding \<Rightarrow> binding \<Rightarrow> binding" where
  "activate_binding_row b r =
     (transition_binding_row b r)\<lparr>bd_warden_id := bd_warden_id b, bd_lease_id := bd_lease_id b,
       bd_lineage_id := bd_lineage_id b, bd_subject_id := bd_subject_id b\<rparr>"

definition pending_identities :: "string \<Rightarrow> string list res" where
  "pending_identities binding_id =
     traverse (pending_authority_identity binding_id) [Warden, Lease, Lineage, Subject]"

definition activate_binding :: "binding \<Rightarrow> int \<Rightarrow> (authority_db, binding) tx" where
  "activate_binding b expected_version =
     tx_bind (require (require_next_version (bd_version b) expected_version) RepositoryValidationError)
       (\<lambda>_.
     tx_bind (require (bd_state b = ACTIVE) RepositoryValidationError) (\<lambda>_.
     tx_bind (tx_lift (pending_identities (bd_binding_id b))) (\<lambda>pending.
     update_binding (activate_binding_fence b pending expected_version) (activate_binding_row b) b)))"

definition abandon_provisioning_binding :: "binding \<Rightarrow> int \<Rightarrow> (authority_db, binding) tx" where
  "abandon_provisioning_binding b expected_version =
     tx_bind (tx_lift (pending_identities (bd_binding_id b))) (\<lambda>pending.
     tx_bind (require (bd_state b = CLOSED) RepositoryValidationError) (\<lambda>_.
     tx_bind (require (\<not> (remote_identities b \<noteq> pending \<or> bd_lease_sequence b \<noteq> 0 \<or>
         bd_lease_expires_at_ns b \<noteq> 0)) RepositoryValidationError) (\<lambda>_.
     transition_binding b PROVISIONING expected_version)))"

subsection \<open>Lifecycle operations\<close>

abbreviation lifecycle_of :: "string \<Rightarrow> string \<Rightarrow> lifecycle \<Rightarrow> bool" where
  "lifecycle_of owner operation r \<equiv> lo_owner_id r = owner \<and> lo_operation_id r = operation"

definition create_lifecycle_operation :: "lifecycle \<Rightarrow> (authority_db, lifecycle) tx" where
  "create_lifecycle_operation x =
     tx_bind (tx_read (binding_exists (lo_owner_id x) (lo_binding_id x))) (\<lambda>refs.
     tx_bind (on_lifecycles (tx_stmt (sql_insert_referencing lifecycle_row_ok lifecycle_conflict refs x)))
       (\<lambda>row. case row of
          Some r \<Rightarrow>
            tx_bind (tx_lift (lifecycle_from_row r)) (\<lambda>persisted.
            tx_bind (require (persisted = x) RepositoryDataError) (\<lambda>_.
            tx_return persisted))
        | None \<Rightarrow>
            tx_bind (tx_read (\<lambda>db. List.find (lifecycle_of (lo_owner_id x) (lo_operation_id x))
                (ad_lifecycles db))) (\<lambda>found.
            case found of
              None \<Rightarrow> tx_raise (err AuthorityIdempotencyConflictError)
            | Some r \<Rightarrow>
                tx_bind (tx_lift (lifecycle_from_row r)) (\<lambda>persisted.
                if same_lifecycle_request persisted x then tx_return persisted
                else tx_raise (err AuthorityIdempotencyConflictError)))))"

definition get_lifecycle_operation :: "string \<Rightarrow> string \<Rightarrow> (authority_db, lifecycle option) tx" where
  "get_lifecycle_operation owner_id operation_id =
     tx_bind (tx_read (\<lambda>db. List.find (lifecycle_of owner_id operation_id) (ad_lifecycles db))) (\<lambda>row.
     case row of None \<Rightarrow> tx_return None
     | Some r \<Rightarrow> tx_bind (tx_lift (lifecycle_from_row r)) (\<lambda>x. tx_return (Some x)))"

definition lifecycle_due :: "instant \<Rightarrow> lifecycle \<Rightarrow> bool" where
  "lifecycle_due due r =
     (lo_status r \<in> {PENDING, IN_FLIGHT, UNCERTAIN} \<and>
      (case lo_next_attempt_at r of None \<Rightarrow> False | Some t \<Rightarrow> t \<le> due))"

definition query_time :: "pytime \<Rightarrow> instant res" where
  "query_time t =
     (case require_utc t of Inl (Raised c code) \<Rightarrow> Inl (err RepositoryValidationError)
      | Inl e \<Rightarrow> Inl e | Inr i \<Rightarrow> Inr i)"

definition list_recoverable_lifecycle_operations ::
  "(string \<Rightarrow> string) \<Rightarrow> (string \<Rightarrow> bool) \<Rightarrow> string \<Rightarrow> pytime \<Rightarrow> int \<Rightarrow> (authority_db, lifecycle list) tx" where
  "list_recoverable_lifecycle_operations coll locked owner_id due_at limit =
     tx_bind (tx_lift (require_query_identifier owner_id)) (\<lambda>owner.
     tx_bind (tx_lift (query_time due_at)) (\<lambda>due.
     tx_bind (require (1 \<le> limit \<and> limit \<le> 200) RepositoryValidationError) (\<lambda>_.
     tx_bind (tx_read (\<lambda>db. sql_page
         (\<lambda>r. lo_owner_id r = owner \<and> lifecycle_due due r \<and> \<not> locked (lo_operation_id r))
         (\<lambda>r. (case_option 0 id (lo_next_attempt_at r), coll (lo_operation_id r)))
         (nat limit) (ad_lifecycles db))) (\<lambda>rows.
     tx_lift (traverse lifecycle_from_row rows)))))"

definition transition_lifecycle_fence :: "lifecycle \<Rightarrow> lifecycle_status \<Rightarrow> int \<Rightarrow> lifecycle \<Rightarrow> bool" where
  "transition_lifecycle_fence x status version r =
     (same_lifecycle_request r x \<and> lo_status r = status \<and> lo_version r = version)"

definition transition_lifecycle_row :: "lifecycle \<Rightarrow> lifecycle \<Rightarrow> lifecycle" where
  "transition_lifecycle_row x r =
     r\<lparr>lo_status := lo_status x, lo_result_digest := lo_result_digest x,
       lo_error_code := lo_error_code x, lo_attempt_count := lo_attempt_count x,
       lo_next_attempt_at := lo_next_attempt_at x, lo_last_attempt_at := lo_last_attempt_at x,
       lo_reconciled_at := lo_reconciled_at x,
       lo_reconciliation_digest := lo_reconciliation_digest x,
       lo_updated_at := lo_updated_at x, lo_version := lo_version x\<rparr>"

definition transition_lifecycle_operation ::
  "lifecycle \<Rightarrow> lifecycle_status \<Rightarrow> int \<Rightarrow> (authority_db, lifecycle) tx" where
  "transition_lifecycle_operation x expected_status expected_version =
     tx_bind (require (require_next_version (lo_version x) expected_version) RepositoryValidationError)
       (\<lambda>_.
     tx_bind (require (\<not> lifecycle_terminal expected_status) AuthorityCompareAndSetConflictError) (\<lambda>_.
     tx_bind (on_lifecycles (tx_stmt (sql_update lifecycle_row_ok lifecycle_conflict
         (transition_lifecycle_fence x expected_status expected_version)
         (transition_lifecycle_row x)))) (\<lambda>rows.
     case first_row rows of
       None \<Rightarrow> tx_raise (err AuthorityCompareAndSetConflictError)
     | Some r \<Rightarrow>
         tx_bind (tx_lift (lifecycle_from_row r)) (\<lambda>persisted.
         tx_bind (require (persisted = x) RepositoryDataError) (\<lambda>_.
         tx_return persisted)))))"

subsection \<open>Protected effects\<close>

fun effect_transitions :: "effect_status \<Rightarrow> effect_status list" where
  "effect_transitions CREATED = [ASTRAL_AUTHORIZED, DENIED, FAILED_CLOSED]"
| "effect_transitions ASTRAL_AUTHORIZED = [LETS_PENDING, DENIED, FAILED_CLOSED]"
| "effect_transitions LETS_PENDING = [RECEIPT_RECEIVED, DENIED, FAILED_CLOSED]"
| "effect_transitions RECEIPT_RECEIVED = [RECEIPT_CLAIMED, DENIED, FAILED_CLOSED]"
| "effect_transitions RECEIPT_CLAIMED = [EXECUTING, DENIED, FAILED_CLOSED]"
| "effect_transitions EXECUTING = [SUCCEEDED, EFFECT_FAILED, OUTCOME_UNCERTAIN]"
| "effect_transitions OUTCOME_UNCERTAIN = [SUCCEEDED, EFFECT_FAILED]"
| "effect_transitions _ = []"

abbreviation effect_of :: "string \<Rightarrow> string \<Rightarrow> effect \<Rightarrow> bool" where
  "effect_of owner operation r \<equiv> ef_owner_id r = owner \<and> ef_operation_id r = operation"

definition effect_conflict_row :: "effect \<Rightarrow> effect \<Rightarrow> bool" where
  "effect_conflict_row x r =
     (ef_owner_id r = ef_owner_id x \<and>
      (ef_operation_id r = ef_operation_id x \<or>
       ef_binding_id r = ef_binding_id x \<and> ef_executor_audience r = ef_executor_audience x \<and>
         ef_nonce r = ef_nonce x))"

definition create_protected_effect :: "effect \<Rightarrow> (authority_db, effect) tx" where
  "create_protected_effect x =
     tx_bind (tx_read (binding_exists (ef_owner_id x) (ef_binding_id x))) (\<lambda>refs.
     tx_bind (on_effects (tx_stmt (sql_insert_referencing effect_row_ok effect_conflict refs x)))
       (\<lambda>row. case row of
          Some r \<Rightarrow>
            tx_bind (tx_lift (effect_from_row r)) (\<lambda>persisted.
            tx_bind (require (persisted = x) RepositoryDataError) (\<lambda>_.
            tx_return persisted))
        | None \<Rightarrow>
            tx_bind (tx_read (\<lambda>db. List.find (effect_conflict_row x) (ad_effects db))) (\<lambda>found.
            case found of
              None \<Rightarrow> tx_raise (err AuthorityIdempotencyConflictError)
            | Some r \<Rightarrow>
                tx_bind (tx_lift (effect_from_row r)) (\<lambda>persisted.
                if same_effect_intent persisted x then tx_return persisted
                else tx_raise (err AuthorityIdempotencyConflictError)))))"

definition get_protected_effect :: "string \<Rightarrow> string \<Rightarrow> (authority_db, effect option) tx" where
  "get_protected_effect owner_id operation_id =
     tx_bind (tx_read (\<lambda>db. List.find (effect_of owner_id operation_id) (ad_effects db))) (\<lambda>row.
     case row of None \<Rightarrow> tx_return None
     | Some r \<Rightarrow> tx_bind (tx_lift (effect_from_row r)) (\<lambda>x. tx_return (Some x)))"

definition RECOVERABLE_EFFECT_STATUSES :: "effect_status set" where
  "RECOVERABLE_EFFECT_STATUSES =
     {CREATED, ASTRAL_AUTHORIZED, LETS_PENDING, RECEIPT_RECEIVED, RECEIPT_CLAIMED, EXECUTING,
      OUTCOME_UNCERTAIN}"

definition effect_stale :: "instant \<Rightarrow> effect \<Rightarrow> bool" where
  "effect_stale cutoff r =
     (ef_status r \<in> RECOVERABLE_EFFECT_STATUSES \<and> ef_updated_at r < cutoff)"

definition list_recoverable_protected_effects ::
  "(string \<Rightarrow> string) \<Rightarrow> (string \<Rightarrow> bool) \<Rightarrow> string \<Rightarrow> pytime \<Rightarrow> int \<Rightarrow> (authority_db, effect list) tx" where
  "list_recoverable_protected_effects coll locked owner_id updated_before limit =
     tx_bind (tx_lift (require_query_identifier owner_id)) (\<lambda>owner.
     tx_bind (tx_lift (query_time updated_before)) (\<lambda>cutoff.
     tx_bind (require (1 \<le> limit \<and> limit \<le> 200) RepositoryValidationError) (\<lambda>_.
     tx_bind (tx_read (\<lambda>db. sql_page
         (\<lambda>r. ef_owner_id r = owner \<and> effect_stale cutoff r \<and> \<not> locked (ef_operation_id r))
         (\<lambda>r. (ef_updated_at r, coll (ef_operation_id r))) (nat limit) (ad_effects db))) (\<lambda>rows.
     tx_bind (tx_lift (traverse effect_from_row rows)) (\<lambda>effects.
     tx_bind (require (int (length effects) \<le> limit) RepositoryDataError) (\<lambda>_.
     tx_bind (require (\<forall>x \<in> set effects. ef_owner_id x = owner \<and> effect_stale cutoff x)
         RepositoryDataError) (\<lambda>_.
     tx_bind (require (sorted (map (\<lambda>x. (ef_updated_at x, ef_operation_id x)) effects))
         RepositoryDataError) (\<lambda>_.
     tx_return effects))))))))"

text \<open>\<open>UNION ALL\<close> of the due work of both tables, then the earliest instant of each owner.\<close>

definition recoverable_work :: "instant \<Rightarrow> instant \<Rightarrow> authority_db \<Rightarrow> (string \<times> instant) list" where
  "recoverable_work due cutoff db =
     map (\<lambda>r. (lo_owner_id r, case_option 0 id (lo_next_attempt_at r)))
       (filter (lifecycle_due due) (ad_lifecycles db)) @
     map (\<lambda>r. (ef_owner_id r, ef_updated_at r)) (filter (effect_stale cutoff) (ad_effects db))"

definition group_min :: "(string \<times> instant) list \<Rightarrow> (string \<times> instant) list" where
  "group_min work =
     map (\<lambda>owner. (owner, Min (set (map snd (filter (\<lambda>(o', _). o' = owner) work)))))
       (remdups (map fst work))"

definition recovery_row :: "string \<times> instant \<Rightarrow> (string \<times> instant) res" where
  "recovery_row row =
     (case row of (owner, recovery_at) \<Rightarrow>
      (case decode_row (require_identifier owner) of Inl e \<Rightarrow> Inl e | Inr o' \<Rightarrow>
       (case decode_row (require_utc (utc recovery_at)) of Inl e \<Rightarrow> Inl e | Inr t \<Rightarrow> Inr (o', t))))"

definition list_recovery_owners ::
  "(string \<Rightarrow> string) \<Rightarrow> pytime \<Rightarrow> pytime \<Rightarrow> int \<Rightarrow> (authority_db, string list) tx" where
  "list_recovery_owners coll lifecycle_due_at effect_updated_before limit =
     tx_bind (tx_lift (query_time lifecycle_due_at)) (\<lambda>due.
     tx_bind (tx_lift (query_time effect_updated_before)) (\<lambda>cutoff.
     tx_bind (require (1 \<le> limit \<and> limit \<le> 1000) RepositoryValidationError) (\<lambda>_.
     tx_bind (tx_read (\<lambda>db. sql_page (\<lambda>_. True) (\<lambda>(owner, at). (at, coll owner)) (nat limit)
         (group_min (recoverable_work due cutoff db)))) (\<lambda>rows.
     tx_bind (require (int (length rows) \<le> limit) RepositoryDataError) (\<lambda>_.
     tx_bind (tx_lift (traverse recovery_row rows)) (\<lambda>pairs.
     tx_bind (require (distinct (map fst pairs) \<and> sorted (map (\<lambda>(owner, at). (at, owner)) pairs))
         RepositoryDataError) (\<lambda>_.
     tx_return (map fst pairs))))))))"

definition transition_effect_fence :: "effect \<Rightarrow> effect_status \<Rightarrow> int \<Rightarrow> effect \<Rightarrow> bool" where
  "transition_effect_fence x status version r =
     (effect_intent r = effect_intent x \<and> ef_status r = status \<and> ef_version r = version)"

definition transition_effect_row :: "effect \<Rightarrow> effect \<Rightarrow> effect" where
  "transition_effect_row x r =
     r\<lparr>ef_status := ef_status x, ef_receipt_id := ef_receipt_id x,
       ef_receipt_digest := ef_receipt_digest x,
       ef_effect_result_digest := ef_effect_result_digest x, ef_error_code := ef_error_code x,
       ef_updated_at := ef_updated_at x, ef_version := ef_version x\<rparr>"

definition transition_protected_effect ::
  "effect \<Rightarrow> effect_status \<Rightarrow> int \<Rightarrow> (authority_db, effect) tx" where
  "transition_protected_effect x expected_status expected_version =
     tx_bind (require (require_next_version (ef_version x) expected_version) RepositoryValidationError)
       (\<lambda>_.
     tx_bind (require (ef_status x \<in> set (effect_transitions expected_status))
         AuthorityCompareAndSetConflictError) (\<lambda>_.
     tx_bind (on_effects (tx_stmt (sql_update effect_row_ok effect_conflict
         (transition_effect_fence x expected_status expected_version)
         (transition_effect_row x)))) (\<lambda>rows.
     case first_row rows of
       None \<Rightarrow> tx_raise (err AuthorityCompareAndSetConflictError)
     | Some r \<Rightarrow>
         tx_bind (tx_lift (effect_from_row r)) (\<lambda>persisted.
         tx_bind (require (persisted = x) RepositoryDataError) (\<lambda>_.
         tx_return persisted)))))"

subsection \<open>Claiming a receipt\<close>

definition claim_relationships :: "receipt_claim \<Rightarrow> binding \<Rightarrow> effect \<Rightarrow> bool" where
  "claim_relationships c b x =
     ((bd_owner_id b, bd_binding_id b, bd_tenant_id b, bd_envelope_id b, bd_warden_id b, bd_lease_id b,
       bd_subject_id b, bd_lineage_id b, bd_policy_digest b, bd_machine_digest b, bd_config_epoch b) =
      (rc_owner_id c, rc_binding_id c, rc_tenant_id c, rc_envelope_id c, rc_warden_id c, rc_lease_id c,
       rc_subject_id c, rc_lineage_id c, rc_policy_digest c, rc_machine_digest c, rc_config_epoch c) \<and>
      bd_state b = ACTIVE \<and> ef_agent_id x = bd_agent_id b \<and>
      ef_lets_capability x \<in> set (bd_capabilities b) \<and>
      ef_expected_sequence x = bd_lease_sequence b \<and>
      rc_resulting_sequence c = ef_expected_sequence x + 1 \<and>
      rc_expires_at_ns c \<le> bd_lease_expires_at_ns b \<and>
      (ef_owner_id x, ef_operation_id x, ef_binding_id x, ef_executor_audience x, ef_lets_transition x,
       ef_nonce x) =
      (rc_owner_id c, rc_operation_id c, rc_binding_id c, rc_audience c, rc_transition c, rc_nonce c) \<and>
      optional_ok (\<lambda>d. (if take 7 d = ''sha256:'' then drop 7 d else d) = ef_effect_digest x)
        (rc_evidence_digest c))"

definition new_claim_transition :: "effect \<Rightarrow> effect \<Rightarrow> receipt_claim \<Rightarrow> bool" where
  "new_claim_transition current replacement c =
     (same_effect_intent current replacement \<and> ef_status current = RECEIPT_RECEIVED \<and>
      ef_status replacement = RECEIPT_CLAIMED \<and> ef_version replacement = ef_version current + 1 \<and>
      ef_receipt_id replacement = Some (rc_receipt_id c) \<and>
      ef_receipt_digest replacement = Some (rc_canonical_digest c))"

definition existing_claim_effect :: "effect \<Rightarrow> receipt_claim \<Rightarrow> bool" where
  "existing_claim_effect x c =
     (ef_status x \<in> {RECEIPT_CLAIMED, EXECUTING, SUCCEEDED, EFFECT_FAILED, OUTCOME_UNCERTAIN} \<and>
      ef_receipt_id x = Some (rc_receipt_id c) \<and>
      ef_receipt_digest x = Some (rc_canonical_digest c))"

definition watermark_row :: "watermark \<Rightarrow> watermark \<Rightarrow> watermark" where
  "watermark_row w s =
     s\<lparr>wm_last_sequence := wm_last_sequence w, wm_updated_at := wm_updated_at w,
       wm_expires_at_ns := wm_expires_at_ns w, wm_version := wm_version w\<rparr>"

definition advance_fence :: "watermark \<Rightarrow> watermark \<Rightarrow> bool" where
  "advance_fence w s =
     (wm_key s = wm_key w \<and> wm_last_sequence s < wm_last_sequence w \<and>
      wm_version s + 1 = wm_version w \<and> wm_updated_at s \<le> wm_updated_at w)"

definition advance_watermark_sql ::
  "watermark \<Rightarrow> watermark list \<Rightarrow> sql_error + watermark option \<times> watermark list" where
  "advance_watermark_sql w t =
     (if \<not> watermark_row_ok w then Inl RowRejected
      else if \<forall>s \<in> set t. wm_key s \<noteq> wm_key w then Inr (Some w, t @ [w])
      else if \<exists>s \<in> set t. advance_fence w s \<and> \<not> watermark_require_advance s (watermark_row w s)
      then Inl RowRejected
      else case sql_update watermark_row_ok watermark_conflict (advance_fence w) (watermark_row w) t of
        Inl x \<Rightarrow> Inl x
      | Inr (rows, t') \<Rightarrow> Inr (first_row rows, t'))"

definition advance_watermark :: "watermark \<Rightarrow> receipt_claim \<Rightarrow> (authority_db, unit) tx" where
  "advance_watermark w c =
     tx_bind (require (\<not> (wm_key w \<noteq> sequence_watermark_key c \<or>
         wm_last_sequence w \<noteq> rc_resulting_sequence c \<or> wm_expires_at_ns w \<noteq> rc_expires_at_ns c))
         RepositoryValidationError) (\<lambda>_.
     tx_bind (on_watermarks (tx_stmt (advance_watermark_sql w))) (\<lambda>row.
     case row of
       None \<Rightarrow> tx_raise (err ReceiptWatermarkConflictError)
     | Some r \<Rightarrow>
         tx_bind (tx_lift (watermark_from_row r)) (\<lambda>persisted.
         require (persisted = w) RepositoryDataError)))"

definition claim_conflict_row :: "receipt_claim \<Rightarrow> receipt_claim \<Rightarrow> bool" where
  "claim_conflict_row c r =
     (rc_owner_id r = rc_owner_id c \<and>
      (rc_receipt_id r = rc_receipt_id c \<or> rc_operation_id r = rc_operation_id c \<or>
       rc_canonical_digest r = rc_canonical_digest c \<or>
       nonce_uniqueness_key r = nonce_uniqueness_key c \<or>
       sequence_watermark_key r = sequence_watermark_key c \<and>
         rc_resulting_sequence r = rc_resulting_sequence c))"

definition insert_claim :: "receipt_claim \<Rightarrow> (authority_db, receipt_claim option) tx" where
  "insert_claim c =
     tx_bind (tx_read (\<lambda>db. binding_exists (rc_owner_id c) (rc_binding_id c) db \<and>
         (\<exists>r \<in> set (ad_effects db). effect_of (rc_owner_id c) (rc_operation_id c) r))) (\<lambda>refs.
     on_claims (tx_stmt (sql_insert_referencing claim_row_ok claim_conflict refs (claim_values c))))"

definition replay_claim :: "receipt_claim \<Rightarrow> effect \<Rightarrow> (authority_db, receipt_claim) tx" where
  "replay_claim c current =
     tx_bind (tx_read (\<lambda>db. List.find (claim_conflict_row c) (ad_claims db))) (\<lambda>found.
     case found of
       None \<Rightarrow> tx_raise (err ReceiptClaimConflictError)
     | Some r \<Rightarrow>
         tx_bind (tx_lift (claim_from_row r)) (\<lambda>existing.
         if existing = c then
           tx_bind (require (existing_claim_effect current c) ReceiptClaimConflictError) (\<lambda>_.
           tx_return existing)
         else tx_raise (err ReceiptClaimConflictError)))"

definition new_claim ::
  "instant \<Rightarrow> receipt_claim \<Rightarrow> watermark \<Rightarrow> effect \<Rightarrow> outbox_entry \<Rightarrow> effect \<Rightarrow> receipt_claim
     \<Rightarrow> (authority_db, receipt_claim) tx" where
  "new_claim clock c w claimed_effect entry current row =
     tx_bind (tx_lift (claim_from_row row)) (\<lambda>persisted.
     tx_bind (require (persisted = c) RepositoryDataError) (\<lambda>_.
     tx_bind (require (new_claim_transition current claimed_effect c) ReceiptClaimConflictError) (\<lambda>_.
     tx_bind (advance_watermark w c) (\<lambda>_.
     tx_bind (transition_protected_effect claimed_effect (ef_status current) (ef_version current)) (\<lambda>_.
     tx_bind (on_outbox (enqueue clock entry)) (\<lambda>_.
     tx_return persisted))))))"

definition claim_receipt ::
  "instant \<Rightarrow> receipt_claim \<Rightarrow> watermark \<Rightarrow> effect \<Rightarrow> outbox_entry \<Rightarrow> (authority_db, receipt_claim) tx" where
  "claim_receipt clock c w claimed_effect entry =
     tx_savepoint (
       tx_bind (tx_read (\<lambda>db. List.find (bound_to (rc_owner_id c) (rc_binding_id c)) (ad_bindings db)))
         (\<lambda>binding_row.
       tx_bind (tx_read (\<lambda>db. List.find (effect_of (rc_owner_id c) (rc_operation_id c)) (ad_effects db)))
         (\<lambda>effect_row.
       case binding_row of None \<Rightarrow> tx_raise (err ReceiptClaimConflictError) | Some br \<Rightarrow>
       (case effect_row of None \<Rightarrow> tx_raise (err ReceiptClaimConflictError) | Some er \<Rightarrow>
         tx_bind (tx_lift (binding_from_row br)) (\<lambda>binding.
         tx_bind (tx_lift (effect_from_row er)) (\<lambda>current.
         tx_bind (require (claim_relationships c binding current) ReceiptClaimConflictError) (\<lambda>_.
         tx_bind (insert_claim c) (\<lambda>row.
         case row of
           None \<Rightarrow> replay_claim c current
         | Some r \<Rightarrow> new_claim clock c w claimed_effect entry current r))))))))"

end
