(* ===== verification/AuthorityFences.thy ===== *)
theory AuthorityFences
  imports AuthorityStore
begin

text \<open>
  What the compare-and-set fences of the authority repository give over any sequence of its calls:
  versions only grow, terminal rows are final, an issued binding keeps its identity, and an effect
  enters its execution at most once.
\<close>

subsection \<open>The tables as fenced tables\<close>

abbreviation binding_final :: "binding \<Rightarrow> bool" where
  "binding_final r \<equiv> binding_terminal (bd_state r)"

abbreviation lifecycle_final :: "lifecycle \<Rightarrow> bool" where
  "lifecycle_final r \<equiv> lifecycle_terminal (lo_status r)"

abbreviation effect_final :: "effect \<Rightarrow> bool" where
  "effect_final r \<equiv> effect_terminal (ef_status r)"

text \<open>How far an effect has come; every allowed transition moves it forward.\<close>

fun effect_rank :: "effect_status \<Rightarrow> int" where
  "effect_rank CREATED = 0"
| "effect_rank ASTRAL_AUTHORIZED = 1"
| "effect_rank LETS_PENDING = 2"
| "effect_rank RECEIPT_RECEIVED = 3"
| "effect_rank RECEIPT_CLAIMED = 4"
| "effect_rank EXECUTING = 5"
| "effect_rank OUTCOME_UNCERTAIN = 6"
| "effect_rank _ = 7"

abbreviation effect_progress :: "effect \<Rightarrow> int" where
  "effect_progress r \<equiv> effect_rank (ef_status r)"

lemma effect_transitions_forward:
  "s' \<in> set (effect_transitions s) \<Longrightarrow> effect_rank s < effect_rank s' \<and> \<not> effect_terminal s"
  by (cases s) (auto simp: effect_terminal_def)

interpretation abt: fenced_table binding_row_ok binding_conflict bd_binding_id bd_version binding_final
  by unfold_locales (auto simp: binding_conflict_def)

interpretation alt: fenced_table lifecycle_row_ok lifecycle_conflict lo_operation_id lo_version
    lifecycle_final
  by unfold_locales (auto simp: lifecycle_conflict_def)

lemma effect_conflict_sym: "effect_conflict r s \<Longrightarrow> effect_conflict s r"
  unfolding effect_conflict_def by metis

interpretation aet: fenced_table effect_row_ok effect_conflict ef_operation_id ef_version effect_final
  by unfold_locales (erule effect_conflict_sym, simp add: effect_conflict_def)

interpretation aer: fenced_table effect_row_ok effect_conflict effect_intent effect_progress effect_final
  by unfold_locales (simp add: effect_conflict_def effect_intent_def)

definition authority_evolves :: "authority_db \<Rightarrow> authority_db \<Rightarrow> bool" where
  "authority_evolves db db' \<longleftrightarrow>
     abt.evo (ad_bindings db) (ad_bindings db') \<and> alt.evo (ad_lifecycles db) (ad_lifecycles db') \<and>
     aet.evo (ad_effects db) (ad_effects db') \<and> aer.evo (ad_effects db) (ad_effects db')"

interpretation aut: step_order authority_evolves
proof
  fix s t u
  show "authority_evolves s s"
    by (simp add: authority_evolves_def abt.ev.order_refl alt.ev.order_refl aet.ev.order_refl
        aer.ev.order_refl)
  show "authority_evolves s t \<Longrightarrow> authority_evolves t u \<Longrightarrow> authority_evolves s u"
    unfolding authority_evolves_def
    by (blast intro: abt.ev.order_trans alt.ev.order_trans aet.ev.order_trans aer.ev.order_trans)
qed

lemma evolves_on_bindings:
  "(\<And>t x t'. f t = Inr (x, t') \<Longrightarrow> abt.evo t t') \<Longrightarrow> tx_rel authority_evolves (on_bindings (tx_stmt f))"
  by (rule tx_rel_on [where Q = abt.evo, OF abt.ev.rel_stmt])
    (auto simp: authority_evolves_def alt.ev.order_refl aet.ev.order_refl aer.ev.order_refl)

lemma evolves_on_lifecycles:
  "(\<And>t x t'. f t = Inr (x, t') \<Longrightarrow> alt.evo t t') \<Longrightarrow> tx_rel authority_evolves (on_lifecycles (tx_stmt f))"
  by (rule tx_rel_on [where Q = alt.evo, OF alt.ev.rel_stmt])
    (auto simp: authority_evolves_def abt.ev.order_refl aet.ev.order_refl aer.ev.order_refl)

lemma evolves_on_effects:
  assumes "\<And>t x t'. f t = Inr (x, t') \<Longrightarrow> aet.evo t t'" and "\<And>t x t'. f t = Inr (x, t') \<Longrightarrow> aer.evo t t'"
  shows "tx_rel authority_evolves (on_effects (tx_stmt f))"
proof (rule tx_rel_on [where Q = "\<lambda>t t'. aet.evo t t' \<and> aer.evo t t'"])
  show "tx_rel (\<lambda>t t'. aet.evo t t' \<and> aer.evo t t') (tx_stmt f)"
    using aet.ev.rel_stmt [of f, OF assms(1)] aer.ev.rel_stmt [of f, OF assms(2)]
    by (simp add: tx_rel_def)
qed (auto simp: authority_evolves_def abt.ev.order_refl alt.ev.order_refl)

lemma evolves_elsewhere:
  "tx_rel authority_evolves (on_watermarks m1)" "tx_rel authority_evolves (on_claims m2)"
  "tx_rel authority_evolves (on_outbox m3)"
  by (rule tx_rel_on [where Q = "\<lambda>_ _. True"];
      simp add: tx_rel_def authority_evolves_def abt.ev.order_refl alt.ev.order_refl aet.ev.order_refl
        aer.ev.order_refl)+

lemmas aut_intros = aut.rel_bind_require aut.rel_intros aut.rel_savepoint evolves_elsewhere

subsection \<open>Every call evolves the tables\<close>

lemma binding_row_identity [simp]:
  "bd_binding_id (transition_binding_row b r) = bd_binding_id r"
  "bd_version (transition_binding_row b r) = bd_version b"
  "bd_binding_id (activate_binding_row b r) = bd_binding_id r"
  "bd_version (activate_binding_row b r) = bd_version b"
  "lo_operation_id (transition_lifecycle_row x l) = lo_operation_id l"
  "lo_version (transition_lifecycle_row x l) = lo_version x"
  "ef_operation_id (transition_effect_row y e) = ef_operation_id e"
  "ef_version (transition_effect_row y e) = ef_version y"
  "ef_status (transition_effect_row y e) = ef_status y"
  "effect_intent (transition_effect_row y e) = effect_intent e"
  by (simp_all add: transition_binding_row_def activate_binding_row_def transition_lifecycle_row_def
      transition_effect_row_def effect_intent_def)

lemma update_binding_rel:
  assumes "\<And>r. matches r \<Longrightarrow> bd_binding_id (change r) = bd_binding_id r \<and>
      bd_version r < bd_version (change r) \<and> \<not> binding_final r"
  shows "tx_rel authority_evolves (update_binding matches change b)"
  unfolding update_binding_def
  by (intro aut_intros evolves_on_bindings) (erule abt.evolves_update, rule assms)

lemma create_binding_rel: "tx_rel authority_evolves (create_binding b)"
  unfolding create_binding_def
  by (intro aut_intros evolves_on_bindings) (erule abt.evolves_insert_referencing)

lemma transition_binding_rel: "tx_rel authority_evolves (transition_binding b st v)"
  unfolding transition_binding_def
  by (intro aut_intros update_binding_rel)
    (auto simp: transition_binding_fence_def require_next_version_def)

lemma activate_binding_rel: "tx_rel authority_evolves (activate_binding b v)"
  unfolding activate_binding_def
  by (intro aut_intros update_binding_rel)
    (auto simp: activate_binding_fence_def require_next_version_def binding_terminal_def)

lemma abandon_binding_rel: "tx_rel authority_evolves (abandon_provisioning_binding b v)"
  unfolding abandon_provisioning_binding_def by (intro aut_intros transition_binding_rel)

lemma create_lifecycle_rel: "tx_rel authority_evolves (create_lifecycle_operation x)"
  unfolding create_lifecycle_operation_def
  by (intro aut_intros evolves_on_lifecycles) (erule alt.evolves_insert_referencing)

lemma transition_lifecycle_rel: "tx_rel authority_evolves (transition_lifecycle_operation x st v)"
  unfolding transition_lifecycle_operation_def
  by (intro aut_intros evolves_on_lifecycles)
    (erule alt.evolves_update, auto simp: transition_lifecycle_fence_def require_next_version_def)

lemma create_effect_rel: "tx_rel authority_evolves (create_protected_effect x)"
  unfolding create_protected_effect_def
  by (intro aut_intros evolves_on_effects)
    (erule aet.evolves_insert_referencing, erule aer.evolves_insert_referencing)

lemma transition_effect_rel: "tx_rel authority_evolves (transition_protected_effect x st v)"
  unfolding transition_protected_effect_def
  by (intro aut_intros evolves_on_effects)
    (erule aet.evolves_update aer.evolves_update,
      auto simp: transition_effect_fence_def require_next_version_def dest: effect_transitions_forward)+

lemma claim_receipt_rel: "tx_rel authority_evolves (claim_receipt clock c w x e)"
  unfolding claim_receipt_def insert_claim_def replay_claim_def new_claim_def advance_watermark_def
  by (intro aut_intros transition_effect_rel)

subsection \<open>Runs\<close>

inductive authority_step :: "authority_db \<Rightarrow> authority_db \<Rightarrow> bool" where
  "binding_ok b \<Longrightarrow> create_binding b db = (r, db') \<Longrightarrow> authority_step db db'"
| "binding_ok b \<Longrightarrow> transition_binding b st v db = (r, db') \<Longrightarrow> authority_step db db'"
| "binding_ok b \<Longrightarrow> activate_binding b v db = (r, db') \<Longrightarrow> authority_step db db'"
| "binding_ok b \<Longrightarrow> abandon_provisioning_binding b v db = (r, db') \<Longrightarrow> authority_step db db'"
| "lifecycle_ok x \<Longrightarrow> create_lifecycle_operation x db = (rl, db') \<Longrightarrow> authority_step db db'"
| "lifecycle_ok x \<Longrightarrow> transition_lifecycle_operation x sl v db = (rl, db') \<Longrightarrow> authority_step db db'"
| "effect_ok f \<Longrightarrow> create_protected_effect f db = (re, db') \<Longrightarrow> authority_step db db'"
| "effect_ok f \<Longrightarrow> transition_protected_effect f se v db = (re, db') \<Longrightarrow> authority_step db db'"
| "claim_ok c \<Longrightarrow> watermark_ok w \<Longrightarrow> effect_ok f \<Longrightarrow>
     claim_receipt clock c w f entry db = (rc, db') \<Longrightarrow> authority_step db db'"
| "outbox_step (ad_outbox db) t \<Longrightarrow> authority_step db (db\<lparr>ad_outbox := t\<rparr>)"

lemmas authority_rels = tx_relD [OF create_binding_rel] tx_relD [OF transition_binding_rel]
  tx_relD [OF activate_binding_rel] tx_relD [OF abandon_binding_rel] tx_relD [OF create_lifecycle_rel]
  tx_relD [OF transition_lifecycle_rel] tx_relD [OF create_effect_rel]
  tx_relD [OF transition_effect_rel] tx_relD [OF claim_receipt_rel]

lemma authority_step_evolves: "authority_step db db' \<Longrightarrow> authority_evolves db db'"
  by (induction rule: authority_step.induct)
    (auto dest: authority_rels simp: authority_evolves_def abt.ev.order_refl alt.ev.order_refl
      aet.ev.order_refl aer.ev.order_refl)

lemma authority_run_evolves: "authority_step\<^sup>*\<^sup>* db db' \<Longrightarrow> authority_evolves db db'"
  by (rule aut.rel_run [OF authority_step_evolves])

definition authority_tables_ok :: "authority_db \<Rightarrow> bool" where
  "authority_tables_ok db =
     (table_ok binding_row_ok binding_conflict (ad_bindings db) \<and>
      table_ok lifecycle_row_ok lifecycle_conflict (ad_lifecycles db) \<and>
      table_ok effect_row_ok effect_conflict (ad_effects db))"

definition claimed_effect :: effect where
  "claimed_effect = sample_effect\<lparr>ef_status := RECEIPT_CLAIMED, ef_updated_at := 6, ef_version := 4\<rparr>"

definition executing_effect :: effect where
  "executing_effect = sample_effect\<lparr>ef_status := EXECUTING, ef_updated_at := 7, ef_version := 5\<rparr>"

definition authority_sample :: "effect \<Rightarrow> authority_db" where
  "authority_sample x =
     \<lparr>ad_bindings = [sample_binding], ad_lifecycles = [], ad_effects = [x], ad_watermarks = [],
      ad_claims = [], ad_outbox = []\<rparr>"

lemma authority_sample_ok: "authority_tables_ok (authority_sample claimed_effect)"
  by code_simp

lemma executing_effect_ok: "effect_ok executing_effect"
  by code_simp

lemma sample_execution:
  "transition_protected_effect executing_effect RECEIPT_CLAIMED 4 (authority_sample claimed_effect) =
     (Inr executing_effect, authority_sample executing_effect)"
  by code_simp

text \<open>
  C21. Whatever calls run in whatever order, failing ones included, the constraints of the tables
  keep holding and every binding, lifecycle operation and effect is still there under its id,
  either untouched or at a greater version; one that had reached a terminal state is untouched.
\<close>

theorem authority_rows_advance:
  assumes "authority_step\<^sup>*\<^sup>* db db'" and "authority_tables_ok db"
  shows "authority_tables_ok db' \<and>
    advances bd_binding_id bd_version binding_final (ad_bindings db) (ad_bindings db') \<and>
    advances lo_operation_id lo_version lifecycle_final (ad_lifecycles db) (ad_lifecycles db') \<and>
    advances ef_operation_id ef_version effect_final (ad_effects db) (ad_effects db')"
  using authority_run_evolves [OF assms(1)] assms(2)
  by (simp add: authority_evolves_def authority_tables_ok_def evolves_def)

theorem authority_rows_advance_witness:
  "authority_tables_ok (authority_sample executing_effect) \<and>
   advances ef_operation_id ef_version effect_final [claimed_effect] [executing_effect]"
  using authority_rows_advance
    [OF r_into_rtranclp [of authority_step, OF authority_step.intros(8) [OF executing_effect_ok sample_execution]]
        authority_sample_ok]
  by (simp add: authority_sample_def)

lemma authority_run_effects:
  assumes "authority_step\<^sup>*\<^sup>* db db'" and "table_ok effect_row_ok effect_conflict (ad_effects db)"
  shows "table_ok effect_row_ok effect_conflict (ad_effects db')"
    and "advances effect_intent effect_progress effect_final (ad_effects db) (ad_effects db')"
  using authority_run_evolves [OF assms(1)] assms(2)
  by (simp_all add: authority_evolves_def evolves_def)

subsection \<open>An effect executes at most once\<close>

text \<open>A call that moves the operation into \<open>EXECUTING\<close> and returns.\<close>

definition enters_execution :: "string \<Rightarrow> authority_db \<Rightarrow> authority_db \<Rightarrow> bool" where
  "enters_execution op db db' \<longleftrightarrow>
     (\<exists>x st v r. effect_ok x \<and> transition_protected_effect x st v db = (Inr r, db') \<and>
        ef_operation_id x = op \<and> ef_status x = EXECUTING)"

lemma transition_effect_moves:
  assumes "transition_protected_effect x st v db = (Inr y, db')"
  obtains r where "r \<in> set (ad_effects db)" and "transition_effect_fence x st v r"
    and "y = x" and "ef_status x \<in> set (effect_transitions st)"
    and "transition_effect_row x r \<in> set (ad_effects db')"
proof -
  from assms obtain q rows t where up: "sql_update effect_row_ok effect_conflict
      (transition_effect_fence x st v) (transition_effect_row x) (ad_effects db) = Inr (q # rows, t)"
    and db': "db' = db\<lparr>ad_effects := t\<rparr>" and y: "y = x"
    and move: "ef_status x \<in> set (effect_transitions st)"
    unfolding transition_protected_effect_def by (auto simp: tx_success first_row_iff)
  from sql_update_returned [OF up] obtain r where "r \<in> set (ad_effects db)"
      "transition_effect_fence x st v r" "q = transition_effect_row x r" "q \<in> set t"
    by blast
  with db' y move show ?thesis by (intro that [of r]) auto
qed

lemma effect_fence_fields:
  assumes "transition_effect_fence x st v r"
  shows "ef_operation_id r = ef_operation_id x" and "ef_status r = st"
  using assms by (simp_all add: transition_effect_fence_def effect_intent_def)

text \<open>
  C3. Once a call has moved an operation into \<open>EXECUTING\<close>, no later sequence of repository calls,
  whatever versions and statuses they name, lets another call move it there again: the effect is
  handed to its executor at most once.
\<close>

theorem effect_executes_once:
  assumes ok: "authority_tables_ok db" and first: "enters_execution op db db1"
    and run: "authority_step\<^sup>*\<^sup>* db1 db2"
  shows "\<not> enters_execution op db2 db3"
proof
  assume "enters_execution op db2 db3"
  then obtain x2 st2 v2 y2 where x2: "transition_protected_effect x2 st2 v2 db2 = (Inr y2, db3)"
      "ef_operation_id x2 = op" "ef_status x2 = EXECUTING"
    unfolding enters_execution_def by blast
  obtain r2 where r2: "r2 \<in> set (ad_effects db2)" "transition_effect_fence x2 st2 v2 r2"
      "ef_status x2 \<in> set (effect_transitions st2)"
    by (rule transition_effect_moves [OF x2(1)])
  from first obtain x st v y where x: "transition_protected_effect x st v db = (Inr y, db1)"
      "effect_ok x" "ef_operation_id x = op" "ef_status x = EXECUTING"
    unfolding enters_execution_def by blast
  obtain r where r: "transition_effect_fence x st v r" "transition_effect_row x r \<in> set (ad_effects db1)"
    by (rule transition_effect_moves [OF x(1)])
  have "authority_step db db1" by (rule authority_step.intros(8) [OF x(2,1)])
  then have "table_ok effect_row_ok effect_conflict (ad_effects db1)"
    using ok by (auto simp: authority_tables_ok_def dest: authority_run_effects(1) [OF r_into_rtranclp])
  note later = authority_run_effects [OF run this]
  from later(2) r(2) obtain q where q: "q \<in> set (ad_effects db2)"
      "effect_intent q = effect_intent (transition_effect_row x r)"
      "effect_progress (transition_effect_row x r) \<le> effect_progress q"
    unfolding advances_def by (metis order_refl less_imp_le)
  have "ef_operation_id q = op" using q(2) effect_fence_fields(1) [OF r(1)] x(3) by (simp add: effect_intent_def)
  then have "q = r2"
    using aet.key_unique [OF later(1) q(1) r2(1)] effect_fence_fields(1) [OF r2(2)] x2(2) by simp
  moreover have "5 \<le> effect_progress q" using q(3) x(4) by simp
  moreover have "effect_progress r2 < 5"
    using effect_transitions_forward [OF r2(3)] effect_fence_fields(2) [OF r2(2)] x2(3) by simp
  ultimately show False by simp
qed

theorem effect_executes_once_witness:
  "enters_execution ''op-1'' (authority_sample claimed_effect) (authority_sample executing_effect) \<and>
   \<not> enters_execution ''op-1'' (authority_sample executing_effect) (authority_sample executing_effect)"
proof -
  have "enters_execution ''op-1'' (authority_sample claimed_effect) (authority_sample executing_effect)"
    unfolding enters_execution_def
    by (rule exI [of _ executing_effect], rule exI [of _ RECEIPT_CLAIMED], rule exI [of _ 4],
        rule exI [of _ executing_effect])
      (simp add: sample_execution executing_effect_ok, simp add: executing_effect_def sample_effect_def)
  with effect_executes_once [OF authority_sample_ok this rtranclp.rtrancl_refl] show ?thesis by blast
qed

subsection \<open>An issued binding keeps its identity\<close>

definition keeps_identity :: "binding \<Rightarrow> binding \<Rightarrow> bool" where
  "keeps_identity r r' \<longleftrightarrow>
     binding_scope r' = binding_scope r \<and> bd_created_at r' = bd_created_at r \<and>
     (bd_state r \<noteq> PROVISIONING \<longrightarrow>
        remote_identities r' = remote_identities r \<and> bd_state r' \<noteq> PROVISIONING)"

definition identity_kept :: "authority_db \<Rightarrow> authority_db \<Rightarrow> bool" where
  "identity_kept db db' \<longleftrightarrow>
     (table_ok binding_row_ok binding_conflict (ad_bindings db) \<longrightarrow>
        table_ok binding_row_ok binding_conflict (ad_bindings db') \<and>
        (\<forall>r \<in> set (ad_bindings db). \<exists>r' \<in> set (ad_bindings db'). keeps_identity r r'))"

lemma keeps_identity_refl [simp]: "keeps_identity r r"
  by (simp add: keeps_identity_def)

lemma keeps_identity_trans: "keeps_identity r s \<Longrightarrow> keeps_identity s u \<Longrightarrow> keeps_identity r u"
  by (auto simp: keeps_identity_def)

interpretation aid: step_order identity_kept
proof
  fix s t u
  show "identity_kept s s" by (auto simp: identity_kept_def intro: keeps_identity_refl)
  show "identity_kept s t \<Longrightarrow> identity_kept t u \<Longrightarrow> identity_kept s u"
    unfolding identity_kept_def by (meson keeps_identity_trans)
qed

lemma identity_update:
  assumes "sql_update binding_row_ok binding_conflict matches change t = Inr (rows, t')"
    and ok: "table_ok binding_row_ok binding_conflict t"
    and keep: "\<And>r. binding_row_ok r \<Longrightarrow> binding_row_ok (change r) \<Longrightarrow> matches r \<Longrightarrow> keeps_identity r (change r)"
    and r: "r \<in> set t"
  shows "\<exists>r' \<in> set t'. keeps_identity r r'"
proof (cases "matches r")
  case True
  have "binding_row_ok (change r)" "change r \<in> set t'"
    using assms(1) r True by (auto simp: sql_update_def Let_def split: if_splits)
  moreover have "binding_row_ok r" using ok r by (simp add: table_ok_def)
  ultimately show ?thesis using keep [of r] True by blast
next
  case False
  then have "r \<in> set t'" using assms(1) r by (force simp: sql_update_def Let_def split: if_splits)
  then show ?thesis using keeps_identity_refl by blast
qed

lemma identity_on_update:
  assumes "\<And>r. binding_row_ok r \<Longrightarrow> binding_row_ok (change r) \<Longrightarrow> matches r \<Longrightarrow> keeps_identity r (change r)"
  shows "tx_rel identity_kept (update_binding matches change b)"
  unfolding update_binding_def
proof (intro aid.rel_intros)
  show "tx_rel identity_kept (on_bindings (tx_stmt (sql_update binding_row_ok binding_conflict matches change)))"
    by (rule tx_relI)
      (auto simp: tx_on_def tx_stmt_def identity_kept_def split: sum.splits prod.splits
        intro: abt.table_ok_update identity_update [OF _ _ assms] keeps_identity_refl)
qed

lemma identity_elsewhere:
  "tx_rel identity_kept (on_lifecycles m0)" "tx_rel identity_kept (on_effects m4)"
  "tx_rel identity_kept (on_watermarks m1)" "tx_rel identity_kept (on_claims m2)"
  "tx_rel identity_kept (on_outbox m3)"
  by (rule tx_rel_on [where Q = "\<lambda>_ _. True"]; force simp: tx_rel_def identity_kept_def)+

lemmas aid_intros = aid.rel_bind_require aid.rel_intros aid.rel_savepoint identity_elsewhere

lemma pending_pattern_prefix: "pending_pattern f s \<Longrightarrow> pending_prefix s"
proof -
  assume "pending_pattern f s"
  then have "take (length (PENDING_ID_PREFIX @ pending_name f @ '':'')) s = PENDING_ID_PREFIX @ pending_name f @ '':''"
    by (simp add: pending_pattern_def Let_def)
  from arg_cong [OF this, of "take (length PENDING_ID_PREFIX)"] show ?thesis
    by (simp add: pending_prefix_def)
qed

text \<open>A row that is neither provisioning nor closed cannot be moved back to provisioning.\<close>

lemma provisioning_row:
  assumes "binding_row_ok r" and "bd_state r \<notin> {PROVISIONING, CLOSED}"
    and "binding_row_ok r'" and "remote_identities r' = remote_identities r"
  shows "bd_state r' \<noteq> PROVISIONING"
proof
  assume "bd_state r' = PROVISIONING"
  with assms(3) have "list_all2 pending_pattern [Warden, Lease, Lineage, Subject] (remote_identities r')"
    by (simp add: binding_row_ok_def)
  then have "pending_prefix (bd_warden_id r')" by (auto simp: remote_identities_def dest: pending_pattern_prefix)
  moreover have "\<forall>v \<in> set (remote_identities r). \<not> pending_prefix v"
    using assms(1,2) by (auto simp: binding_row_ok_def)
  ultimately show False by (simp add: assms(4) [symmetric]) (simp add: remote_identities_def)
qed

lemma transition_keeps_identity:
  assumes "binding_row_ok r" and "binding_row_ok (transition_binding_row b r)"
    and "transition_binding_fence b st v r" and "\<not> binding_terminal st"
  shows "keeps_identity r (transition_binding_row b r)"
proof -
  have same: "binding_scope (transition_binding_row b r) = binding_scope r"
    "bd_created_at (transition_binding_row b r) = bd_created_at r"
    "remote_identities (transition_binding_row b r) = remote_identities r"
    by (simp_all add: transition_binding_row_def binding_scope_def remote_identities_def)
  moreover have "bd_state r \<noteq> CLOSED" using assms(3,4)
    by (auto simp: transition_binding_fence_def binding_terminal_def)
  ultimately show ?thesis
    using provisioning_row [OF assms(1) _ assms(2) same(3)] by (auto simp: keeps_identity_def)
qed

lemma activate_keeps_identity:
  "activate_binding_fence b p v r \<Longrightarrow> keeps_identity r (activate_binding_row b r)"
  by (simp add: activate_binding_fence_def keeps_identity_def activate_binding_row_def
      transition_binding_row_def binding_scope_def)

lemma transition_binding_identity: "tx_rel identity_kept (transition_binding b st v)"
  unfolding transition_binding_def
  by (intro aid_intros identity_on_update) (rule transition_keeps_identity)

lemma create_binding_identity: "tx_rel identity_kept (create_binding b)"
  unfolding create_binding_def
proof (intro aid_intros)
  have "identity_kept db (db\<lparr>ad_bindings := t'\<rparr>)"
    if "sql_insert_referencing binding_row_ok binding_conflict True b (ad_bindings db) = Inr (x, t')" for db x t'
    using abt.table_ok_insert_referencing [OF _ that] that
    by (force simp: identity_kept_def sql_insert_referencing_def split: if_splits)
  then show "tx_rel identity_kept (on_bindings (tx_stmt
      (sql_insert_referencing binding_row_ok binding_conflict True b)))"
    by (intro tx_relI) (auto simp: tx_on_def tx_stmt_def aid.order_refl split: sum.splits prod.splits)
qed

lemma identity_calls:
  "tx_rel identity_kept (activate_binding b v)"
  "tx_rel identity_kept (abandon_provisioning_binding b v)"
  "tx_rel identity_kept (create_lifecycle_operation x)"
  "tx_rel identity_kept (transition_lifecycle_operation x sl v)"
  "tx_rel identity_kept (create_protected_effect f)"
  "tx_rel identity_kept (transition_protected_effect f se v)"
  unfolding activate_binding_def abandon_provisioning_binding_def create_lifecycle_operation_def
    transition_lifecycle_operation_def create_protected_effect_def transition_protected_effect_def
  by (intro aid_intros identity_on_update transition_binding_identity activate_keeps_identity; assumption?)+

lemma claim_receipt_identity: "tx_rel identity_kept (claim_receipt clock c w x e)"
  unfolding claim_receipt_def insert_claim_def replay_claim_def new_claim_def advance_watermark_def
  by (intro aid_intros identity_calls)

lemma authority_step_identity: "authority_step db db' \<Longrightarrow> identity_kept db db'"
  by (induction rule: authority_step.induct)
    (auto dest: tx_relD [OF create_binding_identity] tx_relD [OF transition_binding_identity]
      tx_relD [OF identity_calls(1)] tx_relD [OF identity_calls(2)] tx_relD [OF identity_calls(3)]
      tx_relD [OF identity_calls(4)] tx_relD [OF identity_calls(5)] tx_relD [OF identity_calls(6)]
      tx_relD [OF claim_receipt_identity] simp: identity_kept_def intro: keeps_identity_refl)

text \<open>
  C17. Once the remote authority has issued a binding, no sequence of repository calls changes the
  warden, lease, lineage or subject it names, nor its owner, agent, runtime, tenant, envelope,
  policy, machine, configuration epoch, capabilities or creation time, and it never returns to
  provisioning.
\<close>

theorem issued_identity_is_final:
  assumes "authority_step\<^sup>*\<^sup>* db db'" and "authority_tables_ok db"
    and "r \<in> set (ad_bindings db)" and "bd_state r \<noteq> PROVISIONING"
  shows "\<exists>r' \<in> set (ad_bindings db'). bd_state r' \<noteq> PROVISIONING \<and> bd_created_at r' = bd_created_at r \<and>
    binding_scope r' = binding_scope r \<and> remote_identities r' = remote_identities r"
  using aid.rel_run [OF authority_step_identity assms(1)] assms(2-4)
  by (auto simp: identity_kept_def authority_tables_ok_def keeps_identity_def)

theorem issued_identity_is_final_witness:
  "\<exists>r' \<in> set (ad_bindings (authority_sample executing_effect)). bd_state r' \<noteq> PROVISIONING \<and>
     bd_created_at r' = bd_created_at sample_binding \<and> binding_scope r' = binding_scope sample_binding \<and>
     remote_identities r' = remote_identities sample_binding"
  by (rule issued_identity_is_final
      [OF r_into_rtranclp [of authority_step, OF authority_step.intros(8) [OF executing_effect_ok sample_execution]]
          authority_sample_ok])
    (simp_all add: authority_sample_def sample_binding_def)

end
