(* ===== verification/AuthorityClaims.thy ===== *)
theory AuthorityClaims
  imports AuthorityFences
begin

text \<open>
  What claiming a receipt guarantees: the claim, the watermark, the effect and the outbox entry
  change together or not at all, a repeated claim returns the first one, and over any sequence of
  repository calls the watermark of a lease stays the greatest sequence number ever claimed.
\<close>

subsection \<open>Reading rows back\<close>

lemma decode_row_Inr [simp]: "decode_row x = Inr y \<longleftrightarrow> x = Inr y"
  by (cases x rule: decode_row.cases) auto

lemma require_utc_utc: "require_utc (utc t) = (if in_datetime_range t then Inr t else Inl PyOverflowError)"
  by (simp add: require_utc_def astimezone_utc_def)

lemma binding_from_row_Inr: "binding_from_row r = Inr b \<longleftrightarrow> b = r \<and> binding_ok r"
  by (auto simp: binding_from_row_def make_binding_def binding_ok_def require_utc_utc split: if_splits)

lemma effect_from_row_Inr: "effect_from_row r = Inr x \<longleftrightarrow> x = r \<and> effect_ok r"
  by (auto simp: effect_from_row_def make_effect_def effect_ok_def require_utc_utc split: if_splits)

lemma watermark_from_row_Inr: "watermark_from_row r = Inr w \<longleftrightarrow> w = r \<and> watermark_ok r"
  by (auto simp: watermark_from_row_def make_watermark_def watermark_ok_def require_utc_utc
      split: if_splits)

lemma claim_from_row_Inr: "claim_from_row r = Inr c \<longleftrightarrow> c = r \<and> claim_ok r"
proof -
  let ?x = "rc_authority_anchor r"
  have anchor: "make_authority_anchor (xa_with_time (utc (xa_confirmed_at ?x)) ?x) = Inr y \<longleftrightarrow>
      y = ?x \<and> authority_anchor_ok ?x" for y
    by (auto simp: make_authority_anchor_def authority_anchor_ok_def require_utc_utc split: if_splits)
  have claim: "make_claim (rc_with_time (utc (rc_claimed_at r)) r) = Inr c \<longleftrightarrow>
      c = r \<and> claim_fields_ok r \<and> in_datetime_range (rc_claimed_at r) \<and>
      lower_hex 64 (rc_canonical_digest r) \<and> claim_anchor_ok r"
    by (auto simp: make_claim_def require_utc_utc Let_def split: if_splits)
  show ?thesis
  proof (cases "decode_row (make_authority_anchor (xa_with_time (utc (xa_confirmed_at ?x)) ?x))")
    case (Inl e)
    then have "\<not> authority_anchor_ok ?x" using anchor [of ?x] by auto
    with Inl show ?thesis by (simp add: claim_from_row_def Let_def claim_ok_def)
  next
    case (Inr y)
    then have "y = ?x" "authority_anchor_ok ?x" using anchor [of y] by auto
    with Inr show ?thesis by (simp add: claim_from_row_def Let_def claim_ok_def claim)
  qed
qed

lemmas from_row_Inr = binding_from_row_Inr effect_from_row_Inr watermark_from_row_Inr claim_from_row_Inr

lemma claim_values_ok: "claim_ok c \<Longrightarrow> claim_values c = c"
  by (simp add: claim_ok_def claim_anchor_ok_def claim_values_def Let_def)

subsection \<open>The parts of a claim\<close>

interpretation awt: keyed_table watermark_row_ok watermark_conflict wm_key
  by unfold_locales (auto simp: watermark_conflict_def)

lemma claim_conflict_sym: "claim_conflict r s \<Longrightarrow> claim_conflict s r"
  unfolding claim_conflict_def by metis

interpretation act: keyed_table claim_row_ok claim_conflict rc_operation_id
  by unfold_locales (erule claim_conflict_sym, simp add: claim_conflict_def)

lemma watermark_row_same: "wm_key s = wm_key w \<Longrightarrow> watermark_row w s = w"
  by (simp add: watermark_row_def wm_key_def)

text \<open>The trigger of the table never refuses what the guarded update does.\<close>

lemma advance_fence_trigger: "advance_fence w s \<Longrightarrow> watermark_require_advance s (watermark_row w s)"
  by (auto simp: advance_fence_def watermark_require_advance_def watermark_row_same)

lemma advance_watermark_cases:
  assumes ok: "table_ok watermark_row_ok watermark_conflict t"
    and adv: "advance_watermark_sql w t = Inr (Some r, t')"
  shows "r = w \<and> table_ok watermark_row_ok watermark_conflict t' \<and>
    ((\<forall>s \<in> set t. wm_key s \<noteq> wm_key w) \<and> set t' = insert w (set t) \<or>
     (\<exists>s \<in> set t. advance_fence w s \<and> set t' = insert w (set t - {s})))"
proof (cases "\<forall>s \<in> set t. wm_key s \<noteq> wm_key w")
  case True
  with adv have "r = w" "t' = t @ [w]" "watermark_row_ok w"
    by (auto simp: advance_watermark_sql_def split: if_splits)
  with True ok show ?thesis
    by (auto simp: table_ok_def conflict_free_append watermark_conflict_def)
next
  case False
  with adv obtain rows where up: "sql_update watermark_row_ok watermark_conflict (advance_fence w)
      (watermark_row w) t = Inr (r # rows, t')"
    by (auto simp: advance_watermark_sql_def first_row_iff split: if_splits sum.splits)
  from sql_update_returned [OF up] obtain s where s: "s \<in> set t" "advance_fence w s"
      "r = watermark_row w s"
    by blast
  have "filter (advance_fence w) t = [s]"
    by (rule awt.filter_key [where r = s, OF ok s(1)]) (use s(2) in \<open>auto simp: advance_fence_def\<close>)
  with up have one: "sql_update watermark_row_ok watermark_conflict (advance_fence w)
      (watermark_row w) t = Inr ([r], t')"
    by (auto simp: sql_update_def Let_def split: if_splits)
  have r: "r = w" using s(2,3) by (simp add: advance_fence_def watermark_row_same)
  obtain q where q: "q \<in> set t" "advance_fence w q" "set t' = insert r (set t - {q})"
    by (rule awt.update_key [OF ok one, of "wm_key w"])
      (auto simp: advance_fence_def watermark_row_same)
  with r awt.table_ok_update [OF ok up] show ?thesis by blast
qed

text \<open>What a claim that returned has seen and done.\<close>

definition claim_seen :: "receipt_claim \<Rightarrow> authority_db \<Rightarrow> binding \<Rightarrow> effect \<Rightarrow> bool" where
  "claim_seen c db b x \<longleftrightarrow>
     List.find (bound_to (rc_owner_id c) (rc_binding_id c)) (ad_bindings db) = Some b \<and> binding_ok b \<and>
     List.find (effect_of (rc_owner_id c) (rc_operation_id c)) (ad_effects db) = Some x \<and> effect_ok x \<and>
     claim_relationships c b x"

definition new_claim_done ::
  "instant \<Rightarrow> receipt_claim \<Rightarrow> watermark \<Rightarrow> effect \<Rightarrow> outbox_entry \<Rightarrow> effect \<Rightarrow> authority_db \<Rightarrow> authority_db \<Rightarrow> bool" where
  "new_claim_done clock c w f entry current db db' \<longleftrightarrow>
     (\<forall>r \<in> set (ad_claims db). \<not> claim_conflict c r) \<and> new_claim_transition current f c \<and>
     wm_key w = sequence_watermark_key c \<and> wm_last_sequence w = rc_resulting_sequence c \<and>
     wm_expires_at_ns w = rc_expires_at_ns c \<and>
     (\<exists>tw te rows n tb. advance_watermark_sql w (ad_watermarks db) = Inr (Some w, tw) \<and> watermark_ok w \<and>
        sql_update effect_row_ok effect_conflict
          (transition_effect_fence f RECEIPT_RECEIVED (ef_version current)) (transition_effect_row f)
          (ad_effects db) = Inr (f # rows, te) \<and>
        enqueue clock entry (ad_outbox db) = (Inr n, tb) \<and>
        db' = db\<lparr>ad_claims := ad_claims db @ [c], ad_watermarks := tw, ad_effects := te, ad_outbox := tb\<rparr>)"

lemma new_claim_success:
  assumes "new_claim clock c w f entry current r db = (Inr y, db')"
  shows "r = c \<and> y = c \<and> new_claim_transition current f c \<and>
    wm_key w = sequence_watermark_key c \<and> wm_last_sequence w = rc_resulting_sequence c \<and>
    wm_expires_at_ns w = rc_expires_at_ns c \<and>
    (\<exists>tw te rows n tb. advance_watermark_sql w (ad_watermarks db) = Inr (Some w, tw) \<and> watermark_ok w \<and>
        sql_update effect_row_ok effect_conflict
          (transition_effect_fence f RECEIPT_RECEIVED (ef_version current)) (transition_effect_row f)
          (ad_effects db) = Inr (f # rows, te) \<and>
        enqueue clock entry (ad_outbox db) = (Inr n, tb) \<and>
        db' = db\<lparr>ad_watermarks := tw, ad_effects := te, ad_outbox := tb\<rparr>)"
  using assms
  unfolding new_claim_def advance_watermark_def transition_protected_effect_def
  by (auto simp: tx_success first_row_iff from_row_Inr new_claim_transition_def)

lemma claim_receipt_success:
  assumes c: "claim_ok c" and call: "claim_receipt clock c w f entry db = (Inr y, db')"
  obtains b x where "claim_seen c db b x" and "y = c"
    and "db' = db \<and> List.find (claim_conflict_row c) (ad_claims db) = Some c \<and> existing_claim_effect x c \<or>
      new_claim_done clock c w f entry x db db'"
proof -
  from call obtain b x row db1 where seen: "claim_seen c db b x"
    and ins: "insert_claim c db = (Inr row, db1)"
    and rest: "row = None \<and> replay_claim c x db1 = (Inr y, db') \<or>
      (\<exists>r. row = Some r \<and> new_claim clock c w f entry x r db1 = (Inr y, db'))"
    unfolding claim_receipt_def claim_seen_def
    by (auto simp: tx_success from_row_Inr split: option.splits)
  from ins obtain refs t where t: "sql_insert_referencing claim_row_ok claim_conflict refs c
      (ad_claims db) = Inr (row, t)" "db1 = db\<lparr>ad_claims := t\<rparr>"
    unfolding insert_claim_def by (auto simp: tx_success claim_values_ok [OF c])
  show thesis
  proof (cases row)
    case None
    with t have "db1 = db" by (auto simp: sql_insert_referencing_def split: if_splits)
    with rest None have "db' = db \<and> y = c \<and> existing_claim_effect x c \<and>
        List.find (claim_conflict_row c) (ad_claims db) = Some c"
      by (auto simp: replay_claim_def tx_success from_row_Inr)
    with seen show thesis by (intro that) auto
  next
    case (Some r)
    with t have r: "\<forall>s \<in> set (ad_claims db). \<not> claim_conflict c s" "t = ad_claims db @ [c]"
      by (auto simp: sql_insert_referencing_def split: if_splits)
    from Some rest have "new_claim clock c w f entry x r db1 = (Inr y, db')" by simp
    from new_claim_success [OF this] seen r t(2) show thesis
      by (intro that) (auto simp: new_claim_done_def)
  qed
qed

subsection \<open>Watermarks, claims and effects stay in step\<close>

definition claim_covers :: "receipt_claim \<Rightarrow> effect \<Rightarrow> bool" where
  "claim_covers c x \<longleftrightarrow>
     ef_owner_id x = rc_owner_id c \<and> ef_operation_id x = rc_operation_id c \<and>
     ef_binding_id x = rc_binding_id c \<and> ef_executor_audience x = rc_audience c \<and>
     ef_lets_transition x = rc_transition c \<and> ef_nonce x = rc_nonce c \<and>
     ef_expected_sequence x + 1 = rc_resulting_sequence c"

text \<open>
  Every claimed sequence number is at most the watermark of its lease and audience, every
  watermark is the number of a claim, and every claim belongs to an effect that has passed
  \<open>RECEIPT_RECEIVED\<close>.
\<close>

definition claims_inv :: "authority_db \<Rightarrow> bool" where
  "claims_inv db \<longleftrightarrow>
     table_ok effect_row_ok effect_conflict (ad_effects db) \<and>
     table_ok watermark_row_ok watermark_conflict (ad_watermarks db) \<and>
     table_ok claim_row_ok claim_conflict (ad_claims db) \<and>
     (\<forall>c \<in> set (ad_claims db). \<exists>w \<in> set (ad_watermarks db).
        wm_key w = sequence_watermark_key c \<and> rc_resulting_sequence c \<le> wm_last_sequence w) \<and>
     (\<forall>w \<in> set (ad_watermarks db). \<exists>c \<in> set (ad_claims db).
        sequence_watermark_key c = wm_key w \<and> rc_resulting_sequence c = wm_last_sequence w) \<and>
     (\<forall>c \<in> set (ad_claims db). \<exists>x \<in> set (ad_effects db).
        claim_covers c x \<and> effect_rank RECEIPT_RECEIVED < effect_progress x)"

lemma claims_invD:
  assumes "claims_inv db"
  shows "table_ok effect_row_ok effect_conflict (ad_effects db)"
    and "table_ok watermark_row_ok watermark_conflict (ad_watermarks db)"
    and "table_ok claim_row_ok claim_conflict (ad_claims db)"
    and "c \<in> set (ad_claims db) \<Longrightarrow> \<exists>w \<in> set (ad_watermarks db).
      wm_key w = sequence_watermark_key c \<and> rc_resulting_sequence c \<le> wm_last_sequence w"
    and "w \<in> set (ad_watermarks db) \<Longrightarrow> \<exists>c \<in> set (ad_claims db).
      sequence_watermark_key c = wm_key w \<and> rc_resulting_sequence c = wm_last_sequence w"
    and "c \<in> set (ad_claims db) \<Longrightarrow> \<exists>x \<in> set (ad_effects db).
      claim_covers c x \<and> effect_rank RECEIPT_RECEIVED < effect_progress x"
  using assms by (auto simp: claims_inv_def)

lemma claim_covers_intent: "effect_intent x = effect_intent y \<Longrightarrow> claim_covers c x \<Longrightarrow> claim_covers c y"
  by (simp add: claim_covers_def effect_intent_def)

lemma covered_later:
  assumes "advances effect_intent effect_progress effect_final t t'"
    and "\<exists>x \<in> set t. claim_covers c x \<and> n < effect_progress x"
  shows "\<exists>x \<in> set t'. claim_covers c x \<and> n < effect_progress x"
proof -
  from assms(2) obtain x where x: "x \<in> set t" "claim_covers c x" "n < effect_progress x" by blast
  with assms(1) obtain q where "q \<in> set t'" "effect_intent q = effect_intent x"
      "effect_progress x \<le> effect_progress q"
    unfolding advances_def by (metis order_refl less_imp_le)
  with x claim_covers_intent [of x q c] show ?thesis by (metis order.strict_trans2)
qed

lemma claims_inv_effects:
  assumes inv: "claims_inv db" and evo: "authority_evolves db db'"
    and same: "ad_claims db' = ad_claims db" "ad_watermarks db' = ad_watermarks db"
  shows "claims_inv db'"
proof -
  have e: "table_ok effect_row_ok effect_conflict (ad_effects db')"
    "advances effect_intent effect_progress effect_final (ad_effects db) (ad_effects db')"
    using evo claims_invD(1) [OF inv] by (simp_all add: authority_evolves_def evolves_def)
  show ?thesis
    unfolding claims_inv_def same
    using e(1) claims_invD(2-5) [OF inv] covered_later [OF e(2) claims_invD(6) [OF inv]] by blast
qed

lemma new_claim_inv:
  assumes inv: "claims_inv db" and c: "claim_ok c" and seen: "claim_seen c db b x"
    and d: "new_claim_done clock c w f entry x db db'" and evo: "authority_evolves db db'"
  shows "claims_inv db'"
proof -
  from d obtain tw te rows where adv: "advance_watermark_sql w (ad_watermarks db) = Inr (Some w, tw)"
    and up: "sql_update effect_row_ok effect_conflict
      (transition_effect_fence f RECEIPT_RECEIVED (ef_version x)) (transition_effect_row f)
      (ad_effects db) = Inr (f # rows, te)"
    and db': "ad_claims db' = ad_claims db @ [c]" "ad_watermarks db' = tw" "ad_effects db' = te"
    and key: "wm_key w = sequence_watermark_key c" "wm_last_sequence w = rc_resulting_sequence c"
    and fresh: "\<forall>r \<in> set (ad_claims db). \<not> claim_conflict c r" and new: "new_claim_transition x f c"
    by (auto simp: new_claim_done_def)
  have e: "table_ok effect_row_ok effect_conflict te"
    "advances effect_intent effect_progress effect_final (ad_effects db) te"
    using evo claims_invD(1) [OF inv] by (simp_all add: authority_evolves_def evolves_def db')
  note marks = advance_watermark_cases [OF claims_invD(2) [OF inv] adv]
  have claims: "table_ok claim_row_ok claim_conflict (ad_claims db @ [c])"
    using claims_invD(3) [OF inv] fresh claim_fits [OF c] claim_conflict_sym
    by (auto simp: table_ok_def conflict_free_append)
  have top: "\<exists>w' \<in> set tw. wm_key w' = sequence_watermark_key c' \<and> rc_resulting_sequence c' \<le> wm_last_sequence w'"
    if "c' \<in> set (ad_claims db @ [c])" for c'
  proof (cases "c' = c")
    case True
    with marks key show ?thesis by auto
  next
    case False
    with that claims_invD(4) [OF inv, of c'] obtain w0 where "w0 \<in> set (ad_watermarks db)"
        "wm_key w0 = sequence_watermark_key c'" "rc_resulting_sequence c' \<le> wm_last_sequence w0" by auto
    with marks show ?thesis unfolding advance_fence_def by (cases "w0 \<in> set tw") force+
  qed
  have hit: "\<exists>c' \<in> set (ad_claims db @ [c]). sequence_watermark_key c' = wm_key w' \<and>
      rc_resulting_sequence c' = wm_last_sequence w'" if "w' \<in> set tw" for w'
  proof (cases "w' = w")
    case False
    with that marks have "w' \<in> set (ad_watermarks db)" by auto
    with claims_invD(5) [OF inv] show ?thesis by auto
  qed (use key in auto)
  have "claim_covers c f" "effect_rank RECEIPT_RECEIVED < effect_progress f"
    using seen new by (auto simp: claim_seen_def claim_relationships_def new_claim_transition_def
        same_effect_intent_def effect_intent_def claim_covers_def)
  then have "\<exists>y \<in> set te. claim_covers c' y \<and> effect_rank RECEIPT_RECEIVED < effect_progress y"
    if "c' \<in> set (ad_claims db @ [c])" for c'
    using that sql_update_returned(1) [OF up] covered_later [OF e(2) claims_invD(6) [OF inv]] by auto
  with e(1) marks claims top hit show ?thesis unfolding claims_inv_def db' by blast
qed

lemma claim_receipt_keeps:
  assumes "claim_ok c" and "claim_receipt clock c w f entry db = (res, db')"
  shows "db' = db \<or> (\<exists>b x. claim_seen c db b x \<and> res = Inr c \<and> new_claim_done clock c w f entry x db db')"
proof (cases res)
  case (Inl e)
  with assms(2) show ?thesis by (simp add: claim_receipt_def tx_savepoint_failure)
next
  case (Inr y)
  with claim_receipt_success [OF assms(1), of clock w f entry db y db'] assms(2) show ?thesis by metis
qed

definition same_claims :: "authority_db \<Rightarrow> authority_db \<Rightarrow> bool" where
  "same_claims db db' \<longleftrightarrow> ad_claims db' = ad_claims db \<and> ad_watermarks db' = ad_watermarks db"

interpretation asc: step_order same_claims
  by unfold_locales (auto simp: same_claims_def)

lemma same_claims_elsewhere:
  "tx_rel same_claims (on_bindings m0)" "tx_rel same_claims (on_lifecycles m1)"
  "tx_rel same_claims (on_effects m2)"
  by (rule tx_rel_on [where Q = "\<lambda>_ _. True"]; simp add: tx_rel_def same_claims_def)+

lemma same_claims_calls:
  "tx_rel same_claims (create_binding b)" "tx_rel same_claims (transition_binding b st v)"
  "tx_rel same_claims (activate_binding b v)" "tx_rel same_claims (abandon_provisioning_binding b v)"
  "tx_rel same_claims (create_lifecycle_operation x)"
  "tx_rel same_claims (transition_lifecycle_operation x sl v)"
  "tx_rel same_claims (create_protected_effect f)"
  "tx_rel same_claims (transition_protected_effect f se v)"
  unfolding create_binding_def transition_binding_def activate_binding_def
    abandon_provisioning_binding_def create_lifecycle_operation_def update_binding_def
    transition_lifecycle_operation_def create_protected_effect_def transition_protected_effect_def
  by (intro asc.rel_intros same_claims_elsewhere)+

lemmas same_claims_rels = same_claims_calls [THEN tx_relD]

lemma authority_step_claims:
  assumes "authority_step db db'"
  shows "same_claims db db' \<or> (\<exists>clock c w f entry b x. claim_ok c \<and> claim_seen c db b x \<and>
    new_claim_done clock c w f entry x db db')"
  using assms
proof cases
  case (9 c w f clock entry rc)
  then show ?thesis
    using claim_receipt_keeps [OF 9(1) 9(4)] asc.order_refl by metis
qed (auto dest: same_claims_rels simp: same_claims_def)

text \<open>
  C9. Over any sequence of repository calls, failing ones included, claims are never lost, and the
  watermark of a lease and audience stays the greatest sequence number claimed for it, itself the
  number of a claim; every claim keeps its effect, past \<open>RECEIPT_RECEIVED\<close>.
\<close>

theorem watermark_is_greatest_claim:
  assumes "authority_step\<^sup>*\<^sup>* db db'" and "claims_inv db"
  shows "claims_inv db' \<and> (\<exists>cs. ad_claims db' = ad_claims db @ cs)"
  using assms
proof (induction rule: rtranclp_induct)
  case (step d d')
  then have inv: "claims_inv d" and pre: "\<exists>cs. ad_claims d = ad_claims db @ cs" by simp_all
  have evo: "authority_evolves d d'" by (rule authority_step_evolves [OF step.hyps(2)])
  from authority_step_claims [OF step.hyps(2)] show ?case
  proof (elim disjE exE conjE)
    assume "same_claims d d'"
    then show ?thesis
      using claims_inv_effects [OF inv evo] pre by (simp add: same_claims_def)
  next
    fix clock c w f entry b x
    assume new: "claim_ok c" "claim_seen c d b x" "new_claim_done clock c w f entry x d d'"
    have "ad_claims d' = ad_claims d @ [c]" using new(3) by (auto simp: new_claim_done_def)
    then show ?thesis using new_claim_inv [OF inv new evo] pre by auto
  qed
qed simp

subsection \<open>One claim\<close>

lemma claimed_effect_update:
  assumes ok: "table_ok effect_row_ok effect_conflict t"
    and up: "sql_update effect_row_ok effect_conflict (transition_effect_fence f st v)
      (transition_effect_row f) t = Inr (q # rows, t')"
    and x: "x \<in> set t" "transition_effect_fence f st v x"
  shows "rows = [] \<and> set t' = insert q (set t - {x})"
proof -
  have "filter (transition_effect_fence f st v) t = [x]"
    by (rule aet.filter_key [where r = x, OF ok x(1)])
      (use x(2) effect_fence_fields(1) in \<open>auto\<close>)
  with up have "rows = []" by (auto simp: sql_update_def Let_def split: if_splits)
  with up have one: "sql_update effect_row_ok effect_conflict (transition_effect_fence f st v)
      (transition_effect_row f) t = Inr ([q], t')" by simp
  obtain r where r: "r \<in> set t" "transition_effect_fence f st v r" "set t' = insert q (set t - {r})"
    by (rule aet.update_key [OF ok one, of "ef_operation_id f"]) (auto simp: effect_fence_fields)
  have "r = x"
    by (rule aet.key_unique [OF ok r(1) x(1)]) (simp add: effect_fence_fields(1) [OF r(2)] effect_fence_fields(1) [OF x(2)])
  with r \<open>rows = []\<close> show ?thesis by simp
qed

text \<open>
  C2. A claim of a receipt that raises leaves every table as it was. One that returns has found
  the owner's active binding and the effect it belongs to, and either the very same claim was
  already stored and nothing changes, or the claim is added with a sequence number above every
  earlier one of its lease and audience, the effect moves from \<open>RECEIPT_RECEIVED\<close> to the given
  claimed effect, the watermark is the given one and the outbox entry is enqueued, all together.
\<close>

theorem claim_is_atomic:
  assumes inv: "claims_inv db" and c: "claim_ok c"
    and call: "claim_receipt clock c w f entry db = (res, db')"
  shows "case res of Inl e \<Rightarrow> db' = db
    | Inr y \<Rightarrow> y = c \<and> (\<exists>b x. claim_seen c db b x \<and>
        (db' = db \<and> c \<in> set (ad_claims db) \<or>
         ad_claims db' = ad_claims db @ [c] \<and>
         (\<forall>c0 \<in> set (ad_claims db). sequence_watermark_key c0 = sequence_watermark_key c \<longrightarrow>
            rc_resulting_sequence c0 < rc_resulting_sequence c) \<and>
         ef_status x = RECEIPT_RECEIVED \<and> ef_status f = RECEIPT_CLAIMED \<and>
         set (ad_effects db') = insert f (set (ad_effects db) - {x}) \<and> w \<in> set (ad_watermarks db') \<and>
         (\<exists>n. enqueue clock entry (ad_outbox db) = (Inr n, ad_outbox db')) \<and>
         ad_bindings db' = ad_bindings db \<and> ad_lifecycles db' = ad_lifecycles db))"
proof (cases res)
  case (Inl e)
  with call show ?thesis by (simp add: claim_receipt_def tx_savepoint_failure)
next
  case (Inr y)
  obtain b x where seen: "claim_seen c db b x" and y: "y = c"
    and did: "db' = db \<and> List.find (claim_conflict_row c) (ad_claims db) = Some c \<and> existing_claim_effect x c \<or>
      new_claim_done clock c w f entry x db db'"
    by (rule claim_receipt_success [OF c call [unfolded Inr]])
  show ?thesis
  proof (cases "new_claim_done clock c w f entry x db db'")
    case True
    then obtain tw te rows n tb where adv: "advance_watermark_sql w (ad_watermarks db) = Inr (Some w, tw)"
      and up: "sql_update effect_row_ok effect_conflict
        (transition_effect_fence f RECEIPT_RECEIVED (ef_version x)) (transition_effect_row f)
        (ad_effects db) = Inr (f # rows, te)"
      and box: "enqueue clock entry (ad_outbox db) = (Inr n, tb)"
      and db': "db' = db\<lparr>ad_claims := ad_claims db @ [c], ad_watermarks := tw, ad_effects := te, ad_outbox := tb\<rparr>"
      and key: "wm_key w = sequence_watermark_key c" "wm_last_sequence w = rc_resulting_sequence c"
      and new: "new_claim_transition x f c"
      by (auto simp: new_claim_done_def)
    note marks = advance_watermark_cases [OF claims_invD(2) [OF inv] adv]
    have "rc_resulting_sequence c0 < rc_resulting_sequence c"
      if c0: "c0 \<in> set (ad_claims db)" "sequence_watermark_key c0 = sequence_watermark_key c" for c0
    proof -
      from claims_invD(4) [OF inv c0(1)] obtain w0 where w0: "w0 \<in> set (ad_watermarks db)"
          "wm_key w0 = wm_key w" "rc_resulting_sequence c0 \<le> wm_last_sequence w0"
        using c0(2) key(1) by auto
      with marks obtain s where "s \<in> set (ad_watermarks db)" "advance_fence w s" by auto
      with w0 awt.key_unique [OF claims_invD(2) [OF inv], of s w0] key(2) show ?thesis
        by (auto simp: advance_fence_def)
    qed
    moreover have "x \<in> set (ad_effects db)" "transition_effect_fence f RECEIPT_RECEIVED (ef_version x) x"
      using seen new by (auto simp: claim_seen_def new_claim_transition_def same_effect_intent_def
          transition_effect_fence_def dest: find_SomeD)
    note effects = claimed_effect_update [OF claims_invD(1) [OF inv] up this]
    ultimately show ?thesis
      using seen y new marks effects box
      by (auto simp: Inr db' new_claim_transition_def intro!: exI [of _ b] exI [of _ x])
  qed (use did seen y in \<open>auto simp: Inr dest: find_SomeD\<close>)
qed

definition claimed_db :: authority_db where
  "claimed_db =
     (authority_sample claimed_effect)\<lparr>ad_watermarks := [sample_watermark], ad_claims := [sample_receipt],
        ad_outbox := [pending_row Outbox.sample_entry 0 5]\<rparr>"

lemma sample_claims_inv: "claims_inv (authority_sample sample_effect)"
proof -
  have "effect_row_ok sample_effect" by code_simp
  then show ?thesis by (simp add: claims_inv_def authority_sample_def table_ok_def)
qed

abbreviation sample_inserted :: authority_db where
  "sample_inserted \<equiv> (authority_sample sample_effect)\<lparr>ad_claims := [sample_receipt]\<rparr>"

abbreviation sample_advanced :: authority_db where
  "sample_advanced \<equiv> sample_inserted\<lparr>ad_watermarks := [sample_watermark]\<rparr>"

abbreviation sample_moved :: authority_db where
  "sample_moved \<equiv> (authority_sample claimed_effect)\<lparr>ad_claims := [sample_receipt], ad_watermarks := [sample_watermark]\<rparr>"

lemma sample_claim_steps:
  "claim_relationships sample_receipt sample_binding sample_effect"
  "insert_claim sample_receipt (authority_sample sample_effect) = (Inr (Some sample_receipt), sample_inserted)"
  "new_claim_transition sample_effect claimed_effect sample_receipt"
  "advance_watermark sample_watermark sample_receipt sample_inserted = (Inr (), sample_advanced)"
  "transition_protected_effect claimed_effect RECEIPT_RECEIVED 3 sample_advanced = (Inr claimed_effect, sample_moved)"
  by code_simp+

lemma sample_enqueued: "on_outbox (enqueue 5 Outbox.sample_entry) sample_moved = (Inr 1, claimed_db)"
  by (simp add: tx_on_def authority_sample_def Outbox.sample_enqueue claimed_db_def)

lemma sample_rows:
  "List.find (bound_to (rc_owner_id sample_receipt) (rc_binding_id sample_receipt))
     (ad_bindings (authority_sample x)) = Some sample_binding"
  "List.find (effect_of (rc_owner_id sample_receipt) (rc_operation_id sample_receipt))
     (ad_effects (authority_sample sample_effect)) = Some sample_effect"
  "ef_status sample_effect = RECEIPT_RECEIVED" "ef_version sample_effect = 3"
  by (simp_all add: authority_sample_def sample_receipt_def sample_binding_def sample_effect_def)

lemma sample_decoded:
  "binding_from_row sample_binding = Inr sample_binding" "effect_from_row sample_effect = Inr sample_effect"
  "claim_from_row sample_receipt = Inr sample_receipt"
  by (simp_all add: from_row_Inr sample_values_ok)

lemma sample_claimed:
  "claim_receipt 5 sample_receipt sample_watermark claimed_effect Outbox.sample_entry
     (authority_sample sample_effect) = (Inr sample_receipt, claimed_db)"
  by (simp add: claim_receipt_def tx_savepoint_def tx_simps sample_rows sample_decoded
      sample_claim_steps new_claim_def sample_enqueued)

theorem claim_is_atomic_witness:
  "\<exists>b x. claim_seen sample_receipt (authority_sample sample_effect) b x \<and> ef_status x = RECEIPT_RECEIVED \<and>
     ad_claims claimed_db = ad_claims (authority_sample sample_effect) @ [sample_receipt] \<and>
     set (ad_effects claimed_db) = insert claimed_effect (set (ad_effects (authority_sample sample_effect)) - {x})"
proof -
  have "claimed_db \<noteq> authority_sample sample_effect" by (simp add: claimed_db_def authority_sample_def)
  with claim_is_atomic [OF sample_claims_inv sample_values_ok(3) sample_claimed] show ?thesis by auto
qed

lemma claimed_effect_ok: "effect_ok claimed_effect"
  by code_simp

theorem watermark_is_greatest_claim_witness:
  "claims_inv claimed_db \<and> (\<exists>cs. ad_claims claimed_db = ad_claims (authority_sample sample_effect) @ cs)"
  by (rule watermark_is_greatest_claim [OF r_into_rtranclp [of authority_step] sample_claims_inv],
      rule authority_step.intros(9) [OF sample_values_ok(3,4) claimed_effect_ok sample_claimed])

subsection \<open>Repeating a claim\<close>

lemma replay_finds:
  assumes "\<forall>r \<in> set t. \<not> claim_conflict c r"
  shows "List.find (claim_conflict_row c) (t @ [c]) = Some c"
proof -
  have "\<not> claim_conflict_row c r" if "r \<in> set t" for r
    using assms that by (auto simp: claim_conflict_def claim_conflict_row_def receipt_uniqueness_key_def)
  then have "filter (claim_conflict_row c) t = []" by simp
  then show ?thesis by (simp add: find_filter claim_conflict_row_def)
qed

lemma stored_claim_returns:
  assumes c: "claim_ok c" and seen: "claim_seen c db b x" and x: "existing_claim_effect x c"
    and found: "List.find (claim_conflict_row c) (ad_claims db) = Some c"
  shows "claim_receipt clock c w f entry db = (Inr c, db)"
proof -
  have "c \<in> set (ad_claims db)" using found by (auto dest: find_SomeD)
  then have ins: "insert_claim c db = (Inr None, db)"
    using claim_fits [OF c]
    by (auto simp: insert_claim_def tx_simps tx_on_def tx_stmt_def claim_values_ok [OF c]
        sql_insert_referencing_def claim_conflict_def)
  have "replay_claim c x db = (Inr c, db)"
    by (simp add: replay_claim_def tx_simps found claim_from_row_Inr c x iffD2 [OF claim_from_row_Inr])
  with ins seen show ?thesis
    by (simp add: claim_receipt_def tx_savepoint_def tx_simps claim_seen_def
        iffD2 [OF binding_from_row_Inr] iffD2 [OF effect_from_row_Inr])
qed

text \<open>
  C23. A claim that returned can be repeated: the same call on the tables it left returns the same
  claim and changes nothing, so a caller that lost the answer may ask again.
\<close>

theorem claim_replays:
  assumes inv: "claims_inv db" and c: "claim_ok c" and f: "effect_ok f"
    and call: "claim_receipt clock c w f entry db = (Inr y, db')"
  shows "claim_receipt later c w f entry db' = (Inr y, db')"
proof -
  obtain b x where seen: "claim_seen c db b x" and y: "y = c"
    and did: "db' = db \<and> List.find (claim_conflict_row c) (ad_claims db) = Some c \<and> existing_claim_effect x c \<or>
      new_claim_done clock c w f entry x db db'"
    by (rule claim_receipt_success [OF c call])
  from did show ?thesis
  proof (elim disjE)
    assume "db' = db \<and> List.find (claim_conflict_row c) (ad_claims db) = Some c \<and> existing_claim_effect x c"
    with stored_claim_returns [OF c seen] y show ?thesis by simp
  next
    assume new: "new_claim_done clock c w f entry x db db'"
    then have db': "ad_claims db' = ad_claims db @ [c]" "ad_bindings db' = ad_bindings db"
      and fresh: "\<forall>r \<in> set (ad_claims db). \<not> claim_conflict c r" and move: "new_claim_transition x f c"
      and fin: "f \<in> set (ad_effects db')"
      by (auto simp: new_claim_done_def dest: sql_update_returned(1))
    have same: "effect_intent f = effect_intent x" using move
      by (simp add: new_claim_transition_def same_effect_intent_def)
    have "table_ok effect_row_ok effect_conflict (ad_effects db')"
      using tx_relD [OF claim_receipt_rel call] claims_invD(1) [OF inv]
      by (simp add: authority_evolves_def evolves_def)
    then have "List.find (effect_of (rc_owner_id c) (rc_operation_id c)) (ad_effects db') = Some f"
      by (rule aet.find_key [OF _ fin])
        (use seen same in \<open>auto simp: claim_seen_def claim_relationships_def effect_intent_def\<close>)
    moreover have "claim_relationships c b f"
      using seen same by (simp add: claim_seen_def claim_relationships_def effect_intent_def)
    ultimately have "claim_seen c db' b f" using seen f by (simp add: claim_seen_def db')
    moreover have "existing_claim_effect f c"
      using move by (simp add: new_claim_transition_def existing_claim_effect_def)
    ultimately show ?thesis
      using stored_claim_returns [OF c] replay_finds [OF fresh] y by (simp add: db')
  qed
qed

theorem claim_replays_witness:
  "claim_receipt 99 sample_receipt sample_watermark claimed_effect Outbox.sample_entry claimed_db =
     (Inr sample_receipt, claimed_db)"
  by (rule claim_replays [OF sample_claims_inv sample_values_ok(3) claimed_effect_ok sample_claimed])

subsection \<open>What a claim is refused for\<close>

text \<open>
  C39. A claim is refused, with every table as it was, when its binding or effect is not there, when
  the binding is not active or does not hold the effect's capability, when the binding's lease has
  moved past the sequence number the claim follows on, even if that very claim is already stored,
  and whenever the nonce of the effect is not a canonical identifier, although the constructor of
  the effect accepts such a nonce.
\<close>

theorem claim_refused:
  assumes c: "claim_ok c"
    and b: "br = List.find (bound_to (rc_owner_id c) (rc_binding_id c)) (ad_bindings db)"
      "optional_ok binding_ok br"
    and x: "er = List.find (effect_of (rc_owner_id c) (rc_operation_id c)) (ad_effects db)"
      "optional_ok effect_ok er"
    and why: "br = None \<or> er = None \<or> bd_state (the br) \<noteq> ACTIVE \<or>
      ef_lets_capability (the er) \<notin> set (bd_capabilities (the br)) \<or>
      bd_lease_sequence (the br) + 1 \<noteq> rc_resulting_sequence c \<or>
      \<not> canonical_identifier (ef_nonce (the er))"
  shows "claim_receipt clock c w f entry db = (Inl (err ReceiptClaimConflictError), db)"
proof (cases "br = None \<or> er = None")
  case True
  then show ?thesis
    by (cases br; cases er)
      (auto simp: claim_receipt_def tx_savepoint_def tx_simps b(1) [symmetric] x(1) [symmetric])
next
  case False
  then obtain b' x' where br: "br = Some b'" and er: "er = Some x'" by auto
  have "canonical_identifier (rc_nonce c)" using c by (simp add: claim_ok_def claim_fields_ok_def)
  then have "\<not> claim_relationships c b' x'"
    using why False br er by (auto simp: claim_relationships_def)
  moreover have "binding_from_row b' = Inr b'" "effect_from_row x' = Inr x'"
    using b(2) x(2) br er by (simp_all add: from_row_Inr)
  ultimately show ?thesis
    by (simp add: claim_receipt_def tx_savepoint_def tx_simps b(1) [symmetric] x(1) [symmetric] br er)
qed

text \<open>The claim of \<open>claimed_db\<close> again, after the binding has recorded the new lease sequence.\<close>

definition moved_binding :: binding where
  "moved_binding = sample_binding\<lparr>bd_lease_sequence := 5, bd_updated_at := 9, bd_version := 2\<rparr>"

theorem claim_refused_witness:
  "claim_receipt 99 sample_receipt sample_watermark claimed_effect Outbox.sample_entry
     (claimed_db\<lparr>ad_bindings := [moved_binding]\<rparr>) =
   (Inl (err ReceiptClaimConflictError), claimed_db\<lparr>ad_bindings := [moved_binding]\<rparr>)"
proof (rule claim_refused [OF sample_values_ok(3), of "Some moved_binding" _ "Some claimed_effect"])
  show "optional_ok binding_ok (Some moved_binding)" by code_simp
  show "optional_ok effect_ok (Some claimed_effect)" by (simp add: claimed_effect_ok)
qed (simp_all add: claimed_db_def authority_sample_def moved_binding_def claimed_effect_def sample_effect_def
    sample_receipt_def sample_binding_def)

end
