(* ===== verification/AuthorityRecovery.thy ===== *)
theory AuthorityRecovery
  imports AuthorityClaims
begin

text \<open>
  The start and the recovery of authority work: a provisioning intent is stored, read back and
  stored again without a second effect, and the listing of the owners with due work leaves out no
  owner while it has room, or raises when the database collates owners against their code points.
\<close>

subsection \<open>Provisioning\<close>

lemma pending_id_canonical: "canonical_identifier (pending_id b f)"
proof -
  let ?d = "pending_digest b"
  have hex: "length ?d = 32" "\<forall>c \<in> set ?d. c \<in> set hex_chars"
    using pending_digest_hex [of b] by (simp_all add: lower_hex_def)
  have alnum: "set hex_chars \<subseteq> set alnum_chars" by (simp add: char_class_defs)
  have "?d \<noteq> []" using hex(1) by auto
  then have tail: "last (pending_id b f) \<in> set alnum_chars"
    using hex(2) alnum by (auto simp: pending_id_def)
  have "\<forall>c \<in> set (PENDING_ID_PREFIX @ pending_name f @ '':''). c \<in> set (alnum_chars @ ''._:@/-'')"
    by (cases f) (simp_all add: PENDING_ID_PREFIX_def char_class_defs)
  then have all: "\<forall>c \<in> set (pending_id b f). c \<in> set (alnum_chars @ ''._:@/-'')"
    using hex(2) alnum unfolding pending_id_def set_append by blast
  have "length (pending_name f) \<le> 7" by (cases f) simp_all
  then have len: "length (pending_id b f) \<le> 128" using hex(1) by (simp add: pending_id_def PENDING_ID_PREFIX_def)
  have "hd (pending_id b f) = CHR ''p''" by (simp add: pending_id_def PENDING_ID_PREFIX_def)
  moreover have "CHR ''p'' \<in> set alnum_chars" by (simp add: char_class_defs)
  moreover have "pending_id b f \<noteq> []" by (simp add: pending_id_def PENDING_ID_PREFIX_def)
  ultimately show ?thesis unfolding canonical_identifier_def using tail all len by simp
qed

lemma pending_id_prefix: "take (length PENDING_ID_PREFIX) (pending_id b f) = PENDING_ID_PREFIX"
  by (simp add: pending_id_def)

definition intent_args ::
  "string \<Rightarrow> string \<Rightarrow> string \<Rightarrow> string \<Rightarrow> int \<Rightarrow> population \<Rightarrow> string \<Rightarrow> string \<Rightarrow> string \<Rightarrow> string \<Rightarrow> int
     \<Rightarrow> string list \<Rightarrow> 't \<Rightarrow> 't binding_fields" where
  "intent_args binding_id owner agent runtime generation population tenant envelope policy machine
       epoch capabilities created =
     \<lparr>bd_binding_id = binding_id, bd_owner_id = owner, bd_agent_id = agent,
      bd_runtime_id = runtime, bd_runtime_generation = generation,
      bd_population = population, bd_tenant_id = tenant, bd_envelope_id = envelope,
      bd_warden_id = pending_id binding_id Warden, bd_lease_id = pending_id binding_id Lease,
      bd_lineage_id = pending_id binding_id Lineage, bd_subject_id = pending_id binding_id Subject,
      bd_policy_digest = policy, bd_machine_digest = machine, bd_config_epoch = epoch,
      bd_capabilities = capabilities, bd_lease_sequence = 0, bd_lease_expires_at_ns = 0,
      bd_state = PROVISIONING, bd_created_at = created, bd_updated_at = created, bd_version = 0\<rparr>"

lemma provisioning_intent_iff:
  "provisioning_intent i owner agent runtime g p tenant env policy machine epoch caps created = Inr b \<longleftrightarrow>
     (\<exists>t. require_utc created = Inr t \<and>
        (\<forall>v \<in> set [i, owner, agent, runtime, tenant, env]. canonical_identifier v) \<and> 0 < g \<and>
        lets_digest policy \<and> lets_digest machine \<and> 0 < epoch \<and> canonical_capabilities caps \<and>
        b = intent_args i owner agent runtime g p tenant env policy machine epoch caps t)"
proof -
  have fields: "binding_fields_ok (intent_args i owner agent runtime g p tenant env policy machine epoch caps created)
      \<longleftrightarrow> (\<forall>v \<in> set [i, owner, agent, runtime, tenant, env]. canonical_identifier v) \<and> 0 < g \<and>
        lets_digest policy \<and> lets_digest machine \<and> 0 < epoch \<and> canonical_capabilities caps"
    by (auto simp: binding_fields_ok_def intent_args_def remote_identities_def remote_state_ok_def
        has_pending_identity_def expected_pending_def pending_id_canonical pending_id_prefix)
  have "provisioning_intent i owner agent runtime g p tenant env policy machine epoch caps created =
      (if canonical_identifier i
       then make_binding (intent_args i owner agent runtime g p tenant env policy machine epoch caps created)
       else bad_domain)"
    by (simp add: provisioning_intent_def pending_authority_identity_def require_identifier_def intent_args_def)
  then show ?thesis
    using fields
    by (auto simp: make_binding_def bd_with_times_def intent_args_def split: if_splits sum.splits)
qed

text \<open>
  C38. A provisioning intent that conflicts with no stored binding is stored, is read back as it
  was given, and creating it again returns it without storing anything.
\<close>

theorem provisioned_binding_reads_back:
  assumes ok: "table_ok binding_row_ok binding_conflict (ad_bindings db)"
    and intent: "provisioning_intent i owner agent runtime g p tenant env policy machine epoch caps created = Inr b"
    and ints: "fits [g, epoch]" and free: "\<forall>r \<in> set (ad_bindings db). \<not> binding_conflict b r"
  shows "\<exists>db'. create_binding b db = (Inr b, db') \<and> get_binding owner i db' = (Inr (Some b), db') \<and>
    create_binding b db' = (Inr b, db') \<and> ad_bindings db' = ad_bindings db @ [b]"
proof -
  let ?t = "ad_bindings db @ [b]"
  let ?db = "db\<lparr>ad_bindings := ?t\<rparr>"
  from intent obtain t where t: "b = intent_args i owner agent runtime g p tenant env policy machine epoch caps t"
    by (auto simp: provisioning_intent_iff)
  have b: "binding_ok b"
    using intent make_binding_ok by (auto simp: provisioning_intent_def split: sum.splits)
  have row: "binding_row_ok b"
    by (rule binding_fits [OF b]) (use ints in \<open>simp add: t intent_args_def bigint_def MAX_BIGINT_def\<close>)
  have read: "binding_from_row b = Inr b" using b by (simp add: from_row_Inr)
  have ins: "sql_insert_referencing binding_row_ok binding_conflict True b (ad_bindings db) = Inr (Some b, ?t)"
    using row free by (simp add: sql_insert_referencing_def)
  have create: "create_binding b db = (Inr b, ?db)"
    by (simp add: create_binding_def tx_on_def tx_stmt_def ins tx_simps read)
  have "table_ok binding_row_ok binding_conflict ?t" by (rule abt.table_ok_insert_referencing [OF ok ins])
  then have "List.find (bound_to owner i) ?t = Some b"
    by (rule abt.find_key) (auto simp: t intent_args_def)
  then have get: "get_binding owner i ?db = (Inr (Some b), ?db)"
    by (simp add: get_binding_def tx_simps read)
  have "\<not> binding_conflict_row b r" if "r \<in> set (ad_bindings db)" for r
    using free that by (auto simp: binding_conflict_row_def binding_conflict_def t intent_args_def
        owner_agent_key_def runtime_generation_key_def binding_terminal_def)
  then have "filter (binding_conflict_row b) (ad_bindings db) = []" by simp
  then have "List.find (binding_conflict_row b) ?t = Some b"
    by (simp add: find_filter binding_conflict_row_def)
  then have again: "create_binding b ?db = (Inr b, ?db)"
    using row by (simp add: create_binding_def tx_on_def tx_stmt_def sql_insert_referencing_def
        binding_conflict_def tx_simps read)
  show ?thesis using create get again by (intro exI [of _ ?db]) simp
qed

definition sample_intent :: binding where
  "sample_intent = intent_args ''bind-2'' ''ann'' ''agent-2'' ''run-2'' 1 BYO_USER ''tenant'' ''env''
     (''sha256:'' @ sample_digest) (''sha256:'' @ sample_digest) 1 [''fs.read''] 0"

theorem provisioned_binding_reads_back_witness:
  "\<exists>db'. create_binding sample_intent (authority_sample sample_effect) = (Inr sample_intent, db') \<and>
     get_binding ''ann'' ''bind-2'' db' = (Inr (Some sample_intent), db') \<and>
     create_binding sample_intent db' = (Inr sample_intent, db') \<and>
     ad_bindings db' = ad_bindings (authority_sample sample_effect) @ [sample_intent]"
proof (rule provisioned_binding_reads_back)
  have "binding_row_ok sample_binding" by code_simp
  then show "table_ok binding_row_ok binding_conflict (ad_bindings (authority_sample sample_effect))"
    by (simp add: authority_sample_def table_ok_def)
  have "canonical_capabilities [''fs.read'']" "lets_digest (''sha256:'' @ sample_digest)"
    "\<forall>v \<in> set [''bind-2'', ''ann'', ''agent-2'', ''run-2'', ''tenant'', ''env'']. canonical_identifier v"
    by code_simp+
  then show "provisioning_intent ''bind-2'' ''ann'' ''agent-2'' ''run-2'' 1 BYO_USER ''tenant'' ''env''
      (''sha256:'' @ sample_digest) (''sha256:'' @ sample_digest) 1 [''fs.read''] (utc 0) = Inr sample_intent"
    by (simp add: provisioning_intent_iff sample_intent_def require_utc_utc in_datetime_range_def
        min_instant_def max_instant_def)
qed (simp_all add: authority_sample_def sample_intent_def intent_args_def sample_binding_def binding_conflict_def
    runtime_generation_key_def owner_agent_key_def bigint_def MAX_BIGINT_def)

subsection \<open>Owners with due work\<close>

lemma group_min_owners: "map fst (group_min work) = remdups (map fst work)"
  by (simp add: group_min_def comp_def)

lemma group_min_member:
  assumes "(owner, t) \<in> set (group_min work)"
  shows "(owner, t) \<in> set work" and "(owner, u) \<in> set work \<Longrightarrow> t \<le> u"
proof -
  let ?times = "snd ` {p \<in> set work. fst p = owner}"
  have t: "t = Min ?times" and owner: "owner \<in> set (map fst work)"
    using assms by (auto simp: group_min_def split_def)
  have "finite ?times" "?times \<noteq> {}" using owner by auto
  then have "t \<in> ?times" "\<forall>u \<in> ?times. t \<le> u" unfolding t by (auto intro: Min_in)
  then show "(owner, t) \<in> set work" and "(owner, u) \<in> set work \<Longrightarrow> t \<le> u" by force+
qed

lemma group_min_covers:
  assumes "(owner, u) \<in> set work"
  shows "\<exists>t \<le> u. (owner, t) \<in> set (group_min work)"
proof -
  have "owner \<in> set (map fst (group_min work))"
    using assms by (force simp: group_min_owners)
  then obtain t where "(owner, t) \<in> set (group_min work)" by auto
  with group_min_member(2) [OF this assms] show ?thesis by blast
qed

definition recovery_rows_ok :: "authority_db \<Rightarrow> bool" where
  "recovery_rows_ok db =
     ((\<forall>r \<in> set (ad_lifecycles db). lifecycle_ok r) \<and> (\<forall>r \<in> set (ad_effects db). effect_ok r))"

lemma work_rows_valid:
  assumes "recovery_rows_ok db" and "(owner, t) \<in> set (recoverable_work due cutoff db)"
  shows "recovery_row (owner, t) = Inr (owner, t)"
proof -
  have life: "canonical_identifier (lo_owner_id r) \<and> optional_ok in_datetime_range (lo_next_attempt_at r)"
    if "r \<in> set (ad_lifecycles db)" for r
    using assms(1) that by (simp add: recovery_rows_ok_def lifecycle_ok_def lifecycle_fields_ok_def)
  have eff: "canonical_identifier (ef_owner_id r) \<and> in_datetime_range (ef_updated_at r)"
    if "r \<in> set (ad_effects db)" for r
    using assms(1) that by (simp add: recovery_rows_ok_def effect_ok_def effect_fields_ok_def)
  have "canonical_identifier owner \<and> in_datetime_range t"
    using assms(2) life eff by (fastforce simp: recoverable_work_def lifecycle_due_def split: option.splits)
  then show ?thesis by (simp add: recovery_row_def require_identifier_def require_utc_utc)
qed

abbreviation recovery_key :: "(string \<Rightarrow> string) \<Rightarrow> string \<times> instant \<Rightarrow> instant \<times> string" where
  "recovery_key coll \<equiv> \<lambda>(owner, at). (at, coll owner)"

abbreviation recovery_page :: "(string \<Rightarrow> string) \<Rightarrow> instant \<Rightarrow> instant \<Rightarrow> int \<Rightarrow> authority_db \<Rightarrow> (string \<times> instant) list" where
  "recovery_page coll due cutoff limit db \<equiv>
     sql_page (\<lambda>_. True) (recovery_key coll) (nat limit) (group_min (recoverable_work due cutoff db))"

lemma recovery_page_distinct: "distinct (map fst (recovery_page coll due cutoff limit db))"
proof -
  let ?gm = "group_min (recoverable_work due cutoff db)"
  have "distinct (map fst ?gm)" by (simp add: group_min_owners)
  then have "distinct (map fst (sort_key (recovery_key coll) ?gm))" by (simp add: distinct_map)
  then show ?thesis by (simp add: sql_page_def distinct_take flip: take_map)
qed

lemma recovery_page_result:
  assumes rows: "recovery_rows_ok db" and times: "in_datetime_range due" "in_datetime_range cutoff"
    and limit: "1 \<le> limit" "limit \<le> 1000"
  shows "list_recovery_owners coll (utc due) (utc cutoff) limit db =
    (if sorted (map (recovery_key id) (recovery_page coll due cutoff limit db))
     then Inr (map fst (recovery_page coll due cutoff limit db)) else Inl (err RepositoryDataError), db)"
proof -
  let ?gm = "group_min (recoverable_work due cutoff db)"
  let ?page = "recovery_page coll due cutoff limit db"
  have q: "query_time (utc due) = Inr due" "query_time (utc cutoff) = Inr cutoff"
    using times by (simp_all add: query_time_def require_utc_utc)
  have len: "int (length ?page) \<le> limit"
    using length_sql_page [of "\<lambda>_. True" "recovery_key coll" "nat limit" ?gm] limit(1) by linarith
  have "recovery_row p = Inr p" if "p \<in> set ?page" for p
  proof (cases p)
    case (Pair owner t)
    with that have "(owner, t) \<in> set ?gm" by (auto dest: sql_page_sound)
    from work_rows_valid [OF rows group_min_member(1) [OF this]] Pair show ?thesis by simp
  qed
  then have rd: "traverse recovery_row ?page = Inr ?page" using traverse_map [of ?page recovery_row id] by simp
  note dist = recovery_page_distinct [where coll = coll and due = due and cutoff = cutoff and limit = limit and db = db]
  have key: "recovery_key id = (\<lambda>(owner, at). (at, owner))" by (simp add: fun_eq_iff)
  show ?thesis
    using dist by (simp add: list_recovery_owners_def q tx_simps limit len rd key)
qed

lemma sorted_disagrees:
  assumes "sorted (map k xs)" and "\<not> sorted (map k' xs)"
  obtains x y where "x \<in> set xs" "y \<in> set xs" "k x \<le> k y" "k' y < (k' x :: 'b :: linorder)"
proof -
  from assms(2) obtain i j where "i \<le> j" "j < length xs" "\<not> k' (xs ! i) \<le> k' (xs ! j)"
    by (auto simp: sorted_iff_nth_mono)
  moreover from this have "k (xs ! i) \<le> k (xs ! j)"
    using sorted_nth_mono [OF assms(1), of i j] by simp
  ultimately show ?thesis by (intro that [of "xs ! i" "xs ! j"]) auto
qed

text \<open>
  C24. Under every collation of the database, the listing of recovery owners on well-formed rows
  either returns distinct owners that have due lifecycle or effect work, at most the limit, and
  leaves an owner with due work out only when the limit is reached by owners whose work has been due
  as long; or it raises \<open>RepositoryDataError\<close>, and then two owners first due at the same instant are
  collated against the order of their code points. The tables do not change.
\<close>

theorem recovery_lists_every_owner:
  assumes rows: "recovery_rows_ok db" and times: "in_datetime_range due" "in_datetime_range cutoff"
    and limit: "1 \<le> limit" "limit \<le> 1000"
  shows "case list_recovery_owners coll (utc due) (utc cutoff) limit db of
      (Inr owners, db') \<Rightarrow> db' = db \<and> distinct owners \<and> int (length owners) \<le> limit \<and>
        (\<forall>owner \<in> set owners. \<exists>t. (owner, t) \<in> set (recoverable_work due cutoff db)) \<and>
        (\<forall>(owner, t) \<in> set (recoverable_work due cutoff db). owner \<in> set owners \<or>
           int (length owners) = limit \<and>
           (\<forall>first \<in> set owners. \<exists>u \<le> t. (first, u) \<in> set (recoverable_work due cutoff db)))
    | (Inl e, db') \<Rightarrow> db' = db \<and> e = err RepositoryDataError \<and>
        (\<exists>x y t. (x, t) \<in> set (group_min (recoverable_work due cutoff db)) \<and>
           (y, t) \<in> set (group_min (recoverable_work due cutoff db)) \<and> coll x \<le> coll y \<and> y < x)"
proof -
  let ?work = "recoverable_work due cutoff db"
  let ?page = "recovery_page coll due cutoff limit db"
  note call = recovery_page_result [OF rows times limit, of coll]
  have bound: "int (length (map fst ?page)) \<le> limit"
    using length_sql_page [of "\<lambda>_. True" "recovery_key coll" "nat limit" "group_min ?work"] limit(1)
    by simp
  have sound: "(owner, t) \<in> set (group_min ?work)" if "(owner, t) \<in> set ?page" for owner t
    using that by (rule sql_page_sound)
  have full: "owner \<in> set (map fst ?page) \<or> int (length (map fst ?page)) = limit \<and>
      (\<forall>first \<in> set (map fst ?page). \<exists>u \<le> t. (first, u) \<in> set ?work)" if "(owner, t) \<in> set ?work" for owner t
  proof (cases "owner \<in> set (map fst ?page)")
    case False
    from group_min_covers [OF that] obtain m where m: "m \<le> t" "(owner, m) \<in> set (group_min ?work)" by blast
    have out: "(owner, m) \<notin> set ?page" using False by force
    from sql_page_full [OF m(2) TrueI out] limit(1) have "int (length (map fst ?page)) = limit" by simp
    moreover have "\<exists>u \<le> t. (first, u) \<in> set ?work" if "first \<in> set (map fst ?page)" for first
    proof -
      from that obtain u where u: "(first, u) \<in> set ?page" by auto
      from sql_page_minimal [OF u m(2) TrueI out] m(1) have "u \<le> t" by (auto simp: less_eq_prod_def)
      with group_min_member(1) [OF sound [OF u]] show ?thesis by blast
    qed
    ultimately show ?thesis by blast
  qed simp
  have "\<exists>t. (owner, t) \<in> set ?work" if "owner \<in> set (map fst ?page)" for owner
    using that group_min_member(1) sound by force
  note returned = recovery_page_distinct [where coll = coll and due = due and cutoff = cutoff and limit = limit and db = db] bound this full
  show ?thesis
  proof (cases "sorted (map (recovery_key id) ?page)")
    case True
    with call have "list_recovery_owners coll (utc due) (utc cutoff) limit db = (Inr (map fst ?page), db)" by simp
    with returned show ?thesis by (simp only: prod.case sum.case) blast
  next
    case False
    then obtain p q where pq: "p \<in> set ?page" "q \<in> set ?page" "recovery_key coll p \<le> recovery_key coll q"
        "recovery_key id q < recovery_key id p"
      using sorted_disagrees [OF sorted_sql_page False] by blast
    then have "snd p = snd q" "coll (fst p) \<le> coll (fst q)" "fst q < fst p"
      by (auto simp: less_eq_prod_def less_prod_def split: prod.splits)
    then have "\<exists>x y t. (x, t) \<in> set (group_min ?work) \<and> (y, t) \<in> set (group_min ?work) \<and> coll x \<le> coll y \<and> y < x"
      using sound pq(1,2) by (metis prod.collapse)
    with False call show ?thesis by simp
  qed
qed

text \<open>A lifecycle operation of one owner and an effect of another, due at the same instant.\<close>

definition due_lifecycle :: lifecycle where
  "due_lifecycle =
     \<lparr>lo_operation_id = ''renew-1'', lo_owner_id = ''Bob'', lo_binding_id = ''bind-3'', lo_kind = RENEW,
      lo_expected_binding_version = 1, lo_expected_lease_sequence = None,
      lo_request_fingerprint = sample_digest, lo_status = PENDING, lo_remote_request_id = ''renew-1'',
      lo_result_digest = None, lo_error_code = None, lo_attempt_count = 0,
      lo_next_attempt_at = Some 5, lo_last_attempt_at = None, lo_reconciled_at = None,
      lo_reconciliation_digest = None, lo_created_at = 0, lo_updated_at = 0, lo_version = 0\<rparr>"

definition due_db :: authority_db where
  "due_db = (authority_sample sample_effect)\<lparr>ad_lifecycles := [due_lifecycle]\<rparr>"

lemma due_rows_ok: "recovery_rows_ok due_db"
  by code_simp

lemma sample_range: "in_datetime_range 5" "in_datetime_range 9"
  by (simp_all add: in_datetime_range_def min_instant_def max_instant_def)

theorem recovery_lists_every_owner_witness:
  "case list_recovery_owners id (utc 5) (utc 9) 10 due_db of
     (Inr owners, db') \<Rightarrow> db' = due_db \<and> distinct owners \<and> int (length owners) \<le> 10
   | (Inl e, db') \<Rightarrow> False"
proof -
  have "\<not> (id x \<le> id y \<and> y < x)" for x y :: string by (simp add: not_less)
  with recovery_lists_every_owner [OF due_rows_ok sample_range, of 10 id] show ?thesis
    by (auto split: prod.splits sum.splits)
qed

lemma sorted_both:
  assumes "sorted (map k xs)" and "sorted (map k' xs)" and "a \<in> set xs" and "b \<in> set xs" and "k a < k b"
  shows "k' a \<le> k' b"
proof -
  obtain i j where i: "i < length xs" "xs ! i = a" and j: "j < length xs" "xs ! j = b"
    using assms(3,4) by (metis in_set_conv_nth)
  have "\<not> j \<le> i"
    using sorted_nth_mono [OF assms(1), of j i] i j assms(5) by auto
  then show ?thesis using sorted_nth_mono [OF assms(2), of i j] i j by auto
qed

text \<open>
  C40. When the database collates two owners the other way round than their code points do, and
  both have been due since the same instant, the listing that holds them raises
  \<open>RepositoryDataError\<close>: the check of the returned order refuses what the query was told to do.
\<close>

theorem recovery_refuses_collation:
  assumes rows: "recovery_rows_ok db" and times: "in_datetime_range due" "in_datetime_range cutoff"
    and limit: "1 \<le> limit" "limit \<le> 1000"
    and room: "int (length (group_min (recoverable_work due cutoff db))) \<le> limit"
    and both: "(a, t) \<in> set (group_min (recoverable_work due cutoff db))"
      "(b, t) \<in> set (group_min (recoverable_work due cutoff db))"
    and order: "coll a < coll b" "b < a"
  shows "list_recovery_owners coll (utc due) (utc cutoff) limit db = (Inl (err RepositoryDataError), db)"
proof -
  let ?page = "recovery_page coll due cutoff limit db"
  have page: "?page = sort_key (recovery_key coll) (group_min (recoverable_work due cutoff db))"
    using room by (simp add: sql_page_def)
  have "\<not> sorted (map (recovery_key id) ?page)"
  proof
    assume "sorted (map (recovery_key id) ?page)"
    from sorted_both [OF _ this, of "recovery_key coll" "(a, t)" "(b, t)"] both order page
    show False by (auto simp: less_prod_def less_eq_prod_def)
  qed
  then show ?thesis using recovery_page_result [OF rows times limit, of coll] by simp
qed

theorem recovery_refuses_collation_witness:
  "list_recovery_owners py_lower (utc 5) (utc 9) 10 due_db = (Inl (err RepositoryDataError), due_db)"
proof (rule recovery_refuses_collation [OF due_rows_ok sample_range, where a = "''ann''" and b = "''Bob''" and t = 5])
  show "int (length (group_min (recoverable_work 5 9 due_db))) \<le> 10" by code_simp
  show "(''ann'', 5) \<in> set (group_min (recoverable_work 5 9 due_db))" by code_simp
  show "(''Bob'', 5) \<in> set (group_min (recoverable_work 5 9 due_db))" by code_simp
  show "py_lower ''ann'' < py_lower ''Bob''" by code_simp
  show "''Bob'' < ''ann''" by code_simp
qed simp_all

end
