(* ===== verification/Revision.thy ===== *)
theory Revision
  imports Domain
begin

text \<open>
  The declared schema lineage of \<open>database/revision.py\<close>: canonical revision numbers and the value
  class that names one target revision with the predecessors a reader may find.
\<close>

definition validate_revision :: "string \<Rightarrow> string res" where
  "validate_revision s =
     (if length s = 7 \<and> s ! 3 = CHR ''.'' \<and> (\<forall>c \<in> set (take 3 s @ drop 4 s). c \<in> set digit_chars)
      then Inr s else Inl (err SchemaRevisionError))"

definition SCHEMA_PREDECESSOR_REVISION :: string where
  "SCHEMA_PREDECESSOR_REVISION = ''089.013''"

definition SCHEMA_REVISION :: string where "SCHEMA_REVISION = ''089.014''"

definition READ_COMPATIBLE_FROM :: string where "READ_COMPATIBLE_FROM = ''066.001''"

definition ADVISORY_LOCK_IDS :: "(int \<times> int) list" where
  "ADVISORY_LOCK_IDS = [(1095980114, 60001), (1095980114, 60002)]"

record data_plane_revision =
  dpr_schema_revision :: string
  dpr_read_compatible_from :: "string list"
  dpr_migration_digest :: string
  dpr_advisory_lock_ids :: "(int \<times> int) list"
  dpr_accepted_predecessor_digests :: "(string \<times> string) list"

fun predecessors_ok :: "string list \<Rightarrow> string list \<Rightarrow> (string \<times> string) list \<Rightarrow> unit res" where
  "predecessors_ok sources seen [] = Inr ()"
| "predecessors_ok sources seen ((revision, digest) # rest) =
     (case validate_revision revision of Inl e \<Rightarrow> Inl e
      | Inr source_revision \<Rightarrow>
        if source_revision \<notin> set sources then Inl (err SchemaRevisionError)
        else if source_revision \<in> set seen then Inl (err SchemaRevisionError)
        else if \<not> lower_hex 64 digest then Inl (err SchemaRevisionError)
        else predecessors_ok sources (source_revision # seen) rest)"

definition make_data_plane_revision :: "data_plane_revision \<Rightarrow> data_plane_revision res" where
  "make_data_plane_revision d =
     (case validate_revision (dpr_schema_revision d) of Inl e \<Rightarrow> Inl e
      | Inr _ \<Rightarrow>
        if dpr_read_compatible_from d = [] then Inl (err SchemaRevisionError)
        else case traverse validate_revision (dpr_read_compatible_from d) of Inl e \<Rightarrow> Inl e
        | Inr sources \<Rightarrow>
          if \<not> distinct sources then Inl (err SchemaRevisionError)
          else if \<not> lower_hex 64 (dpr_migration_digest d) then Inl (err SchemaRevisionError)
          else if dpr_advisory_lock_ids d = [] then Inl (err SchemaRevisionError)
          else case predecessors_ok sources [] (dpr_accepted_predecessor_digests d) of
              Inl e \<Rightarrow> Inl e | Inr _ \<Rightarrow> Inr d)"

definition migration_lock :: "data_plane_revision \<Rightarrow> int \<times> int" where
  "migration_lock d = hd (dpr_advisory_lock_ids d)"

definition accepts_reader_at :: "data_plane_revision \<Rightarrow> string \<Rightarrow> bool res" where
  "accepts_reader_at d revision =
     (case validate_revision revision of Inl e \<Rightarrow> Inl e
      | Inr observed \<Rightarrow>
        Inr (observed = dpr_schema_revision d \<or> observed \<in> set (dpr_read_compatible_from d)))"

definition predecessor_digest_for ::
  "data_plane_revision \<Rightarrow> string option \<Rightarrow> string option res" where
  "predecessor_digest_for d revision =
     (case revision of None \<Rightarrow> Inr None
      | Some r \<Rightarrow>
        (case validate_revision r of Inl e \<Rightarrow> Inl e
         | Inr observed \<Rightarrow>
           Inr (map_option snd
                  (List.find (\<lambda>(p, _). p = observed) (dpr_accepted_predecessor_digests d)))))"

lemma validate_revision_Inr: "validate_revision s = Inr t \<Longrightarrow> t = s"
  by (auto simp: validate_revision_def split: if_splits)

lemma validate_revision_again: "validate_revision s = Inr t \<Longrightarrow> validate_revision t = Inr t"
  using validate_revision_Inr by fastforce

lemma validate_revision_printable:
  assumes "validate_revision s = Inr t"
  shows "pg_text s"
proof -
  from assms have len: "length s = 7" and dot: "s ! 3 = CHR ''.''"
    and digits: "\<forall>c \<in> set (take 3 s @ drop 4 s). c \<in> set digit_chars"
    by (simp_all add: validate_revision_def split: if_splits)
  have "s = take 3 s @ s ! 3 # drop 4 s"
    using id_take_nth_drop [of 3 s] len by simp
  from arg_cong [where f = set, OF this]
  have "set s = insert (CHR ''.'') (set (take 3 s @ drop 4 s))" by (simp add: dot)
  moreover have "CHR 0x00 \<notin> set digit_chars" by (simp add: digit_chars_def)
  ultimately show ?thesis using digits unfolding pg_text_def by auto
qed

text \<open>
  A declared lineage answers every reader: each accepted predecessor is a revision a reader may
  find, and its digest is the one declared for it.
\<close>

lemma predecessors_ok_sound:
  assumes "predecessors_ok sources seen ps = Inr ()"
  shows "distinct (map fst ps) \<and> set (map fst ps) \<subseteq> set sources - set seen \<and>
    (\<forall>(p, d) \<in> set ps. validate_revision p = Inr p \<and> lower_hex 64 d)"
  using assms
proof (induction sources seen ps rule: predecessors_ok.induct)
  case (2 sources seen revision digest rest)
  then show ?case
    by (auto split: sum.splits if_splits dest: validate_revision_Inr)
qed simp

lemma find_by_first:
  "distinct (map fst ps) \<Longrightarrow> (p, h) \<in> set ps \<Longrightarrow> List.find (\<lambda>(q, _). q = p) ps = Some (p, h)"
proof (induction ps)
  case (Cons x ps)
  then show ?case by (cases x) force
qed simp

lemma predecessor_is_readable:
  assumes "make_data_plane_revision d = Inr d'" and "(p, h) \<in> set (dpr_accepted_predecessor_digests d)"
  shows "accepts_reader_at d' p = Inr True \<and> predecessor_digest_for d' (Some p) = Inr (Some h)"
proof -
  from assms(1) obtain sources where d': "d' = d"
    and srcs: "traverse validate_revision (dpr_read_compatible_from d) = Inr sources"
    and pre: "predecessors_ok sources [] (dpr_accepted_predecessor_digests d) = Inr ()"
    by (auto simp: make_data_plane_revision_def split: sum.splits if_splits)
  have eq: "sources = dpr_read_compatible_from d"
  proof -
    have "list_all2 (=) (dpr_read_compatible_from d) sources"
      using srcs unfolding traverse_Inr_iff
      by (rule list_all2_mono) (drule validate_revision_Inr, simp)
    then show ?thesis by (simp add: list.rel_eq)
  qed
  note sound = predecessors_ok_sound [OF pre]
  from sound assms(2) have p: "validate_revision p = Inr p" "p \<in> set (dpr_read_compatible_from d)"
    unfolding eq by force+
  have "List.find (\<lambda>(q, _). q = p) (dpr_accepted_predecessor_digests d) = Some (p, h)"
    using conjunct1 [OF sound] assms(2) by (rule find_by_first)
  with p show ?thesis by (simp add: accepts_reader_at_def predecessor_digest_for_def d')
qed

end
