(* ===== verification/ReconciliationStore.thy ===== *)
theory ReconciliationStore
  imports Transactions Revision
begin

text \<open>
  The durable markers of product reconciliation: \<open>reconciliation_store.py\<close>, the marker types of
  \<open>contracts/__init__.py\<close> and the table \<open>astralplane_reconciliation_marker\<close> of
  \<open>database/migrations.py\<close>.

  The state is one connection to the server, with the session object that uses it. Every call of
  the driver takes the next entry of a script of faults: it may fail before or after its effect,
  with an exception of the driver or with an interrupt, and a statement, a commit, a rollback and
  a close are such calls. The theorems hold for every script. A statement stands for the whole
  sequence of cursor calls; \<open>updated_at\<close>, which no statement reads, is left out.
\<close>

subsection \<open>Markers\<close>

datatype marker_state = STARTED | COMPLETED | FAILED

fun state_value :: "marker_state \<Rightarrow> string" where
  "state_value STARTED = ''started''"
| "state_value COMPLETED = ''completed''"
| "state_value FAILED = ''failed''"

record hook_identity =
  hi_name :: string
  hi_version :: string

record reconciliation_marker =
  mk_schema_revision :: string
  mk_plan_digest :: string
  mk_hook :: hook_identity
  mk_state :: marker_state
  mk_attempt :: int
  mk_result_digest :: "string option"
  mk_error_type :: "string option"

definition safe_identity :: "string \<Rightarrow> bool" where
  "safe_identity = head_then alnum_chars (alnum_chars @ ''._-'') 127"

definition validate_digest :: "string \<Rightarrow> string res" where
  "validate_digest s = (if lower_hex 64 s then Inr s else Inl (err ReconciliationError))"

definition validate_hook :: "hook_identity \<Rightarrow> hook_identity res" where
  "validate_hook h =
     (if safe_identity (hi_name h) \<and> safe_identity (hi_version h) then Inr h
      else Inl (err ReconciliationError))"

subsection \<open>The table\<close>

record marker_row =
  row_schema_revision :: string
  row_plan_digest :: string
  row_hook_name :: string
  row_hook_version :: string
  row_state :: string
  row_attempt :: int
  row_result_digest :: "string option"
  row_error_type :: "string option"

type_synonym marker_key = "string \<times> string \<times> string \<times> string"

definition row_key :: "marker_row \<Rightarrow> marker_key" where
  "row_key r = (row_schema_revision r, row_plan_digest r, row_hook_name r, row_hook_version r)"

definition marker_row_ok :: "marker_row \<Rightarrow> bool" where
  "marker_row_ok r =
     (pg_text (row_schema_revision r) \<and> pg_text (row_hook_name r) \<and> pg_text (row_hook_version r) \<and>
      (\<forall>e \<in> set_option (row_error_type r). pg_text e) \<and>
      lower_hex 64 (row_plan_digest r) \<and>
      row_state r \<in> {''started'', ''completed'', ''failed''} \<and>
      0 < row_attempt r \<and> row_attempt r \<le> MAX_INTEGER \<and>
      (\<forall>d \<in> set_option (row_result_digest r). lower_hex 64 d) \<and>
      (row_state r = ''started'' \<and> row_result_digest r = None \<and> row_error_type r = None \<or>
       row_state r = ''completed'' \<and> row_result_digest r \<noteq> None \<and> row_error_type r = None \<or>
       row_state r = ''failed'' \<and> row_result_digest r = None \<and> row_error_type r \<noteq> None))"

definition marker_conflict :: "marker_row \<Rightarrow> marker_row \<Rightarrow> bool" where
  "marker_conflict r s = (row_key r = row_key s)"

text \<open>A statement: the row it returns, if any, and the table it leaves.\<close>

type_synonym marker_statement = "marker_row list \<Rightarrow> sql_error + marker_row option \<times> marker_row list"

definition GET_MARKER_SQL :: "marker_key \<Rightarrow> marker_statement" where
  "GET_MARKER_SQL p t = Inr (first_row (filter (\<lambda>r. row_key r = p) t), t)"

definition first_marker :: "marker_key \<Rightarrow> marker_row" where
  "first_marker p =
     (case p of (revision, digest, name, version) \<Rightarrow>
        \<lparr>row_schema_revision = revision, row_plan_digest = digest, row_hook_name = name,
         row_hook_version = version, row_state = ''started'', row_attempt = 1,
         row_result_digest = None, row_error_type = None\<rparr>)"

definition restartable :: "marker_row \<Rightarrow> bool" where
  "restartable r =
     (row_result_digest r = None \<and>
      (row_state r = ''started'' \<and> row_error_type r = None \<or>
       row_state r = ''failed'' \<and> (\<exists>e \<in> set_option (row_error_type r). safe_identity e)))"

definition restarted :: "marker_row \<Rightarrow> marker_row" where
  "restarted r = r\<lparr>row_state := ''started'', row_attempt := row_attempt r + 1,
     row_result_digest := None, row_error_type := None\<rparr>"

definition MARK_STARTED_SQL :: "marker_key \<Rightarrow> marker_statement" where
  "MARK_STARTED_SQL p t =
     (case sql_insert_or_skip marker_row_ok marker_conflict marker_conflict (first_marker p) t of
        Inl e \<Rightarrow> Inl e
      | Inr (Some r, t') \<Rightarrow> Inr (Some r, t')
      | Inr (None, _) \<Rightarrow>
        map_sum id (\<lambda>(rows, t'). (first_row rows, t'))
          (sql_update marker_row_ok marker_conflict (\<lambda>r. row_key r = p \<and> restartable r)
             restarted t))"

definition still_started :: "marker_key \<Rightarrow> marker_row \<Rightarrow> bool" where
  "still_started p r =
     (row_key r = p \<and> row_state r = ''started'' \<and> row_result_digest r = None \<and>
      row_error_type r = None)"

definition MARK_COMPLETED_SQL :: "string \<Rightarrow> marker_key \<Rightarrow> marker_statement" where
  "MARK_COMPLETED_SQL digest p t =
     map_sum id (\<lambda>(rows, t'). (first_row rows, t'))
       (sql_update marker_row_ok marker_conflict (still_started p)
          (\<lambda>r. r\<lparr>row_state := ''completed'', row_result_digest := Some digest,
             row_error_type := None\<rparr>) t)"

definition MARK_FAILED_SQL :: "string \<Rightarrow> marker_key \<Rightarrow> marker_statement" where
  "MARK_FAILED_SQL error_type p t =
     map_sum id (\<lambda>(rows, t'). (first_row rows, t'))
       (sql_update marker_row_ok marker_conflict (still_started p)
          (\<lambda>r. r\<lparr>row_state := ''failed'', row_result_digest := None,
             row_error_type := Some error_type\<rparr>) t)"

subsection \<open>The connection\<close>

datatype fault = Fine | Breaks | Breaks_late | Interrupts | Interrupts_late

record recon_conn =
  rc_committed :: "marker_row list"
  rc_working :: "marker_row list"    \<comment> \<open>what the open transaction sees\<close>
  rc_open :: bool
  rc_locks :: nat                    \<comment> \<open>session advisory locks held\<close>
  rc_dict_rows :: bool               \<comment> \<open>whether the cursor returns mappings or tuples\<close>
  rc_active :: bool                  \<comment> \<open>\<open>_active\<close> of the session object\<close>
  rc_script :: "fault list"
  rc_calls :: "(marker_key \<times> int) list"   \<comment> \<open>calls of the hooks so far, with their attempt\<close>

fun faulty :: "fault \<Rightarrow> ('s, 'a) tx \<Rightarrow> ('s, 'a) tx" where
  "faulty Fine m s = m s"
| "faulty Breaks m s = (Inl OperationalError, s)"
| "faulty Breaks_late m s = (Inl OperationalError, snd (m s))"
| "faulty Interrupts m s = (Inl PyInterrupt, s)"
| "faulty Interrupts_late m s = (Inl PyInterrupt, snd (m s))"

definition next_fault :: "recon_conn \<Rightarrow> fault \<times> recon_conn" where
  "next_fault s =
     (case rc_script s of [] \<Rightarrow> (Fine, s) | f # fs \<Rightarrow> (f, s\<lparr>rc_script := fs\<rparr>))"

definition driver_call :: "(recon_conn, 'a) tx \<Rightarrow> (recon_conn, 'a) tx" where
  "driver_call m s =
     (case next_fault s of (f, s1) \<Rightarrow>
        if rc_open s1 then faulty f m s1 else (Inl OperationalError, s1))"

definition conn_commit :: "(recon_conn, unit) tx" where
  "conn_commit = driver_call (\<lambda>s. (Inr (), s\<lparr>rc_committed := rc_working s\<rparr>))"

definition conn_rollback :: "(recon_conn, unit) tx" where
  "conn_rollback = driver_call (\<lambda>s. (Inr (), s\<lparr>rc_working := rc_committed s\<rparr>))"

text \<open>The server ends the transaction and the locks of a closed connection.\<close>

definition conn_close :: "(recon_conn, unit) tx" where
  "conn_close =
     driver_call (\<lambda>s. (Inr (), s\<lparr>rc_open := False, rc_working := rc_committed s, rc_locks := 0\<rparr>))"

definition MARKER_COLUMNS :: "string list" where
  "MARKER_COLUMNS = [''schema_revision'', ''plan_digest'', ''hook_name'', ''hook_version'',
     ''state'', ''attempt'', ''result_digest'', ''error_type'']"

fun nullable :: "string option \<Rightarrow> pyval" where
  "nullable None = PNone"
| "nullable (Some s) = PStr s"

definition marker_values :: "marker_row \<Rightarrow> pyval list" where
  "marker_values r = [PStr (row_schema_revision r), PStr (row_plan_digest r),
     PStr (row_hook_name r), PStr (row_hook_version r), PStr (row_state r), PInt (row_attempt r),
     nullable (row_result_digest r), nullable (row_error_type r)]"

definition fetched :: "bool \<Rightarrow> string list \<Rightarrow> pyval list \<Rightarrow> driver_row" where
  "fetched dict_rows names values =
     (if dict_rows then Mapping_row (zip (map PStr names) values) else Sequence_row values)"

type_synonym fetched_row = "driver_row option \<times> string list option"

definition query :: "marker_statement \<Rightarrow> (recon_conn, fetched_row) tx" where
  "query stmt s =
     (case stmt (rc_working s) of Inl e \<Rightarrow> (Inl (DriverError e), s)
      | Inr (r, t) \<Rightarrow>
        (Inr (map_option (\<lambda>x. fetched (rc_dict_rows s) MARKER_COLUMNS (marker_values x)) r,
              Some MARKER_COLUMNS),
         s\<lparr>rc_working := t\<rparr>))"

subsection \<open>Reading a row back\<close>

definition row_mapping :: "driver_row \<Rightarrow> string list option \<Rightarrow> (pyval \<times> pyval) list res" where
  "row_mapping row description =
     (let values =
        (case row of Mapping_row kvs \<Rightarrow> Inr kvs
         | Sequence_row items \<Rightarrow>
           (let names = column_names description in
            if length names \<noteq> length items then Inl (err ReconciliationError)
            else Inr (dict_of (zip names items)))
         | Other_row \<Rightarrow> Inl (err ReconciliationError))
      in case values of Inl e \<Rightarrow> Inl e
         | Inr kvs \<Rightarrow>
           if set (map fst kvs) \<noteq> set (map PStr MARKER_COLUMNS) then Inl (err ReconciliationError)
           else Inr kvs)"

definition column :: "(pyval \<times> pyval) list \<Rightarrow> string \<Rightarrow> pyval" where
  "column kvs name = (case map_of kvs (PStr name) of Some v \<Rightarrow> v | None \<Rightarrow> PNone)"

fun str_column :: "pyval \<Rightarrow> string res" where
  "str_column (PStr s) = Inr s"
| "str_column _ = Inl (err ReconciliationError)"

fun nullable_column :: "pyval \<Rightarrow> string option res" where
  "nullable_column PNone = Inr None"
| "nullable_column (PStr s) = Inr (Some s)"
| "nullable_column _ = Inl (err ReconciliationError)"

fun hook_columns :: "pyval \<Rightarrow> pyval \<Rightarrow> hook_identity res" where
  "hook_columns (PStr n) (PStr v) = validate_hook \<lparr>hi_name = n, hi_version = v\<rparr>"
| "hook_columns _ _ = Inl (err ReconciliationError)"

fun state_column :: "pyval \<Rightarrow> marker_state res" where
  "state_column (PStr s) =
     (case List.find (\<lambda>x. state_value x = s) [STARTED, COMPLETED, FAILED] of
        Some x \<Rightarrow> Inr x | None \<Rightarrow> Inl (err ReconciliationError))"
| "state_column _ = Inl (err ReconciliationError)"

fun attempt_column :: "pyval \<Rightarrow> int res" where
  "attempt_column (PInt n) = (if n < 1 then Inl (err ReconciliationError) else Inr n)"
| "attempt_column _ = Inl (err ReconciliationError)"

text \<open>The shape of the result and error columns in each state.\<close>

fun marker_shape :: "marker_state \<Rightarrow> string option \<Rightarrow> string option \<Rightarrow> bool" where
  "marker_shape STARTED result error = (result = None \<and> error = None)"
| "marker_shape COMPLETED result error =
     ((\<exists>d \<in> set_option result. lower_hex 64 d) \<and> error = None)"
| "marker_shape FAILED result error = (result = None \<and> (\<exists>e \<in> set_option error. safe_identity e))"

definition marker_from_row ::
  "driver_row \<Rightarrow> string list option \<Rightarrow> reconciliation_marker res" where
  "marker_from_row row description =
     res_bind (row_mapping row description) (\<lambda>values.
     res_bind (str_column (column values ''schema_revision'')) (\<lambda>revision.
     res_bind (validate_revision revision) (\<lambda>_.
     res_bind (str_column (column values ''plan_digest'')) (\<lambda>plan_digest.
     res_bind (validate_digest plan_digest) (\<lambda>_.
     res_bind (hook_columns (column values ''hook_name'') (column values ''hook_version'')) (\<lambda>hook.
     res_bind (state_column (column values ''state'')) (\<lambda>state.
     res_bind (attempt_column (column values ''attempt'')) (\<lambda>attempt.
     res_bind (nullable_column (column values ''result_digest'')) (\<lambda>result.
     res_bind (nullable_column (column values ''error_type'')) (\<lambda>error.
     if marker_shape state result error
     then Inr \<lparr>mk_schema_revision = revision, mk_plan_digest = plan_digest, mk_hook = hook,
               mk_state = state, mk_attempt = attempt, mk_result_digest = result,
               mk_error_type = error\<rparr>
     else Inl (err ReconciliationError)))))))))))"

subsection \<open>The session\<close>

record recon_session =
  rs_schema_revision :: string
  rs_plan_digest :: string

definition make_session :: "string \<Rightarrow> string \<Rightarrow> recon_session res" where
  "make_session revision digest =
     res_bind (validate_revision revision) (\<lambda>r.
     res_bind (validate_digest digest) (\<lambda>d.
     Inr \<lparr>rs_schema_revision = r, rs_plan_digest = d\<rparr>))"

definition deactivate :: "recon_conn \<Rightarrow> recon_conn" where
  "deactivate s = s\<lparr>rc_active := False\<rparr>"

definition session_discard :: "recon_conn \<Rightarrow> recon_conn" where
  "session_discard s = snd (conn_close (deactivate s))"

definition parameters :: "recon_session \<Rightarrow> hook_identity \<Rightarrow> marker_key res" where
  "parameters ss h =
     map_sum id (\<lambda>x. (rs_schema_revision ss, rs_plan_digest ss, hi_name x, hi_version x))
       (validate_hook h)"

definition rollback_after_failure :: "recon_conn \<Rightarrow> recon_conn" where
  "rollback_after_failure s =
     (case conn_rollback s of (Inl _, s1) \<Rightarrow> session_discard s1 | (Inr _, s1) \<Rightarrow> s1)"

text \<open>An interrupt passes through unchanged, every other exception is reported as one class.\<close>

definition reported :: "plane_error \<Rightarrow> plane_error" where
  "reported e = (if e = PyInterrupt then e else err ReconciliationError)"

definition read_row :: "marker_statement \<Rightarrow> (recon_conn, fetched_row) tx" where
  "read_row stmt s =
     (if \<not> rc_active s then (Inl (err ReconciliationError), s)
      else case driver_call (query stmt) s of
          (Inl e, s1) \<Rightarrow> (Inl (reported e), rollback_after_failure s1)
        | (Inr x, s1) \<Rightarrow> (Inr x, s1))"

definition same_marker :: "recon_session \<Rightarrow> hook_identity \<Rightarrow> reconciliation_marker \<Rightarrow> bool" where
  "same_marker ss h m =
     (mk_schema_revision m = rs_schema_revision ss \<and> mk_plan_digest m = rs_plan_digest ss \<and>
      mk_hook m = h)"

definition commit_marker ::
  "recon_session \<Rightarrow> hook_identity \<Rightarrow> marker_state \<Rightarrow> marker_statement
     \<Rightarrow> (recon_conn, reconciliation_marker) tx" where
  "commit_marker ss h expected stmt s =
     (case read_row stmt s of
        (Inl e, s1) \<Rightarrow> (Inl e, s1)
      | (Inr (None, _), s1) \<Rightarrow> (Inl (err ReconciliationError), rollback_after_failure s1)
      | (Inr (Some row, description), s1) \<Rightarrow>
        (case marker_from_row row description of
           Inl e \<Rightarrow> (Inl (reported e), rollback_after_failure s1)
         | Inr m \<Rightarrow>
           if \<not> same_marker ss h m \<or> mk_state m \<noteq> expected
           then (Inl (err ReconciliationError), rollback_after_failure s1)
           else (case conn_commit s1 of
               (Inl e, s2) \<Rightarrow> (Inl (reported e), session_discard (rollback_after_failure s2))
             | (Inr _, s2) \<Rightarrow> (Inr m, s2))))"

definition get_marker ::
  "recon_session \<Rightarrow> hook_identity \<Rightarrow> (recon_conn, reconciliation_marker option) tx" where
  "get_marker ss h s =
     (case parameters ss h of Inl e \<Rightarrow> (Inl e, s)
      | Inr p \<Rightarrow>
        (case read_row (GET_MARKER_SQL p) s of
           (Inl e, s1) \<Rightarrow> (Inl e, s1)
         | (Inr (row, description), s1) \<Rightarrow>
           (case (case row of None \<Rightarrow> Inr None
                  | Some r \<Rightarrow> map_sum id Some (marker_from_row r description)) of
              Inl e \<Rightarrow> (Inl e, rollback_after_failure s1)
            | Inr marker \<Rightarrow>
              if \<exists>m \<in> set_option marker. \<not> same_marker ss h m
              then (Inl (err ReconciliationError), rollback_after_failure s1)
              else (case conn_rollback s1 of
                  (Inl e, s2) \<Rightarrow> (Inl (reported e), session_discard s2)
                | (Inr _, s2) \<Rightarrow> (Inr marker, s2)))))"

definition mark_started ::
  "recon_session \<Rightarrow> hook_identity \<Rightarrow> (recon_conn, reconciliation_marker) tx" where
  "mark_started ss h =
     tx_bind (tx_lift (parameters ss h)) (\<lambda>p. commit_marker ss h STARTED (MARK_STARTED_SQL p))"

definition mark_completed ::
  "recon_session \<Rightarrow> hook_identity \<Rightarrow> string \<Rightarrow> (recon_conn, reconciliation_marker) tx" where
  "mark_completed ss h result_digest =
     tx_bind (tx_lift (validate_digest result_digest)) (\<lambda>d.
     tx_bind (tx_lift (parameters ss h)) (\<lambda>p.
     commit_marker ss h COMPLETED (MARK_COMPLETED_SQL d p)))"

definition mark_failed ::
  "recon_session \<Rightarrow> hook_identity \<Rightarrow> string \<Rightarrow> (recon_conn, reconciliation_marker) tx" where
  "mark_failed ss h error_type =
     tx_bind (tx_require (safe_identity error_type) (err ReconciliationError)) (\<lambda>_.
     tx_bind (tx_lift (parameters ss h)) (\<lambda>p.
     commit_marker ss h FAILED (MARK_FAILED_SQL error_type p)))"

subsection \<open>The coordinator\<close>

definition RECONCILIATION_ADVISORY_LOCK :: "int \<times> int" where
  "RECONCILIATION_ADVISORY_LOCK = (1095980114, 60002)"

definition coordinator_discard :: "recon_conn \<Rightarrow> recon_conn" where
  "coordinator_discard s = snd (conn_close s)"

definition lock_query :: "(recon_conn, driver_row option) tx" where
  "lock_query s =
     (Inr (Some (fetched (rc_dict_rows s) [''pg_advisory_lock''] [PStr []])),
      s\<lparr>rc_locks := rc_locks s + 1\<rparr>)"

definition unlock_query :: "(recon_conn, fetched_row) tx" where
  "unlock_query s =
     (Inr (Some (fetched (rc_dict_rows s) [''unlocked''] [PBool (0 < rc_locks s)]),
           Some [''unlocked'']),
      s\<lparr>rc_locks := rc_locks s - 1\<rparr>)"

text \<open>What \<open>_acquire\<close> and \<open>_release\<close> do with an exception: roll back, close, report.\<close>

definition or_discard :: "(recon_conn, 'a) tx \<Rightarrow> (recon_conn, 'a) tx" where
  "or_discard m s =
     (case m s of
        (Inl e, s1) \<Rightarrow> (Inl (reported e), coordinator_discard (snd (conn_rollback s1)))
      | (Inr x, s1) \<Rightarrow> (Inr x, s1))"

definition acquire :: "(recon_conn, unit) tx" where
  "acquire =
     or_discard (tx_bind (driver_call lock_query) (\<lambda>row.
       if row = None then tx_raise (err ReconciliationError) else conn_commit))"

definition unlocked_value :: "fetched_row \<Rightarrow> pyval" where
  "unlocked_value fr =
     (case fr of
        (Some (Mapping_row kvs), _) \<Rightarrow> column kvs ''unlocked''
      | (Some (Sequence_row [v]), description) \<Rightarrow>
        if column_names description = [''unlocked''] then v else PNone
      | _ \<Rightarrow> PNone)"

definition release_lock :: "(recon_conn, unit) tx" where
  "release_lock =
     or_discard (tx_bind (driver_call unlock_query) (\<lambda>fr.
       if unlocked_value fr \<noteq> PBool True then tx_raise (err ReconciliationError)
       else conn_commit))"

definition held_session ::
  "string \<Rightarrow> string \<Rightarrow> (recon_session \<Rightarrow> (recon_conn, 'a) tx) \<Rightarrow> (recon_conn, 'a) tx" where
  "held_session revision digest body c =
     (case acquire c of (Inl e, c1) \<Rightarrow> (Inl e, c1)
      | (Inr _, c1) \<Rightarrow>
        (let (r, c2) = (case make_session revision digest of Inl e \<Rightarrow> (Inl e, c1)
                        | Inr ss \<Rightarrow> (case body ss (c1\<lparr>rc_active := True\<rparr>) of
                                       (r, s) \<Rightarrow> (r, deactivate s)));
             (released, c3) = release_lock c2
         in case r of Inl e \<Rightarrow> (Inl e, c3)
            | Inr x \<Rightarrow> (case released of Inl e \<Rightarrow> (Inl e, c3) | Inr _ \<Rightarrow> (Inr x, c3))))"

text \<open>
  The driver pool of one server: a connection that was closed is opened again, and fetching or
  returning one may fail as any other call does.
\<close>

definition connect :: "recon_conn \<Rightarrow> recon_conn" where
  "connect s =
     (if rc_open s then s\<lparr>rc_working := rc_committed s\<rparr>
      else s\<lparr>rc_open := True, rc_working := rc_committed s, rc_locks := 0\<rparr>)"

definition recon_pool :: "(recon_conn, recon_conn) driver_pool" where
  "recon_pool =
     \<lparr>dp_getconn = (\<lambda>p. case next_fault p of (f, p1) \<Rightarrow>
        faulty f (\<lambda>p. (Inr (0, connect p), p)) p1),
      dp_putconn = (\<lambda>_ c close _. case next_fault c of (f, c1) \<Rightarrow>
        faulty f (\<lambda>c. (Inr (), if close then c\<lparr>rc_open := False, rc_working := rc_committed c,
                                             rc_locks := 0\<rparr> else c)) c1),
      dp_closeall = (\<lambda>p. (Inr (), p\<lparr>rc_open := False\<rparr>))\<rparr>"

definition coordinate ::
  "int \<times> int \<Rightarrow> string \<Rightarrow> string \<Rightarrow> (recon_session \<Rightarrow> (recon_conn, 'a) tx)
     \<Rightarrow> (recon_conn pool, 'a) tx" where
  "coordinate advisory_lock schema_revision plan_digest body =
     tx_bind (tx_require (advisory_lock = RECONCILIATION_ADVISORY_LOCK) (err ReconciliationError)) (\<lambda>_.
     tx_bind (tx_lift (validate_revision schema_revision)) (\<lambda>revision.
     tx_bind (tx_lift (validate_digest plan_digest)) (\<lambda>digest.
     pool_connection conn_rollback recon_pool (\<lambda>i c P.
       case held_session revision digest body c of (r, c1) \<Rightarrow> (r, c1, P)))))"

subsection \<open>The markers advance\<close>

text \<open>
  A marker is versioned by its attempt and by whether that attempt has ended; a completed one is
  frozen.
\<close>

definition marker_version :: "marker_row \<Rightarrow> int" where
  "marker_version r = 2 * row_attempt r + (if row_state r = ''started'' then 0 else 1)"

definition row_completed :: "marker_row \<Rightarrow> bool" where
  "row_completed r = (row_state r = ''completed'')"

interpretation markers: fenced_table marker_row_ok marker_conflict row_key marker_version row_completed
  by unfold_locales (auto simp: marker_conflict_def)

abbreviation markers_ok :: "marker_row list \<Rightarrow> bool" where
  "markers_ok \<equiv> table_ok marker_row_ok marker_conflict"

lemma map_sum_Inr_iff: "map_sum f g r = Inr y \<longleftrightarrow> (\<exists>x. r = Inr x \<and> y = g x)"
  by (cases r) auto

lemma first_row_filter: "first_row (filter w t) = Some r \<Longrightarrow> r \<in> set t \<and> w r"
proof -
  assume "first_row (filter w t) = Some r"
  then obtain rs where "filter w t = r # rs" by (auto simp: first_row_iff)
  then have "r \<in> set (filter w t)" by simp
  then show ?thesis by simp
qed

text \<open>What every statement promises: it moves the table forward and returns a row of its key.\<close>

locale keyed_statement =
  fixes stmt :: marker_statement
    and p :: marker_key
  assumes stmt_evolves: "stmt t = Inr (x, t') \<Longrightarrow> markers.evo t t'"
    and stmt_row: "stmt t = Inr (Some r, t') \<Longrightarrow> r \<in> set t' \<and> row_key r = p"
begin

lemma stmt_markers_ok: "stmt t = Inr (x, t') \<Longrightarrow> markers_ok t \<Longrightarrow> markers_ok t'"
  using stmt_evolves by (auto simp: evolves_def)

end

interpretation reading: keyed_statement "GET_MARKER_SQL p" p for p
proof unfold_locales
  show "GET_MARKER_SQL p t = Inr (Some r, t') \<Longrightarrow> r \<in> set t' \<and> row_key r = p" for t r t'
    by (auto simp: GET_MARKER_SQL_def dest!: first_row_filter)
qed (auto simp: GET_MARKER_SQL_def markers.ev.order_refl)

lemma row_key_updates [simp]:
  "row_key (r\<lparr>row_state := st\<rparr>) = row_key r" "row_key (r\<lparr>row_attempt := n\<rparr>) = row_key r"
  "row_key (r\<lparr>row_result_digest := d\<rparr>) = row_key r" "row_key (r\<lparr>row_error_type := e\<rparr>) = row_key r"
  by (simp_all add: row_key_def)

lemma row_key_restarted [simp]: "row_key (restarted r) = row_key r"
  by (simp add: restarted_def)

lemma row_key_first_marker [simp]: "row_key (first_marker p) = p"
  by (cases p) (simp add: first_marker_def row_key_def)

lemma restartable_version:
  "restartable r \<Longrightarrow> marker_version r < marker_version (restarted r) \<and> \<not> row_completed r"
  by (auto simp: restartable_def restarted_def marker_version_def row_completed_def)

lemma mark_started_cases:
  assumes "MARK_STARTED_SQL p t = Inr (x, t')"
  obtains (fresh) "x = Some (first_marker p)" "\<forall>r \<in> set t. row_key r \<noteq> p" "t' = t @ [first_marker p]"
      "sql_insert_or_skip marker_row_ok marker_conflict marker_conflict (first_marker p) t = Inr (x, t')"
  | (again) rows where "x = first_row rows"
      "sql_update marker_row_ok marker_conflict (\<lambda>r. row_key r = p \<and> restartable r) restarted t =
        Inr (rows, t')"
  using assms unfolding MARK_STARTED_SQL_def
  by (auto simp: sql_insert_or_skip_def marker_conflict_def map_sum_Inr_iff
      split: if_splits option.splits sum.splits)

lemma update_first:
  assumes "sql_update ok conf w f t = Inr (rows, t')" and "first_row rows = Some q"
  obtains r where "r \<in> set t" "w r" "q = f r" "q \<in> set t'"
  using assms sql_update_returned [of ok conf w f t q _ t'] by (auto simp: first_row_iff)

interpretation starting: keyed_statement "MARK_STARTED_SQL p" p for p
proof unfold_locales
  show "markers.evo t t'" if "MARK_STARTED_SQL p t = Inr (x, t')" for t x t'
    using that
  proof (cases rule: mark_started_cases)
    case fresh
    from fresh(4) show ?thesis by (rule markers.evolves_insert_or_skip)
  next
    case (again rows)
    from again(2) show ?thesis
      by (rule markers.evolves_update) (simp add: restartable_version)
  qed
  show "r \<in> set t' \<and> row_key r = p" if "MARK_STARTED_SQL p t = Inr (Some r, t')" for t r t'
    using that
  proof (cases rule: mark_started_cases)
    case (again rows)
    from again(2) again(1) [symmetric] show ?thesis by (rule update_first) simp
  qed auto
qed

text \<open>The two statements that end an attempt differ in what they write only.\<close>

lemma ending_statement:
  assumes stmt: "\<And>t. stmt t = map_sum id (\<lambda>(rows, t'). (first_row rows, t'))
      (sql_update marker_row_ok marker_conflict (still_started p) f t)"
    and f: "\<And>r. row_key (f r) = row_key r \<and> row_attempt (f r) = row_attempt r \<and>
      row_state (f r) \<noteq> ''started''"
  shows "keyed_statement stmt p"
proof
  show "markers.evo t t'" if "stmt t = Inr (x, t')" for t x t'
  proof -
    from that obtain rows where
      "sql_update marker_row_ok marker_conflict (still_started p) f t = Inr (rows, t')"
      by (auto simp: stmt map_sum_Inr_iff)
    then show ?thesis
      by (rule markers.evolves_update)
        (use f in \<open>auto simp: still_started_def marker_version_def row_completed_def\<close>)
  qed
  show "r \<in> set t' \<and> row_key r = p" if "stmt t = Inr (Some r, t')" for t r t'
  proof -
    from that obtain rows where
      "sql_update marker_row_ok marker_conflict (still_started p) f t = Inr (rows, t')"
      "first_row rows = Some r"
      by (auto simp: stmt map_sum_Inr_iff)
    then show ?thesis by (rule update_first) (use f in \<open>auto simp: still_started_def\<close>)
  qed
qed

interpretation completing: keyed_statement "MARK_COMPLETED_SQL d p" p for d p
  by (rule ending_statement) (auto simp: MARK_COMPLETED_SQL_def)

interpretation failing: keyed_statement "MARK_FAILED_SQL e p" p for e p
  by (rule ending_statement) (auto simp: MARK_FAILED_SQL_def)

subsection \<open>Every call of the driver keeps the order\<close>

text \<open>
  What may be committed at any moment continues what is committed. The order between two states
  of a connection: no hook was called, and the committed markers moved forward.
\<close>

definition conn_ok :: "recon_conn \<Rightarrow> bool" where
  "conn_ok s \<longleftrightarrow> markers_ok (rc_committed s) \<and> markers.evo (rc_committed s) (rc_working s)"

definition store_order :: "recon_conn \<Rightarrow> recon_conn \<Rightarrow> bool" where
  "store_order s s' \<longleftrightarrow>
     rc_calls s' = rc_calls s \<and>
     (conn_ok s \<longrightarrow> conn_ok s' \<and> markers.evo (rc_committed s) (rc_committed s'))"

interpretation store: step_order store_order
proof
  show "store_order s s" for s by (simp add: store_order_def markers.ev.order_refl)
  show "store_order s u" if "store_order s t" "store_order t u" for s t u
    using that unfolding store_order_def by (metis markers.ev.order_trans)
qed

lemma conn_ok_markers: "conn_ok s \<Longrightarrow> markers_ok (rc_committed s) \<and> markers_ok (rc_working s)"
  by (auto simp: conn_ok_def evolves_def)

lemma next_fault_fields:
  assumes "next_fault s = (f, s1)"
  shows "rc_committed s1 = rc_committed s" "rc_working s1 = rc_working s" "rc_open s1 = rc_open s"
    "rc_locks s1 = rc_locks s" "rc_active s1 = rc_active s" "rc_calls s1 = rc_calls s"
    "rc_dict_rows s1 = rc_dict_rows s"
  using assms by (auto simp: next_fault_def split: list.splits)

lemma next_fault_order: "next_fault s = (f, s1) \<Longrightarrow> store_order s s1"
  using next_fault_fields [of s f s1] by (simp add: store_order_def conn_ok_def markers.ev.order_refl)

lemma faulty_order:
  assumes "tx_rel store_order m"
  shows "store_order s (snd (faulty f m s))"
  using assms by (cases f) (auto simp: tx_rel_def store.order_refl)

lemma driver_call_order [intro]:
  assumes "tx_rel store_order m"
  shows "tx_rel store_order (driver_call m)"
proof (rule tx_relI)
  fix s
  obtain f s1 where s1: "next_fault s = (f, s1)" by fastforce
  with store.order_trans [OF next_fault_order [OF s1] faulty_order [OF assms]]
  show "store_order s (snd (driver_call m s))"
    by (simp add: driver_call_def next_fault_order)
qed

lemma conn_call_order:
  "tx_rel store_order conn_commit" "tx_rel store_order conn_rollback" "tx_rel store_order conn_close"
  unfolding conn_commit_def conn_rollback_def conn_close_def
  by (intro driver_call_order tx_relI;
      auto simp: store_order_def conn_ok_def markers.ev.order_refl evolves_def markers.advances_refl)+

lemma discard_order: "store_order s (session_discard s)" "store_order s (coordinator_discard s)"
proof -
  have "store_order s (deactivate s)"
    by (simp add: store_order_def conn_ok_def deactivate_def markers.ev.order_refl)
  with conn_call_order(3) show "store_order s (session_discard s)"
    unfolding session_discard_def tx_rel_def by (blast intro: store.order_trans)
  from conn_call_order(3) show "store_order s (coordinator_discard s)"
    unfolding coordinator_discard_def tx_rel_def by blast
qed

lemma rollback_after_failure_order: "store_order s (rollback_after_failure s)"
  using tx_relD [OF conn_call_order(2), of s] discard_order(1)
  by (fastforce simp: rollback_after_failure_def split: prod.split sum.split intro: store.order_trans)

context keyed_statement
begin

lemma query_order: "tx_rel store_order (query stmt)"
proof (rule tx_relI)
  fix s
  show "store_order s (snd (query stmt s))"
  proof (cases "stmt (rc_working s)")
    case (Inr y)
    then obtain x t where y: "stmt (rc_working s) = Inr (x, t)" by (cases y) auto
    from stmt_evolves [OF y] have "conn_ok s \<Longrightarrow> markers.evo (rc_committed s) t"
      unfolding conn_ok_def by (blast intro: markers.ev.order_trans)
    with y show ?thesis
      by (simp add: query_def store_order_def conn_ok_def markers.ev.order_refl)
  qed (simp add: query_def store.order_refl)
qed

lemma read_row_order: "tx_rel store_order (read_row stmt)"
proof (rule tx_relI)
  fix s
  obtain r s1 where call: "driver_call (query stmt) s = (r, s1)" by fastforce
  from tx_relD [OF driver_call_order [OF query_order] this] rollback_after_failure_order [of s1]
  show "store_order s (snd (read_row stmt s))"
    by (auto simp: read_row_def call store.order_refl split: sum.split intro: store.order_trans)
qed

lemma commit_marker_order: "tx_rel store_order (commit_marker ss h expected stmt)"
proof (rule tx_relI)
  fix s
  obtain r s1 where call: "read_row stmt s = (r, s1)" by fastforce
  have s1: "store_order s s1" by (rule tx_relD [OF read_row_order call])
  have undone: "store_order s (rollback_after_failure s1)"
    by (rule store.order_trans [OF s1 rollback_after_failure_order])
  obtain u s2 where com: "conn_commit s1 = (u, s2)" by fastforce
  have s2: "store_order s s2"
    by (rule store.order_trans [OF s1 tx_relD [OF conn_call_order(1) com]])
  then have "store_order s (session_discard (rollback_after_failure s2))"
    by (blast intro: store.order_trans rollback_after_failure_order discard_order)
  with s1 s2 undone show "store_order s (snd (commit_marker ss h expected stmt s))"
    by (auto simp: commit_marker_def call com split: sum.split option.split prod.split)
qed

end

lemma get_marker_order: "tx_rel store_order (get_marker ss h)"
proof (rule tx_relI)
  fix s
  show "store_order s (snd (get_marker ss h s))"
  proof (cases "parameters ss h")
    case (Inr p)
    obtain r s1 where call: "read_row (GET_MARKER_SQL p) s = (r, s1)" by fastforce
    have s1: "store_order s s1" by (rule tx_relD [OF reading.read_row_order call])
    have undone: "store_order s (rollback_after_failure s1)"
      by (rule store.order_trans [OF s1 rollback_after_failure_order])
    obtain u s2 where rb: "conn_rollback s1 = (u, s2)" by fastforce
    have s2: "store_order s s2"
      by (rule store.order_trans [OF s1 tx_relD [OF conn_call_order(2) rb]])
    then have "store_order s (session_discard s2)"
      by (blast intro: store.order_trans discard_order)
    with s1 s2 undone Inr show ?thesis
      by (auto simp: get_marker_def call rb split: sum.split option.split prod.split)
  qed (simp add: get_marker_def store.order_refl)
qed

lemma marking_order:
  "tx_rel store_order (mark_started ss h)" "tx_rel store_order (mark_completed ss h d)"
  "tx_rel store_order (mark_failed ss h e)"
  unfolding mark_started_def mark_completed_def mark_failed_def
  by (intro store.rel_bind store.rel_pure starting.commit_marker_order completing.commit_marker_order
      failing.commit_marker_order)+

lemma or_discard_order:
  assumes "tx_rel store_order m"
  shows "tx_rel store_order (or_discard m)"
proof (rule tx_relI)
  fix s
  obtain r s1 where m: "m s = (r, s1)" by fastforce
  have s1: "store_order s s1" by (rule tx_relD [OF assms m])
  have "store_order s (coordinator_discard (snd (conn_rollback s1)))"
    using s1 conn_call_order(2) unfolding tx_rel_def
    by (blast intro: store.order_trans discard_order)
  with s1 show "store_order s (snd (or_discard m s))"
    by (auto simp: or_discard_def m split: sum.split)
qed

lemma lock_query_order: "tx_rel store_order lock_query" "tx_rel store_order unlock_query"
  by (auto intro!: tx_relI simp: lock_query_def unlock_query_def store_order_def conn_ok_def
      markers.ev.order_refl)

lemma lock_order: "tx_rel store_order acquire" "tx_rel store_order release_lock"
  unfolding acquire_def release_lock_def
  by (intro or_discard_order store.rel_bind store.rel_if store.rel_pure driver_call_order
      conn_call_order lock_query_order)+

subsection \<open>Reading back what a row holds\<close>

definition row_marker :: "marker_row \<Rightarrow> reconciliation_marker \<Rightarrow> bool" where
  "row_marker r m \<longleftrightarrow>
     mk_schema_revision m = row_schema_revision r \<and> mk_plan_digest m = row_plan_digest r \<and>
     mk_hook m = \<lparr>hi_name = row_hook_name r, hi_version = row_hook_version r\<rparr> \<and>
     state_value (mk_state m) = row_state r \<and> mk_attempt m = row_attempt r \<and>
     mk_result_digest m = row_result_digest r \<and> mk_error_type m = row_error_type r"

lemma nullable_column_nullable [simp]: "nullable_column (nullable x) = Inr x"
  by (cases x) auto

lemma row_mapping_fetched:
  "row_mapping (fetched b MARKER_COLUMNS (marker_values r)) (Some MARKER_COLUMNS) =
     Inr (zip (map PStr MARKER_COLUMNS) (marker_values r))"
  by (cases b)
    (simp_all add: row_mapping_def fetched_def MARKER_COLUMNS_def marker_values_def column_names_def
      dict_of_def)

lemma column_fetched:
  "column (zip (map PStr MARKER_COLUMNS) (marker_values r)) ''schema_revision'' =
     PStr (row_schema_revision r)"
  "column (zip (map PStr MARKER_COLUMNS) (marker_values r)) ''plan_digest'' = PStr (row_plan_digest r)"
  "column (zip (map PStr MARKER_COLUMNS) (marker_values r)) ''hook_name'' = PStr (row_hook_name r)"
  "column (zip (map PStr MARKER_COLUMNS) (marker_values r)) ''hook_version'' =
     PStr (row_hook_version r)"
  "column (zip (map PStr MARKER_COLUMNS) (marker_values r)) ''state'' = PStr (row_state r)"
  "column (zip (map PStr MARKER_COLUMNS) (marker_values r)) ''attempt'' = PInt (row_attempt r)"
  "column (zip (map PStr MARKER_COLUMNS) (marker_values r)) ''result_digest'' =
     nullable (row_result_digest r)"
  "column (zip (map PStr MARKER_COLUMNS) (marker_values r)) ''error_type'' =
     nullable (row_error_type r)"
  by (simp_all add: column_def MARKER_COLUMNS_def marker_values_def)

abbreviation decoded :: "bool \<Rightarrow> marker_row \<Rightarrow> reconciliation_marker res" where
  "decoded b r \<equiv>
     marker_from_row (fetched b MARKER_COLUMNS (marker_values r)) (Some MARKER_COLUMNS)"

lemma state_column_iff: "state_column (PStr v) = Inr x \<longleftrightarrow> state_value x = v"
  by (cases x) auto

lemma decoded_row_marker:
  assumes "decoded b r = Inr m"
  shows "row_marker r m"
  using assms
  unfolding marker_from_row_def row_mapping_fetched res_bind_Inr_iff
  by (auto simp: column_fetched row_marker_def state_column_iff validate_hook_def
      simp del: state_column.simps split: if_splits)

text \<open>A row the store wrote is read back, whichever form the cursor gives it.\<close>

lemma decoded_stored_row:
  assumes "marker_row_ok r" and "row_key r = p" and "parameters ss h = Inr p"
    and "make_session revision digest = Inr ss"
    and "\<And>e. row_error_type r = Some e \<Longrightarrow> safe_identity e"
  obtains m where "decoded b r = Inr m" "row_marker r m" "same_marker ss h m"
proof -
  from assms(4) obtain rv where ss: "rs_schema_revision ss = rv" "validate_revision revision = Inr rv"
    "lower_hex 64 (rs_plan_digest ss)"
    by (auto simp: make_session_def res_bind_Inr_iff validate_digest_def split: if_splits)
  from assms(2,3) have key: "row_schema_revision r = rs_schema_revision ss"
    "row_plan_digest r = rs_plan_digest ss"
    "h = \<lparr>hi_name = row_hook_name r, hi_version = row_hook_version r\<rparr>" and hook: "validate_hook h = Inr h"
    by (auto simp: parameters_def row_key_def map_sum_Inr_iff validate_hook_def split: if_splits)
  have rv: "validate_revision (row_schema_revision r) = Inr (row_schema_revision r)"
    using validate_revision_again [OF ss(2)] key(1) ss(1) by simp
  obtain st where st: "state_column (PStr (row_state r)) = Inr st"
    "marker_shape st (row_result_digest r) (row_error_type r)"
    using assms(1,5) unfolding marker_row_ok_def by fastforce
  have "0 < row_attempt r" using assms(1) by (simp add: marker_row_ok_def)
  then obtain m where "decoded b r = Inr m"
    unfolding marker_from_row_def row_mapping_fetched
    using rv hook ss(3) st
    by (simp add: column_fetched validate_digest_def key(2) key(3) [symmetric] del: state_column.simps)
  moreover from decoded_row_marker [OF this] have "row_marker r m" .
  ultimately show ?thesis
    using that key by (simp add: same_marker_def row_marker_def)
qed

subsection \<open>What an operation of the session leaves behind\<close>

text \<open>An active session has no transaction open between two operations.\<close>

definition settled :: "recon_conn \<Rightarrow> bool" where
  "settled s \<longleftrightarrow> (rc_active s \<longrightarrow> rc_working s = rc_committed s)"

lemma next_fault_script:
  assumes "next_fault s = (f, s1)"
  obtains fs where "s1 = s\<lparr>rc_script := fs\<rparr>"
proof (cases "rc_script s")
  case Nil
  then have "s1 = s\<lparr>rc_script := []\<rparr>" using assms by (cases s) (auto simp: next_fault_def)
  then show ?thesis by (rule that)
next
  case (Cons g gs)
  with assms have "s1 = s\<lparr>rc_script := gs\<rparr>" by (auto simp: next_fault_def)
  then show ?thesis by (rule that)
qed

lemma driver_call_success:
  assumes "driver_call m s = (Inr x, s')"
  obtains fs where "m (s\<lparr>rc_script := fs\<rparr>) = (Inr x, s')" "rc_open s"
proof -
  obtain f s1 where s1: "next_fault s = (f, s1)" by fastforce
  have "rc_open s1 = rc_open s" by (rule next_fault_fields(3) [OF s1])
  with assms s1 have "rc_open s" "faulty f m s1 = (Inr x, s')"
    by (simp_all add: driver_call_def split: if_splits)
  then have "rc_open s" "m s1 = (Inr x, s')" by (cases f; simp)+
  moreover obtain fs where "s1 = s\<lparr>rc_script := fs\<rparr>" using s1 by (rule next_fault_script)
  ultimately show ?thesis using that by simp
qed

lemma conn_success:
  "conn_commit s = (Inr u, s') \<Longrightarrow> \<exists>fs. s' = s\<lparr>rc_script := fs, rc_committed := rc_working s\<rparr>"
  "conn_rollback s = (Inr u, s') \<Longrightarrow> \<exists>fs. s' = s\<lparr>rc_script := fs, rc_working := rc_committed s\<rparr>"
  unfolding conn_commit_def conn_rollback_def
  by (auto elim!: driver_call_success)

lemma faulty_active:
  "(\<And>s. rc_active (snd (m s)) = rc_active s) \<Longrightarrow> rc_active (snd (faulty f m s)) = rc_active s"
  by (cases f) auto

lemma discard_inactive [simp]: "\<not> rc_active (session_discard s)"
proof -
  let ?close = "\<lambda>s. (Inr (), s\<lparr>rc_open := False, rc_working := rc_committed s, rc_locks := 0\<rparr>)"
  obtain f s1 where s1: "next_fault (deactivate s) = (f, s1)" by fastforce
  have "\<not> rc_active s1" using next_fault_fields(5) [OF s1] by (simp add: deactivate_def)
  with faulty_active [of ?close f s1] show ?thesis
    by (simp add: session_discard_def conn_close_def driver_call_def s1)
qed

lemma settled_inactive: "\<not> rc_active s \<Longrightarrow> settled s"
  by (simp add: settled_def)

lemma settled_discard: "settled (session_discard s)"
  by (simp add: settled_inactive)

lemma settled_rollback_after_failure: "settled (rollback_after_failure s)"
proof (cases "conn_rollback s")
  case (Pair r s1)
  then show ?thesis
    using conn_success(2) [of s _ s1]
    by (cases r) (auto simp: rollback_after_failure_def settled_discard settled_def)
qed

lemma read_row_failure_settled: "read_row stmt s = (Inl e, s') \<Longrightarrow> settled s'"
  by (auto simp: read_row_def settled_rollback_after_failure settled_inactive
      split: if_splits prod.splits sum.splits)

lemma read_row_success:
  assumes "read_row stmt s = (Inr (x, d), s')"
  obtains r t fs where "stmt (rc_working s) = Inr (r, t)" "rc_active s" "d = Some MARKER_COLUMNS"
    "x = map_option (\<lambda>r. fetched (rc_dict_rows s) MARKER_COLUMNS (marker_values r)) r"
    "s' = s\<lparr>rc_script := fs, rc_working := t\<rparr>"
proof -
  from assms have act: "rc_active s" and call: "driver_call (query stmt) s = (Inr (x, d), s')"
    by (auto simp: read_row_def split: if_splits prod.splits sum.splits)
  from call obtain fs where "query stmt (s\<lparr>rc_script := fs\<rparr>) = (Inr (x, d), s')"
    by (rule driver_call_success)
  with act that show ?thesis
    by (auto simp: query_def split: sum.splits prod.splits)
qed

lemma commit_marker_settled: "settled (snd (commit_marker ss h expected stmt s))"
proof (cases "read_row stmt s")
  case (Pair r s1)
  obtain u s2 where com: "conn_commit s1 = (u, s2)" by fastforce
  have "settled s2" if "u = Inr ()"
    using conn_success(1) [of s1 "()" s2] com that by (auto simp: settled_def)
  then show ?thesis
    using Pair com read_row_failure_settled [of stmt s]
    by (auto simp: commit_marker_def settled_rollback_after_failure settled_discard
        split: sum.split option.split prod.split)
qed

lemma marking_settled:
  assumes "settled s"
  shows "settled (snd (mark_started ss h s))" "settled (snd (mark_completed ss h d s))"
    "settled (snd (mark_failed ss h e s))"
  using assms commit_marker_settled
  by (auto simp: mark_started_def mark_completed_def mark_failed_def tx_bind_def tx_lift_def
      tx_require_def split: sum.split)

lemma commit_marker_success:
  assumes "commit_marker ss h expected stmt s = (Inr m, s')"
  obtains r t fs where "stmt (rc_working s) = Inr (Some r, t)" "row_marker r m" "mk_state m = expected"
    "rc_active s" "s' = s\<lparr>rc_script := fs, rc_committed := t, rc_working := t\<rparr>"
proof -
  from assms obtain row d s1 where read: "read_row stmt s = (Inr (Some row, d), s1)"
    and row: "marker_from_row row d = Inr m" and m: "mk_state m = expected"
    and com: "conn_commit s1 = (Inr (), s')"
    by (auto simp: commit_marker_def split: prod.splits sum.splits option.splits if_splits)
  from read obtain q t fs where q: "stmt (rc_working s) = Inr (q, t)" "rc_active s"
      "d = Some MARKER_COLUMNS"
      "Some row = map_option (\<lambda>r. fetched (rc_dict_rows s) MARKER_COLUMNS (marker_values r)) q"
      "s1 = s\<lparr>rc_script := fs, rc_working := t\<rparr>"
    by (rule read_row_success)
  from q(4) obtain r where "q = Some r" by (cases q) auto
  with q have r: "stmt (rc_working s) = Inr (Some r, t)" "rc_active s" "d = Some MARKER_COLUMNS"
      "row = fetched (rc_dict_rows s) MARKER_COLUMNS (marker_values r)"
      "s1 = s\<lparr>rc_script := fs, rc_working := t\<rparr>" by simp_all
  from row have "row_marker r m" unfolding r by (rule decoded_row_marker)
  moreover from conn_success(1) [OF com] obtain gs where
    "s' = s1\<lparr>rc_script := gs, rc_committed := rc_working s1\<rparr>" by blast
  then have "s' = s\<lparr>rc_script := gs, rc_committed := t, rc_working := t\<rparr>" by (simp add: r(5))
  ultimately show ?thesis using r(1,2) m by (intro that)
qed

lemma get_marker_settled:
  assumes "settled s"
  shows "settled (snd (get_marker ss h s))"
proof (cases "parameters ss h")
  case (Inr p)
  obtain r s1 where read: "read_row (GET_MARKER_SQL p) s = (r, s1)" by fastforce
  obtain u s2 where rb: "conn_rollback s1 = (u, s2)" by fastforce
  have "settled s2" if "u = Inr ()"
    using conn_success(2) [of s1 "()" s2] rb that by (auto simp: settled_def)
  with Inr read rb show ?thesis
    using read_row_failure_settled [of "GET_MARKER_SQL p" s]
    by (auto simp: get_marker_def settled_rollback_after_failure settled_discard
        split: sum.split option.split prod.split)
qed (use assms in \<open>simp add: get_marker_def\<close>)

lemma get_marker_success:
  assumes "get_marker ss h s = (Inr x, s')" and "settled s"
  obtains p fs where "parameters ss h = Inr p" "s' = s\<lparr>rc_script := fs\<rparr>" "rc_active s"
    "\<forall>m. x = Some m \<longrightarrow> (\<exists>r \<in> set (rc_committed s). row_key r = p \<and> row_marker r m)"
    "x = None \<longrightarrow> (\<forall>r \<in> set (rc_committed s). row_key r \<noteq> p)"
proof -
  from assms(1) obtain p row d s1 where p: "parameters ss h = Inr p"
    and read: "read_row (GET_MARKER_SQL p) s = (Inr (row, d), s1)"
    and row: "(case row of None \<Rightarrow> Inr None | Some r \<Rightarrow> map_sum id Some (marker_from_row r d)) = Inr x"
    and rb: "conn_rollback s1 = (Inr (), s')"
    by (auto simp: get_marker_def split: prod.splits sum.splits if_splits)
  from read obtain r t fs where r: "GET_MARKER_SQL p (rc_working s) = Inr (r, t)" "rc_active s"
      "d = Some MARKER_COLUMNS"
      "row = map_option (\<lambda>r. fetched (rc_dict_rows s) MARKER_COLUMNS (marker_values r)) r"
      "s1 = s\<lparr>rc_script := fs, rc_working := t\<rparr>"
    by (rule read_row_success)
  from assms(2) r(2) have "rc_working s = rc_committed s" by (simp add: settled_def)
  with r(1) have first: "r = first_row (filter (\<lambda>r. row_key r = p) (rc_committed s))"
    and t: "t = rc_committed s" by (auto simp: GET_MARKER_SQL_def)
  from conn_success(2) [OF rb] obtain gs where s': "s' = s\<lparr>rc_script := gs\<rparr>"
    using \<open>rc_working s = rc_committed s\<close> by (cases s) (auto simp: r(5))
  have some: "\<exists>r \<in> set (rc_committed s). row_key r = p \<and> row_marker r m" if "x = Some m" for m
  proof -
    from row that r(3,4) obtain q where q: "r = Some q" "decoded (rc_dict_rows s) q = Inr m"
      by (cases r) (auto simp: map_sum_Inr_iff)
    from first q(1) have "q \<in> set (rc_committed s) \<and> row_key q = p"
      by (intro first_row_filter) simp
    with decoded_row_marker [OF q(2)] show ?thesis by blast
  qed
  have none: "\<forall>r \<in> set (rc_committed s). row_key r \<noteq> p" if "x = None"
  proof -
    from row that r(4) have "r = None" by (cases r) (auto simp: map_sum_Inr_iff)
    with first have "first_row (filter (\<lambda>r. row_key r = p) (rc_committed s)) = None" by simp
    then show ?thesis by (simp add: first_row_iff filter_empty_conv)
  qed
  from p s' r(2) some none show ?thesis by (intro that) auto
qed

end
