(* ===== verification/Reconciliation.thy ===== *)
theory Reconciliation
  imports ReconciliationStore Json Sha256
begin

text \<open>
  The runner of product reconciliation, \<open>reconciliation.py\<close>, over the store of the theory before.

  A hook is product code and so an argument: its identity, and what its \<open>reconcile\<close> does at each
  call, as a function of the context and of the number of hooks called so far. What it returns is
  given as the document \<open>json.dumps\<close> prints for it, or as a value the encoder refuses. A hook
  touches product data only, never the markers.
\<close>

subsection \<open>Plans\<close>

datatype hook_outcome =
    Returns_none
  | Returns_json json
  | Returns_other  \<comment> \<open>no mapping of non-empty strings, or not printable\<close>
  | Hook_raises string  \<comment> \<open>an \<open>Exception\<close>, by the name of its class\<close>
  | Hook_interrupts

record product_reconciler =
  pr_name :: string
  pr_version :: string
  pr_reconcile :: "(string \<times> pyval) list \<Rightarrow> nat \<Rightarrow> hook_outcome"

record reconciliation_plan =
  pl_schema_revision :: string
  pl_plan_digest :: string
  pl_hooks :: "hook_identity list"

record hook_report =
  hr_hook :: hook_identity
  hr_attempt :: int
  hr_already_complete :: bool
  hr_result_digest :: string

record reconciliation_report =
  rp_schema_revision :: string
  rp_plan_digest :: string
  rp_advisory_lock :: "int \<times> int"
  rp_hooks :: "hook_report list"
  rp_durably_complete :: bool

definition canonical_plan_digest :: "string \<Rightarrow> hook_identity list \<Rightarrow> string" where
  "canonical_plan_digest schema_revision hooks =
     sha256_hex (utf8 (json_dumps True (JObj
       [(''hooks'', JArr (map (\<lambda>h. JObj [(''name'', JStr (hi_name h)),
                                         (''version'', JStr (hi_version h))]) hooks)),
        (''schemaRevision'', JStr schema_revision)])))"

definition object_digest :: "(string \<times> json) list \<Rightarrow> string res" where
  "object_digest kvs =
     (if \<exists>(k, _) \<in> set kvs. k = [] then Inl (err ReconciliationError)
      else Inr (sha256_hex (utf8 (json_dumps False (JObj kvs)))))"

fun result_digest :: "hook_outcome \<Rightarrow> string res" where
  "result_digest Returns_none = object_digest []"
| "result_digest (Returns_json (JObj kvs)) = object_digest kvs"
| "result_digest _ = Inl (err ReconciliationError)"

definition validate_marker ::
  "reconciliation_plan \<Rightarrow> hook_identity \<Rightarrow> marker_state option \<Rightarrow> reconciliation_marker
     \<Rightarrow> reconciliation_marker res" where
  "validate_marker plan hook expected m =
     (if mk_schema_revision m \<noteq> pl_schema_revision plan \<or> mk_plan_digest m \<noteq> pl_plan_digest plan \<or>
         mk_hook m \<noteq> hook then Inl (err ReconciliationError)
      else if mk_attempt m < 1 then Inl (err ReconciliationError)
      else if \<exists>st \<in> set_option expected. mk_state m \<noteq> st then Inl (err ReconciliationError)
      else if \<not> marker_shape (mk_state m) (mk_result_digest m) (mk_error_type m)
      then Inl (err ReconciliationError)
      else Inr m)"

fun hook_identities :: "string list \<Rightarrow> product_reconciler list \<Rightarrow> hook_identity list res" where
  "hook_identities names [] = Inr []"
| "hook_identities names (h # hs) =
     (if \<not> safe_identity (pr_name h) \<or> \<not> safe_identity (pr_version h)
      then Inl (err ReconciliationError)
      else if pr_name h \<in> set names then Inl (err ReconciliationError)
      else map_sum id (\<lambda>ids. \<lparr>hi_name = pr_name h, hi_version = pr_version h\<rparr> # ids)
        (hook_identities (pr_name h # names) hs))"

record reconciliation_runner =
  rr_hooks :: "product_reconciler list"
  rr_identities :: "hook_identity list"

definition make_runner :: "product_reconciler list \<Rightarrow> reconciliation_runner res" where
  "make_runner hooks =
     (if hooks = [] then Inl (err ReconciliationError)
      else map_sum id (\<lambda>ids. \<lparr>rr_hooks = hooks, rr_identities = ids\<rparr>) (hook_identities [] hooks))"

definition plan :: "reconciliation_runner \<Rightarrow> string \<Rightarrow> reconciliation_plan res" where
  "plan runner schema_revision =
     map_sum id (\<lambda>revision.
       \<lparr>pl_schema_revision = revision,
        pl_plan_digest = canonical_plan_digest revision (rr_identities runner),
        pl_hooks = rr_identities runner\<rparr>) (validate_revision schema_revision)"

definition plan_digest :: "reconciliation_runner \<Rightarrow> string \<Rightarrow> string res" where
  "plan_digest runner schema_revision = map_sum id pl_plan_digest (plan runner schema_revision)"

subsection \<open>One hook\<close>

definition durable_failure ::
  "recon_session \<Rightarrow> reconciliation_plan \<Rightarrow> hook_identity \<Rightarrow> string
     \<Rightarrow> (recon_conn, reconciliation_marker) tx" where
  "durable_failure ss pl hook error_type =
     tx_bind (mark_failed ss hook error_type) (\<lambda>m.
     tx_lift (validate_marker pl hook (Some FAILED) m))"

text \<open>
  How the \<open>try\<close> block of an attempt fails: with the class name of an exception, or with
  \<open>None\<close> for an interrupt. Its own statements raise \<open>ReconciliationError\<close> only.
\<close>

fun failure_name :: "plane_error \<Rightarrow> string option" where
  "failure_name PyInterrupt = None"
| "failure_name _ = Some ''ReconciliationError''"

definition log_call :: "recon_session \<Rightarrow> hook_identity \<Rightarrow> int \<Rightarrow> recon_conn \<Rightarrow> recon_conn" where
  "log_call ss hook attempt s =
     s\<lparr>rc_calls := rc_calls s @
        [((rs_schema_revision ss, rs_plan_digest ss, hi_name hook, hi_version hook), attempt)]\<rparr>"

definition complete_attempt ::
  "recon_session \<Rightarrow> reconciliation_plan \<Rightarrow> hook_identity \<Rightarrow> reconciliation_marker \<Rightarrow> string
     \<Rightarrow> (recon_conn, reconciliation_marker) tx" where
  "complete_attempt ss pl hook started digest =
     tx_bind (mark_completed ss hook digest) (\<lambda>m.
     tx_bind (tx_lift (validate_marker pl hook (Some COMPLETED) m)) (\<lambda>m.
     tx_bind (tx_require (mk_attempt m = mk_attempt started) (err ReconciliationError)) (\<lambda>_.
     tx_bind (tx_require (mk_result_digest m = Some digest) (err ReconciliationError)) (\<lambda>_.
     tx_return m))))"

definition run_attempt ::
  "product_reconciler \<Rightarrow> (string \<times> pyval) list \<Rightarrow> recon_session \<Rightarrow> reconciliation_plan
     \<Rightarrow> hook_identity \<Rightarrow> int \<Rightarrow> reconciliation_marker
     \<Rightarrow> recon_conn \<Rightarrow> (string option + reconciliation_marker) \<times> recon_conn" where
  "run_attempt h ctx ss pl hook expected_attempt started s =
     (if mk_attempt started \<noteq> expected_attempt then (Inl (Some ''ReconciliationError''), s)
      else
        (let outcome = pr_reconcile h ctx (length (rc_calls s));
             s1 = log_call ss hook (mk_attempt started) s
         in case outcome of
              Hook_raises name \<Rightarrow> (Inl (Some name), s1)
            | Hook_interrupts \<Rightarrow> (Inl None, s1)
            | _ \<Rightarrow>
              (case result_digest outcome of
                 Inl e \<Rightarrow> (Inl (failure_name e), s1)
               | Inr digest \<Rightarrow>
                 (case complete_attempt ss pl hook started digest s1 of
                    (Inl e, s2) \<Rightarrow> (Inl (failure_name e), s2)
                  | (Inr m, s2) \<Rightarrow> (Inr m, s2)))))"

text \<open>
  After the block: an exception is recorded as a failed marker and reported, whether or not that
  succeeds; an interrupt is recorded if possible and passes on.
\<close>

definition fail_attempt ::
  "recon_session \<Rightarrow> reconciliation_plan \<Rightarrow> hook_identity \<Rightarrow> string option
     \<Rightarrow> (recon_conn, 'a) tx" where
  "fail_attempt ss pl hook failure s =
     (case failure of
        Some name \<Rightarrow>
          (case durable_failure ss pl hook name s of
             (Inl e, s1) \<Rightarrow> (Inl (reported e), s1)
           | (Inr _, s1) \<Rightarrow> (Inl (err ReconciliationError), s1))
      | None \<Rightarrow> (Inl PyInterrupt, snd (durable_failure ss pl hook ''Interrupted'' s)))"

definition start_hook ::
  "(string \<times> pyval) list \<Rightarrow> recon_session \<Rightarrow> reconciliation_plan
     \<Rightarrow> product_reconciler \<Rightarrow> hook_identity \<Rightarrow> int \<Rightarrow> (recon_conn, hook_report) tx" where
  "start_hook ctx ss pl h hook expected_attempt =
     tx_bind (mark_started ss hook) (\<lambda>m.
     tx_bind (tx_lift (validate_marker pl hook (Some STARTED) m)) (\<lambda>started s.
     case run_attempt h ctx ss pl hook expected_attempt started s of
       (Inl failure, s1) \<Rightarrow> fail_attempt ss pl hook failure s1
     | (Inr completed, s1) \<Rightarrow>
       (Inr \<lparr>hr_hook = hook, hr_attempt = mk_attempt started, hr_already_complete = False,
             hr_result_digest = the (mk_result_digest completed)\<rparr>, s1)))"

definition run_hook ::
  "(string \<times> pyval) list \<Rightarrow> recon_session \<Rightarrow> reconciliation_plan
     \<Rightarrow> product_reconciler \<times> hook_identity \<Rightarrow> (recon_conn, hook_report) tx" where
  "run_hook ctx ss pl hi =
     (case hi of (h, hook) \<Rightarrow>
        tx_bind (get_marker ss hook) (\<lambda>existing.
        tx_bind (tx_lift (case existing of None \<Rightarrow> Inr None
                          | Some m \<Rightarrow> map_sum id Some (validate_marker pl hook None m))) (\<lambda>existing.
        if \<exists>m \<in> set_option existing. mk_state m = COMPLETED
        then tx_return \<lparr>hr_hook = hook, hr_attempt = mk_attempt (the existing),
               hr_already_complete = True, hr_result_digest = the (mk_result_digest (the existing))\<rparr>
        else start_hook ctx ss pl h hook
               (case existing of None \<Rightarrow> 1 | Some m \<Rightarrow> mk_attempt m + 1))))"

subsection \<open>The run\<close>

fun run_hooks ::
  "(string \<times> pyval) list \<Rightarrow> recon_session \<Rightarrow> reconciliation_plan
     \<Rightarrow> (product_reconciler \<times> hook_identity) list \<Rightarrow> (recon_conn, hook_report list) tx" where
  "run_hooks ctx ss pl [] = tx_return []"
| "run_hooks ctx ss pl (hi # his) =
     tx_bind (run_hook ctx ss pl hi) (\<lambda>r.
     tx_bind (run_hooks ctx ss pl his) (\<lambda>rs.
     tx_return (r # rs)))"

definition verify_hook ::
  "recon_session \<Rightarrow> reconciliation_plan \<Rightarrow> hook_identity \<Rightarrow> (recon_conn, unit) tx" where
  "verify_hook ss pl hook =
     tx_bind (get_marker ss hook) (\<lambda>marker s.
     case (case marker of None \<Rightarrow> Inl (err ReconciliationError)
           | Some m \<Rightarrow> validate_marker pl hook (Some COMPLETED) m) of
       Inr _ \<Rightarrow> (Inr (), s)
     | Inl _ \<Rightarrow> fail_attempt ss pl hook (Some ''CompletionNotDurable'') s)"

fun verify_hooks ::
  "recon_session \<Rightarrow> reconciliation_plan \<Rightarrow> hook_identity list \<Rightarrow> (recon_conn, unit) tx" where
  "verify_hooks ss pl [] = tx_return ()"
| "verify_hooks ss pl (h # hs) = tx_bind (verify_hook ss pl h) (\<lambda>_. verify_hooks ss pl hs)"

definition run_body ::
  "(string \<times> pyval) list \<Rightarrow> reconciliation_runner \<Rightarrow> reconciliation_plan \<Rightarrow> recon_session
     \<Rightarrow> (recon_conn, hook_report list) tx" where
  "run_body ctx runner pl ss =
     tx_bind (run_hooks ctx ss pl (zip (rr_hooks runner) (pl_hooks pl))) (\<lambda>reports.
     tx_bind (verify_hooks ss pl (pl_hooks pl)) (\<lambda>_.
     tx_return reports))"

definition run ::
  "reconciliation_runner \<Rightarrow> string \<Rightarrow> (string \<times> pyval) list
     \<Rightarrow> (recon_conn pool, reconciliation_report) tx" where
  "run runner schema_revision ctx =
     tx_bind (tx_lift (plan runner schema_revision)) (\<lambda>pl.
     tx_bind (coordinate RECONCILIATION_ADVISORY_LOCK (pl_schema_revision pl) (pl_plan_digest pl)
       (run_body ctx runner pl)) (\<lambda>reports.
     tx_return \<lparr>rp_schema_revision = pl_schema_revision pl, rp_plan_digest = pl_plan_digest pl,
       rp_advisory_lock = RECONCILIATION_ADVISORY_LOCK, rp_hooks = reports,
       rp_durably_complete = True\<rparr>))"

subsection \<open>Every call of a hook is a new attempt\<close>

text \<open>
  The calls of hooks between two states of the markers: an attempt runs once, later than every
  attempt of the same hook before it, never for a completed hook, and it was recorded before.
\<close>

definition new_attempts ::
  "marker_row list \<Rightarrow> (marker_key \<times> int) list \<Rightarrow> marker_row list \<Rightarrow> bool" where
  "new_attempts t calls t' \<longleftrightarrow>
     sorted_wrt (\<lambda>(p, a) (q, b). p = q \<longrightarrow> a < b) calls \<and>
     (\<forall>(p, a) \<in> set calls.
        (\<forall>r \<in> set t. row_key r = p \<longrightarrow> \<not> row_completed r \<and> row_attempt r < a) \<and>
        (\<exists>r \<in> set t'. row_key r = p \<and> a \<le> row_attempt r))"

definition recon_order :: "recon_conn \<Rightarrow> recon_conn \<Rightarrow> bool" where
  "recon_order s s' \<longleftrightarrow>
     (conn_ok s \<longrightarrow>
        conn_ok s' \<and> markers.evo (rc_committed s) (rc_committed s') \<and>
        (\<exists>calls. rc_calls s' = rc_calls s @ calls \<and>
           new_attempts (rc_committed s) calls (rc_committed s')))"

lemma evo_row:
  assumes "markers.evo t t'" and "markers_ok t" and "r \<in> set t"
  obtains r' where "r' \<in> set t'" "row_key r' = row_key r" "row_attempt r \<le> row_attempt r'"
    "row_completed r \<Longrightarrow> r' = r"
proof -
  from assms obtain r' where "r' \<in> set t'" "row_key r' = row_key r"
    "r' = r \<or> marker_version r < marker_version r' \<and> \<not> row_completed r"
    unfolding evolves_def advances_def by blast
  with that show ?thesis by (fastforce simp: marker_version_def split: if_splits)
qed

lemma new_attempts_before:
  assumes "markers.evo t u" "markers_ok t" and "\<forall>r \<in> set u. row_key r = p \<longrightarrow> \<not> row_completed r \<and> row_attempt r < a"
    and "r \<in> set t" "row_key r = p"
  shows "\<not> row_completed r \<and> row_attempt r < a"
  using evo_row [OF assms(1,2,4)] assms(3,5) by (metis order_le_less_trans)

lemma new_attempts_after:
  assumes "markers.evo t u" "markers_ok t" and "\<exists>r \<in> set t. row_key r = p \<and> a \<le> row_attempt r"
  shows "\<exists>r \<in> set u. row_key r = p \<and> a \<le> row_attempt r"
proof -
  from assms(3) obtain r where r: "r \<in> set t" "row_key r = p" "a \<le> row_attempt r" by blast
  from assms(1,2) r(1) obtain r' where "r' \<in> set u" "row_key r' = row_key r" "row_attempt r \<le> row_attempt r'"
    by (rule evo_row)
  with r show ?thesis by (metis order_trans)
qed

lemma new_attempts_trans:
  assumes "markers_ok t" "markers_ok u" "markers.evo t u" "markers.evo u v"
    and "new_attempts t xs u" "new_attempts u ys v"
  shows "new_attempts t (xs @ ys) v"
  unfolding new_attempts_def
proof (intro conjI)
  have "a < b" if "(p, a) \<in> set xs" "(p, b) \<in> set ys" for p a b
    using assms(5,6) that unfolding new_attempts_def by fastforce
  then show "sorted_wrt (\<lambda>(p, a) (q, b). p = q \<longrightarrow> a < b) (xs @ ys)"
    using assms(5,6) by (auto simp: new_attempts_def sorted_wrt_append)
  have "(\<forall>r \<in> set t. row_key r = p \<longrightarrow> \<not> row_completed r \<and> row_attempt r < a) \<and>
      (\<exists>r \<in> set v. row_key r = p \<and> a \<le> row_attempt r)" if "(p, a) \<in> set (xs @ ys)" for p a
  proof (cases "(p, a) \<in> set xs")
    case True
    with assms(5) have "\<forall>r \<in> set t. row_key r = p \<longrightarrow> \<not> row_completed r \<and> row_attempt r < a"
      "\<exists>r \<in> set u. row_key r = p \<and> a \<le> row_attempt r" unfolding new_attempts_def by blast+
    with new_attempts_after [OF assms(4,2)] show ?thesis by blast
  next
    case False
    with that assms(6) have "\<forall>r \<in> set u. row_key r = p \<longrightarrow> \<not> row_completed r \<and> row_attempt r < a"
      "\<exists>r \<in> set v. row_key r = p \<and> a \<le> row_attempt r" unfolding new_attempts_def by fastforce+
    with new_attempts_before [OF assms(3,1)] show ?thesis by blast
  qed
  then show "\<forall>(p, a) \<in> set (xs @ ys).
      (\<forall>r \<in> set t. row_key r = p \<longrightarrow> \<not> row_completed r \<and> row_attempt r < a) \<and>
      (\<exists>r \<in> set v. row_key r = p \<and> a \<le> row_attempt r)" by blast
qed

interpretation recon: step_order recon_order
proof
  show "recon_order s s" for s
    by (simp add: recon_order_def new_attempts_def markers.ev.order_refl)
  show "recon_order s u" if st: "recon_order s t" and tu: "recon_order t u" for s t u
    unfolding recon_order_def
  proof
    assume s: "conn_ok s"
    with st obtain xs where xs: "conn_ok t" "markers.evo (rc_committed s) (rc_committed t)"
      "rc_calls t = rc_calls s @ xs" "new_attempts (rc_committed s) xs (rc_committed t)"
      unfolding recon_order_def by blast
    with tu obtain ys where ys: "conn_ok u" "markers.evo (rc_committed t) (rc_committed u)"
      "rc_calls u = rc_calls t @ ys" "new_attempts (rc_committed t) ys (rc_committed u)"
      unfolding recon_order_def by blast
    have "new_attempts (rc_committed s) (xs @ ys) (rc_committed u)"
      using s xs ys by (intro new_attempts_trans) (auto dest: conn_ok_markers)
    with xs ys show "conn_ok u \<and> markers.evo (rc_committed s) (rc_committed u) \<and>
        (\<exists>calls. rc_calls u = rc_calls s @ calls \<and>
           new_attempts (rc_committed s) calls (rc_committed u))"
      by (auto intro: markers.ev.order_trans)
  qed
qed

lemma store_recon_order: "store_order s s' \<Longrightarrow> recon_order s s'"
  by (auto simp: store_order_def recon_order_def new_attempts_def)

lemma store_recon_rel: "tx_rel store_order m \<Longrightarrow> tx_rel recon_order m"
  by (simp add: tx_rel_def store_recon_order)

lemmas recon_store_rel =
  store_recon_rel [OF get_marker_order] store_recon_rel [OF marking_order(1)]
  store_recon_rel [OF marking_order(2)] store_recon_rel [OF marking_order(3)]
  store_recon_rel [OF lock_order(1)] store_recon_rel [OF lock_order(2)]
  store_recon_rel [OF conn_call_order(2)]

lemma mark_started_success:
  assumes "mark_started ss hook s = (Inr m, s1)" and "conn_ok s"
  obtains p r where "parameters ss hook = Inr p" "r \<in> set (rc_committed s1)" "row_key r = p"
    "row_marker r m" "mk_state m = STARTED" "rc_active s1" "settled s1"
    "\<forall>q \<in> set (rc_committed s). row_key q = p \<longrightarrow>
       \<not> row_completed q \<and> row_attempt q < mk_attempt m"
proof -
  from assms(1) obtain p where p: "parameters ss hook = Inr p"
    and com: "commit_marker ss hook STARTED (MARK_STARTED_SQL p) s = (Inr m, s1)"
    by (auto simp: mark_started_def tx_success)
  from com obtain r t fs where r: "MARK_STARTED_SQL p (rc_working s) = Inr (Some r, t)"
      "row_marker r m" "mk_state m = STARTED" "rc_active s"
      "s1 = s\<lparr>rc_script := fs, rc_committed := t, rc_working := t\<rparr>"
    by (rule commit_marker_success)
  from assms(2) have ok: "markers_ok (rc_working s)" "markers_ok (rc_committed s)"
    by (simp_all add: conn_ok_markers)
  have "\<forall>q \<in> set (rc_working s). row_key q = p \<longrightarrow> \<not> row_completed q \<and> row_attempt q < row_attempt r"
    using r(1)
  proof (cases rule: mark_started_cases)
    case (again rows)
    from again(2) again(1) [symmetric] obtain q where q: "q \<in> set (rc_working s)" "row_key q = p"
        "restartable q" "r = restarted q"
      by (rule update_first) simp
    have "\<not> row_completed q \<and> row_attempt q < row_attempt r"
      using restartable_version [OF q(3)] by (simp add: q(4) restarted_def)
    then show ?thesis using markers.key_unique [OF ok(1) _ q(1)] q(2) by metis
  qed auto
  moreover have "row_attempt r = mk_attempt m" using r(2) by (simp add: row_marker_def)
  ultimately have before: "\<forall>q \<in> set (rc_working s). row_key q = p \<longrightarrow>
      \<not> row_completed q \<and> row_attempt q < mk_attempt m" by simp
  have evo: "markers.evo (rc_committed s) (rc_working s)" using assms(2) by (simp add: conn_ok_def)
  have "r \<in> set t \<and> row_key r = p" by (rule starting.stmt_row [OF r(1)])
  with r(4,5) have "r \<in> set (rc_committed s1)" "row_key r = p" "rc_active s1" "settled s1"
    by (simp_all add: settled_def)
  moreover have "\<forall>q \<in> set (rc_committed s). row_key q = p \<longrightarrow>
      \<not> row_completed q \<and> row_attempt q < mk_attempt m"
    using new_attempts_before [OF evo ok(2) before] by blast
  ultimately show ?thesis using p r(2,3) by (intro that)
qed

lemma parameters_key:
  "parameters ss h = Inr p \<Longrightarrow> p = (rs_schema_revision ss, rs_plan_digest ss, hi_name h, hi_version h)"
  by (auto simp: parameters_def map_sum_Inr_iff validate_hook_def split: if_splits)

lemma complete_attempt_order: "tx_rel store_order (complete_attempt ss pl hook started digest)"
  unfolding complete_attempt_def
  by (intro store.rel_bind store.rel_pure marking_order)

lemma durable_failure_order: "tx_rel store_order (durable_failure ss pl hook e)"
  unfolding durable_failure_def by (intro store.rel_bind store.rel_pure marking_order)

lemma fail_attempt_order: "tx_rel store_order (fail_attempt ss pl hook failure)"
proof (rule tx_relI)
  fix s
  have "store_order s (snd (durable_failure ss pl hook e s))" for e
    using durable_failure_order by (simp add: tx_rel_def)
  then show "store_order s (snd (fail_attempt ss pl hook failure s))"
    by (auto simp: fail_attempt_def split: option.split prod.split sum.split) (metis snd_conv)+
qed

lemma log_call_order:
  assumes "mark_started ss hook s = (Inr m, s1)"
  shows "recon_order s (log_call ss hook (mk_attempt m) s1)"
  unfolding recon_order_def
proof
  assume ok: "conn_ok s"
  from assms ok obtain p r where p: "parameters ss hook = Inr p" "r \<in> set (rc_committed s1)"
      "row_key r = p" "row_marker r m" "mk_state m = STARTED" "rc_active s1" "settled s1"
      "\<forall>q \<in> set (rc_committed s). row_key q = p \<longrightarrow>
         \<not> row_completed q \<and> row_attempt q < mk_attempt m"
    by (rule mark_started_success)
  from p have "new_attempts (rc_committed s) [(p, mk_attempt m)] (rc_committed s1)"
    by (auto simp: new_attempts_def row_marker_def)
  moreover have "store_order s s1" by (rule tx_relD [OF marking_order(1) assms])
  ultimately show "conn_ok (log_call ss hook (mk_attempt m) s1) \<and>
      markers.evo (rc_committed s) (rc_committed (log_call ss hook (mk_attempt m) s1)) \<and>
      (\<exists>calls. rc_calls (log_call ss hook (mk_attempt m) s1) = rc_calls s @ calls \<and>
         new_attempts (rc_committed s) calls (rc_committed (log_call ss hook (mk_attempt m) s1)))"
    using ok by (auto simp: log_call_def store_order_def conn_ok_def parameters_key [OF p(1)])
qed

lemma run_attempt_order:
  assumes "mark_started ss hook s = (Inr m, s1)"
  shows "recon_order s (snd (run_attempt h ctx ss pl hook e m s1))"
proof -
  let ?s1 = "log_call ss hook (mk_attempt m) s1"
  have log: "recon_order s ?s1" by (rule log_call_order [OF assms])
  have "recon_order s (snd (complete_attempt ss pl hook m d ?s1))" for d
    using log complete_attempt_order unfolding tx_rel_def
    by (blast intro: recon.order_trans store_recon_order)
  with log store_recon_order [OF tx_relD [OF marking_order(1) assms]] show ?thesis
    by (auto simp: run_attempt_def Let_def split: hook_outcome.split sum.split prod.split)
      (metis snd_conv)+
qed

lemma start_hook_order: "tx_rel recon_order (start_hook ctx ss pl h hook e)"
proof (rule tx_relI)
  fix s
  show "recon_order s (snd (start_hook ctx ss pl h hook e s))"
  proof (cases "mark_started ss hook s")
    case mark: (Pair x s1)
    have s1: "recon_order s s1"
      by (rule store_recon_order [OF tx_relD [OF marking_order(1) mark]])
    show ?thesis
    proof (cases x)
      case (Inr m)
      obtain y s2 where att: "run_attempt h ctx ss pl hook e m s1 = (y, s2)" by fastforce
      have s2: "recon_order s s2"
        using run_attempt_order [OF mark [unfolded Inr], of h ctx pl e] by (simp add: att)
      have "recon_order s (snd (fail_attempt ss pl hook f s2 :: hook_report res \<times> recon_conn))" for f
        using s2 fail_attempt_order unfolding tx_rel_def
        by (blast intro: recon.order_trans store_recon_order)
      with s1 s2 mark Inr att show ?thesis
        by (auto simp: start_hook_def tx_bind_def tx_lift_def validate_marker_def split: sum.split)
    qed (use mark s1 in \<open>simp add: start_hook_def\<close>)
  qed
qed

lemma run_hook_order: "tx_rel recon_order (run_hook ctx ss pl hi)"
  unfolding run_hook_def
  by (intro recon.rel_prod recon.rel_bind recon.rel_pure recon.rel_if recon_store_rel
      start_hook_order)

lemma run_hooks_order: "tx_rel recon_order (run_hooks ctx ss pl his)"
  by (induction his) (auto intro!: recon.rel_bind recon.rel_pure run_hook_order)

lemma verify_hook_order: "tx_rel store_order (verify_hook ss pl h)"
  unfolding verify_hook_def
proof (intro store.rel_bind get_marker_order tx_relI)
  fix x s
  have "store_order s (snd (fail_attempt ss pl h f s))" for f
    using fail_attempt_order unfolding tx_rel_def by blast
  then show "store_order s (snd (case (case x of None \<Rightarrow> Inl (err ReconciliationError)
      | Some m \<Rightarrow> validate_marker pl h (Some COMPLETED) m) of
      Inl _ \<Rightarrow> fail_attempt ss pl h (Some ''CompletionNotDurable'') s | Inr _ \<Rightarrow> (Inr (), s)))"
    by (auto simp: store.order_refl split: sum.split)
qed

lemma verify_hooks_order: "tx_rel store_order (verify_hooks ss pl hs)"
  by (induction hs) (auto intro!: store.rel_bind store.rel_pure verify_hook_order)

lemma run_body_order: "tx_rel recon_order (run_body ctx runner pl ss)"
  unfolding run_body_def
  by (intro recon.rel_bind recon.rel_pure run_hooks_order store_recon_rel [OF verify_hooks_order])

subsection \<open>From one connection to the server\<close>

text \<open>Between two runs only what is committed counts.\<close>

definition server_order :: "recon_conn \<Rightarrow> recon_conn \<Rightarrow> bool" where
  "server_order s s' \<longleftrightarrow> recon_order (connect s) (connect s')"

interpretation server: step_order server_order
  by unfold_locales (auto simp: server_order_def recon.order_refl intro: recon.order_trans)

lemma connect_fields [simp]:
  "rc_committed (connect s) = rc_committed s" "rc_working (connect s) = rc_committed s"
  "rc_calls (connect s) = rc_calls s" "rc_open (connect s)" "rc_script (connect s) = rc_script s"
  "rc_dict_rows (connect s) = rc_dict_rows s" "rc_active (connect s) = rc_active s"
  by (auto simp: connect_def)

lemma conn_ok_connect [simp]: "conn_ok (connect s) \<longleftrightarrow> markers_ok (rc_committed s)"
  by (simp add: conn_ok_def markers.ev.order_refl)

lemma same_committed_order:
  assumes "rc_committed s' = rc_committed s" "rc_calls s' = rc_calls s"
  shows "recon_order s (connect s')"
  using assms
  by (auto simp: recon_order_def new_attempts_def markers.ev.order_refl dest: conn_ok_markers)

lemma active_order: "recon_order s (s\<lparr>rc_active := b\<rparr>)"
  by (auto simp: recon_order_def new_attempts_def conn_ok_def markers.ev.order_refl)

lemma held_session_order:
  assumes "\<And>ss. tx_rel recon_order (body ss)"
  shows "tx_rel recon_order (held_session revision digest body)"
proof (rule tx_relI)
  fix c
  obtain a c1 where acq: "acquire c = (a, c1)" by fastforce
  have c1: "recon_order c c1" by (rule tx_relD [OF recon_store_rel(5) acq])
  have "recon_order c (snd (release_lock c1))"
    using c1 recon_store_rel(6) unfolding tx_rel_def by (blast intro: recon.order_trans)
  moreover have "recon_order c (snd (release_lock (deactivate s)))"
    if "body ss (c1\<lparr>rc_active := True\<rparr>) = (r, s)" for ss r s
  proof -
    have "recon_order c s"
      by (rule recon.order_trans [OF c1 recon.order_trans [OF active_order tx_relD [OF assms that]]])
    then have "recon_order c (deactivate s)"
      unfolding deactivate_def by (rule recon.order_trans [OF _ active_order])
    then show ?thesis
      using recon_store_rel(6) unfolding tx_rel_def by (blast intro: recon.order_trans)
  qed
  ultimately show "recon_order c (snd (held_session revision digest body c))"
    using c1 by (auto simp: held_session_def acq split: sum.split prod.split) (metis snd_conv)+
qed

lemma faulty_fields:
  assumes "\<And>s. f (snd (m s)) = f s"
  shows "f (snd (faulty g m s)) = f s"
  using assms by (cases g) auto

lemma getconn_server:
  assumes "dp_getconn recon_pool p = (x, p')"
  shows "rc_committed p' = rc_committed p" "rc_calls p' = rc_calls p"
    "x = Inr (i, c) \<Longrightarrow> \<exists>p1. c = connect p1 \<and> rc_committed p1 = rc_committed p \<and> rc_calls p1 = rc_calls p"
proof -
  obtain f p1 where nf: "next_fault p = (f, p1)" by fastforce
  with assms have f: "faulty f (\<lambda>p. (Inr (0, connect p), p)) p1 = (x, p')"
    by (simp add: recon_pool_def)
  with next_fault_fields [OF nf] show "rc_committed p' = rc_committed p" "rc_calls p' = rc_calls p"
    "x = Inr (i, c) \<Longrightarrow> \<exists>p1. c = connect p1 \<and> rc_committed p1 = rc_committed p \<and> rc_calls p1 = rc_calls p"
    by (cases f; force)+
qed

lemma putconn_server:
  assumes "dp_putconn recon_pool i c close p = (x, p')"
  shows "rc_committed p' = rc_committed c \<and> rc_calls p' = rc_calls c"
proof -
  obtain f c1 where nf: "next_fault c = (f, c1)" by fastforce
  with assms next_fault_fields [OF nf] show ?thesis
    by (cases f) (auto simp: recon_pool_def)
qed

lemma conn_rollback_committed:
  "rc_committed (snd (conn_rollback c)) = rc_committed c \<and> rc_calls (snd (conn_rollback c)) = rc_calls c"
proof -
  obtain f c1 where nf: "next_fault c = (f, c1)" by fastforce
  with next_fault_fields [OF nf] show ?thesis
    by (cases f) (auto simp: conn_rollback_def driver_call_def)
qed

abbreviation pool_committed :: "recon_conn pool \<Rightarrow> marker_row list" where
  "pool_committed P \<equiv> rc_committed (po_driver_pool P)"

abbreviation pool_calls :: "recon_conn pool \<Rightarrow> (marker_key \<times> int) list" where
  "pool_calls P \<equiv> rc_calls (po_driver_pool P)"

lemma borrow_server:
  assumes "borrow recon_pool P = (x, P')"
  shows "pool_committed P' = pool_committed P \<and> pool_calls P' = pool_calls P"
    and "x = Inr (i, c) \<Longrightarrow>
      \<exists>p1. c = connect p1 \<and> rc_committed p1 = pool_committed P \<and> rc_calls p1 = pool_calls P"
proof -
  obtain y q where get: "dp_getconn recon_pool (po_driver_pool P) = (y, q)" by fastforce
  with assms have P': "po_driver_pool P' = q \<or> po_driver_pool P' = po_driver_pool P"
    and x: "x = Inr (i, c) \<Longrightarrow> y = Inr (i, c)"
    by (auto simp: borrow_def reserve_def checkout_def on_pool_def tx_on_def tx_bind_def
        split: if_splits sum.splits)
  from P' getconn_server(1,2) [OF get]
  show "pool_committed P' = pool_committed P \<and> pool_calls P' = pool_calls P" by auto
  show "\<exists>p1. c = connect p1 \<and> rc_committed p1 = pool_committed P \<and> rc_calls p1 = pool_calls P"
    if "x = Inr (i, c)"
    using getconn_server(3) [OF get x [OF that]] .
qed

lemma release_server:
  "release recon_pool i c discard P = (x, P') \<Longrightarrow>
     pool_committed P' = rc_committed c \<and> pool_calls P' = rc_calls c"
  by (auto simp: release_def on_pool_def tx_on_def dest!: putconn_server split: prod.splits sum.splits)

lemma pooled_body:
  assumes "pool_connection conn_rollback recon_pool (\<lambda>i c P. case g c of (r, c1) \<Rightarrow> (r, c1, P)) P =
      (x, P')"
  obtains (unavailable) e where "x = Inl e" "pool_committed P' = pool_committed P"
      "pool_calls P' = pool_calls P"
  | (used) p1 r c1 where "g (connect p1) = (r, c1)" "rc_committed p1 = pool_committed P"
      "rc_calls p1 = pool_calls P" "pool_committed P' = rc_committed c1" "pool_calls P' = rc_calls c1"
      "\<forall>y. x = Inr y \<longrightarrow> r = Inr y"
proof (cases "borrow recon_pool P")
  case (Pair b P1)
  show ?thesis
  proof (cases b)
    case (Inl e)
    with assms Pair borrow_server(1) [OF Pair] show ?thesis
      by (intro unavailable) (auto simp: pool_connection_def)
  next
    case (Inr ic)
    obtain i c where ic: "ic = (i, c)" by fastforce
    obtain p1 where p1: "c = connect p1" "rc_committed p1 = pool_committed P" "rc_calls p1 = pool_calls P"
      using borrow_server(2) [OF Pair] Inr ic by blast
    obtain r c1 where g: "g c = (r, c1)" by fastforce
    obtain u c2 where rb: "conn_rollback c1 = (u, c2)" by fastforce
    define d where "d = (u \<noteq> Inr () \<or> error_discards r \<or> fst (take_discard i P1))"
    obtain v P4 where rel: "release recon_pool i c2 d (snd (take_discard i P1)) = (v, P4)" by fastforce
    have "P' = P4 \<and> (\<forall>y. x = Inr y \<longrightarrow> r = Inr y)"
      using assms Pair Inr ic g rb rel unfolding d_def
      by (auto simp: pool_connection_def Let_def take_discard_def split: sum.splits)
    with release_server [OF rel] conn_rollback_committed [of c1] rb g p1 show ?thesis
      by (intro used [of p1 r c1]) auto
  qed
qed

lemma coordinate_order:
  assumes "\<And>ss. tx_rel recon_order (body ss)" and "coordinate lock revision digest body P = (x, P')"
  shows "server_order (po_driver_pool P) (po_driver_pool P')"
proof -
  from assms(2) have "P' = P \<or> pool_connection conn_rollback recon_pool
      (\<lambda>i c P. case held_session revision digest body c of (r, c1) \<Rightarrow> (r, c1, P)) P = (x, P')"
    by (auto simp: coordinate_def tx_bind_def tx_require_def tx_lift_def validate_digest_def
        dest: validate_revision_Inr split: if_splits sum.splits)
  then show ?thesis
  proof
    assume "pool_connection conn_rollback recon_pool
      (\<lambda>i c P. case held_session revision digest body c of (r, c1) \<Rightarrow> (r, c1, P)) P = (x, P')"
    then show ?thesis
    proof (cases rule: pooled_body)
      case unavailable
      then show ?thesis unfolding server_order_def by (intro same_committed_order) auto
    next
      case (used p1 r c1)
      have "recon_order (connect (po_driver_pool P)) (connect (connect p1))"
        using used by (intro same_committed_order) auto
      moreover have "connect (connect p1) = connect p1" by (cases p1) (simp add: connect_def)
      ultimately have "recon_order (connect (po_driver_pool P)) (connect p1)" by simp
      then have "recon_order (connect (po_driver_pool P)) c1"
        by (rule recon.order_trans [OF _ tx_relD [OF held_session_order [OF assms(1)] used(1)]])
      moreover have "recon_order c1 (connect (po_driver_pool P'))"
        using used by (intro same_committed_order) auto
      ultimately show ?thesis unfolding server_order_def by (rule recon.order_trans)
    qed
  qed (simp add: server.order_refl)
qed

lemma run_order:
  assumes "run runner revision ctx P = (x, P')"
  shows "server_order (po_driver_pool P) (po_driver_pool P')"
proof (cases "plan runner revision")
  case (Inl e)
  with assms show ?thesis by (simp add: run_def tx_simps server.order_refl)
next
  case (Inr pl)
  obtain y P1 where co: "coordinate RECONCILIATION_ADVISORY_LOCK (pl_schema_revision pl)
      (pl_plan_digest pl) (run_body ctx runner pl) P = (y, P1)" by fastforce
  with assms Inr have "P' = P1" by (auto simp: run_def tx_simps tx_bind_def split: sum.splits)
  with coordinate_order [OF run_body_order co] show ?thesis by simp
qed

text \<open>
  Any number of runs, by any processes one after the other, with any hooks and any faults.
\<close>

inductive recon_step :: "recon_conn \<Rightarrow> recon_conn \<Rightarrow> bool" where
  a_run: "run runner revision ctx P = (x, P') \<Longrightarrow> recon_step (po_driver_pool P) (po_driver_pool P')"
| faults_ahead: "recon_step s (s\<lparr>rc_script := fs\<rparr>)"
| process_ends: "recon_step s (s\<lparr>rc_open := False, rc_active := False\<rparr>)"

lemma recon_step_order: "recon_step s s' \<Longrightarrow> server_order s s'"
proof (induction rule: recon_step.induct)
  case (a_run runner revision ctx P x P')
  then show ?case by (rule run_order)
qed (simp_all add: server_order_def same_committed_order)

text \<open>
  C4. Over any history of reconciliation runs, whatever the hooks do and wherever the driver fails
  or the process is interrupted, a commit with unknown outcome included: the committed markers
  only advance (a completed one never changes, an attempt number never falls), each attempt of a
  hook is called at most once and later than the attempts before it, a hook that was completed is
  never called again, and no hook is called before its attempt is committed as started.
\<close>

theorem attempts_run_once:
  assumes "recon_step\<^sup>*\<^sup>* s s'" and "markers_ok (rc_committed s)" and "rc_calls s = []"
  shows "markers_ok (rc_committed s') \<and>
    advances row_key marker_version row_completed (rc_committed s) (rc_committed s') \<and>
    sorted_wrt (\<lambda>(p, a) (q, b). p = q \<longrightarrow> a < b) (rc_calls s') \<and>
    (\<forall>(p, a) \<in> set (rc_calls s').
       (\<forall>r \<in> set (rc_committed s). row_key r = p \<longrightarrow> \<not> row_completed r \<and> row_attempt r < a) \<and>
       (\<exists>r \<in> set (rc_committed s'). row_key r = p \<and> a \<le> row_attempt r))"
proof -
  have "server_order s s'" using recon_step_order assms(1) by (rule server.rel_run)
  with assms(2,3) have "markers.evo (rc_committed s) (rc_committed s')"
    "new_attempts (rc_committed s) (rc_calls s') (rc_committed s')"
    by (auto simp: server_order_def recon_order_def)
  with assms(2) show ?thesis unfolding evolves_def new_attempts_def by blast
qed

end
