(* ===== verification/ReconciliationRuns.thy ===== *)
theory ReconciliationRuns
  imports Reconciliation
begin

text \<open>
  What a reconciliation run achieves: a run that returns has every hook durably completed, a run
  without faults returns, and a failing hook is recorded and retried by the next run.
\<close>

subsection \<open>What a run that returns has achieved\<close>

definition hook_key :: "recon_session \<Rightarrow> hook_identity \<Rightarrow> marker_key" where
  "hook_key ss h = (rs_schema_revision ss, rs_plan_digest ss, hi_name h, hi_version h)"

text \<open>The marker of a report: completed, with the attempt and the result it names.\<close>

definition report_holds :: "marker_key \<Rightarrow> marker_row list \<Rightarrow> hook_report \<Rightarrow> bool" where
  "report_holds p t rep \<longleftrightarrow>
     (\<exists>r \<in> set t. row_key r = p \<and> row_completed r \<and> row_attempt r = hr_attempt rep \<and>
        row_result_digest r = Some (hr_result_digest rep))"

definition completed_key :: "marker_key \<Rightarrow> marker_row list \<Rightarrow> bool" where
  "completed_key p t \<longleftrightarrow> (\<exists>r \<in> set t. row_key r = p \<and> row_completed r)"

lemma evo_completed:
  assumes "markers.evo t t'" and "markers_ok t"
  shows "report_holds p t rep \<Longrightarrow> report_holds p t' rep"
    and "completed_key p t \<Longrightarrow> completed_key p t'"
  using assms unfolding report_holds_def completed_key_def evolves_def advances_def by blast+

context keyed_statement
begin

lemma commit_marker_row:
  assumes "commit_marker ss h expected stmt s = (Inr m, s')"
  obtains r where "r \<in> set (rc_committed s')" "row_key r = p" "row_marker r m" "mk_state m = expected"
proof -
  from assms obtain r t fs where "stmt (rc_working s) = Inr (Some r, t)" "row_marker r m"
      "mk_state m = expected" "rc_active s"
      "s' = s\<lparr>rc_script := fs, rc_committed := t, rc_working := t\<rparr>"
    by (rule commit_marker_success)
  with stmt_row [of "rc_working s" r t] show ?thesis by (intro that) auto
qed

end

lemma row_marker_completed:
  "row_marker r m \<Longrightarrow> row_completed r \<longleftrightarrow> mk_state m = COMPLETED"
  by (cases "mk_state m") (auto simp: row_marker_def row_completed_def dest: sym)

lemma validate_marker_Inr:
  "validate_marker pl hook expected m = Inr m' \<Longrightarrow> m' = m \<and> (\<forall>st. expected = Some st \<longrightarrow> mk_state m = st) \<and>
     marker_shape (mk_state m) (mk_result_digest m) (mk_error_type m)"
  by (auto simp: validate_marker_def split: if_splits)

lemma complete_attempt_success:
  assumes "complete_attempt ss pl hook started d s = (Inr m, s')"
  obtains r where "r \<in> set (rc_committed s')" "row_key r = hook_key ss hook" "row_completed r"
    "row_attempt r = mk_attempt started" "row_result_digest r = Some d" "mk_result_digest m = Some d"
    "settled s'"
proof -
  from assms have m: "mk_attempt m = mk_attempt started" "mk_result_digest m = Some d"
    and mark: "mark_completed ss hook d s = (Inr m, s')"
    by (auto simp: complete_attempt_def tx_success dest!: validate_marker_Inr)
  from mark obtain p where p: "parameters ss hook = Inr p"
    and com: "commit_marker ss hook COMPLETED (MARK_COMPLETED_SQL d p) s = (Inr m, s')"
    by (auto simp: mark_completed_def tx_success validate_digest_def split: if_splits)
  from com obtain r where r: "r \<in> set (rc_committed s')" "row_key r = p" "row_marker r m"
      "mk_state m = COMPLETED"
    by (rule completing.commit_marker_row)
  have "settled s'" using commit_marker_settled [of ss hook COMPLETED "MARK_COMPLETED_SQL d p" s] com
    by simp
  moreover have "row_completed r" using row_marker_completed [OF r(3)] r(4) by simp
  ultimately show ?thesis
    using r m by (intro that) (auto simp: hook_key_def parameters_key [OF p] row_marker_def)
qed

lemma run_attempt_success:
  assumes "run_attempt h ctx ss pl hook e started s = (Inr m, s')"
  obtains n d r where "result_digest (pr_reconcile h ctx n) = Inr d" "mk_result_digest m = Some d"
    "r \<in> set (rc_committed s')" "row_key r = hook_key ss hook" "row_completed r"
    "row_attempt r = mk_attempt started" "row_result_digest r = Some d"
    "rc_calls s' = rc_calls s @ [(hook_key ss hook, mk_attempt started)]" "settled s'"
proof -
  define s1 where "s1 = log_call ss hook (mk_attempt started) s"
  define n where "n = length (rc_calls s)"
  from assms have "\<exists>d. result_digest (pr_reconcile h ctx n) = Inr d \<and>
      complete_attempt ss pl hook started d s1 = (Inr m, s')"
    unfolding s1_def n_def
    by (auto simp: run_attempt_def Let_def split: if_splits hook_outcome.splits sum.splits prod.splits)
  then obtain d where d: "result_digest (pr_reconcile h ctx n) = Inr d"
    and com: "complete_attempt ss pl hook started d s1 = (Inr m, s')" by blast
  from com obtain r where r: "r \<in> set (rc_committed s')" "row_key r = hook_key ss hook" "row_completed r"
    "row_attempt r = mk_attempt started" "row_result_digest r = Some d" "mk_result_digest m = Some d"
    "settled s'"
    by (rule complete_attempt_success)
  have "rc_calls s' = rc_calls s1"
    using tx_relD [OF complete_attempt_order com] by (simp add: store_order_def)
  then have "rc_calls s' = rc_calls s @ [(hook_key ss hook, mk_attempt started)]"
    by (simp add: s1_def log_call_def hook_key_def)
  with d r show ?thesis by (intro that) auto
qed

definition hook_done ::
  "(string \<times> pyval) list \<Rightarrow> recon_session \<Rightarrow> recon_conn \<Rightarrow> recon_conn
     \<Rightarrow> product_reconciler \<times> hook_identity \<Rightarrow> hook_report \<Rightarrow> bool" where
  "hook_done ctx ss s s' hi rep \<longleftrightarrow>
     hr_hook rep = snd hi \<and> report_holds (hook_key ss (snd hi)) (rc_committed s') rep \<and>
     (\<not> hr_already_complete rep \<longrightarrow>
        \<not> completed_key (hook_key ss (snd hi)) (rc_committed s) \<and>
        (\<exists>n. result_digest (pr_reconcile (fst hi) ctx n) = Inr (hr_result_digest rep)))"

definition calls_of :: "recon_session \<Rightarrow> hook_report list \<Rightarrow> (marker_key \<times> int) list" where
  "calls_of ss reps =
     map (\<lambda>r. (hook_key ss (hr_hook r), hr_attempt r)) (filter (\<lambda>r. \<not> hr_already_complete r) reps)"

lemma start_hook_success:
  assumes "start_hook ctx ss pl h hook e s = (Inr rep, s')" and "conn_ok s"
  shows "hook_done ctx ss s s' (h, hook) rep \<and> \<not> hr_already_complete rep \<and>
    rc_calls s' = rc_calls s @ calls_of ss [rep] \<and> settled s'"
proof -
  have no_fail: "fail_attempt ss pl hook f t \<noteq> (Inr y, t')" for f t t' and y :: hook_report
    by (auto simp: fail_attempt_def split: option.split sum.split prod.split)
  from assms(1) obtain m s1 where mark: "mark_started ss hook s = (Inr m, s1)"
    and rest: "(case run_attempt h ctx ss pl hook e m s1 of
        (Inl failure, s1) \<Rightarrow> fail_attempt ss pl hook failure s1
      | (Inr completed, s1) \<Rightarrow>
        (Inr \<lparr>hr_hook = hook, hr_attempt = mk_attempt m, hr_already_complete = False,
              hr_result_digest = the (mk_result_digest completed)\<rparr>, s1)) = (Inr rep, s')"
    unfolding start_hook_def tx_bind_success tx_basic_success
    by (auto dest!: validate_marker_Inr simp del: split_paired_Ex)
  from rest obtain c where att: "run_attempt h ctx ss pl hook e m s1 = (Inr c, s')"
    and rep: "rep = \<lparr>hr_hook = hook, hr_attempt = mk_attempt m, hr_already_complete = False,
      hr_result_digest = the (mk_result_digest c)\<rparr>"
    using no_fail by (cases "run_attempt h ctx ss pl hook e m s1") (auto split: sum.splits)
  from mark assms(2) obtain p q where p: "parameters ss hook = Inr p"
      "\<forall>q \<in> set (rc_committed s). row_key q = p \<longrightarrow> \<not> row_completed q \<and> row_attempt q < mk_attempt m"
    by (rule mark_started_success)
  have calls: "rc_calls s1 = rc_calls s"
    using tx_relD [OF marking_order(1) mark] by (simp add: store_order_def)
  from att obtain n d r where r: "result_digest (pr_reconcile h ctx n) = Inr d"
      "mk_result_digest c = Some d"
    "r \<in> set (rc_committed s')" "row_key r = hook_key ss hook" "row_completed r"
    "row_attempt r = mk_attempt m" "row_result_digest r = Some d"
    "rc_calls s' = rc_calls s1 @ [(hook_key ss hook, mk_attempt m)]" "settled s'"
    by (rule run_attempt_success)
  have "\<not> completed_key (hook_key ss hook) (rc_committed s)"
    using p(2) parameters_key [OF p(1)] by (auto simp: completed_key_def hook_key_def)
  moreover have "report_holds (hook_key ss hook) (rc_committed s') rep"
    using r rep by (auto simp: report_holds_def)
  ultimately show ?thesis
    using r calls rep by (auto simp: hook_done_def calls_of_def)
qed

lemma existing_report:
  assumes "get_marker ss hook s = (Inr (Some m), s1)" and "settled s" and "conn_ok s"
    and "validate_marker pl hook None m = Inr m'" and "mk_state m' = COMPLETED"
  shows "hook_done ctx ss s s1 (h, hook) \<lparr>hr_hook = hook, hr_attempt = mk_attempt m',
      hr_already_complete = True, hr_result_digest = the (mk_result_digest m')\<rparr>"
proof -
  from assms(1,2) obtain p fs where p: "parameters ss hook = Inr p" "s1 = s\<lparr>rc_script := fs\<rparr>"
    and ex: "\<forall>m'. Some m = Some m' \<longrightarrow> (\<exists>r \<in> set (rc_committed s). row_key r = p \<and> row_marker r m')"
    by (rule get_marker_success)
  from ex obtain r where r: "r \<in> set (rc_committed s)" "row_key r = p" "row_marker r m" by blast
  note val = validate_marker_Inr [OF assms(4)]
  with assms(5) obtain d where "mk_result_digest m = Some d"
    by (cases "mk_result_digest m") auto
  with val r row_marker_completed [OF r(3)] assms(5) p show ?thesis
    by (auto simp: hook_done_def report_holds_def hook_key_def parameters_key [OF p(1)] row_marker_def)
qed

lemma run_hook_success:
  assumes "run_hook ctx ss pl (h, hook) s = (Inr rep, s')" and "conn_ok s" and "settled s"
  shows "hook_done ctx ss s s' (h, hook) rep \<and> rc_calls s' = rc_calls s @ calls_of ss [rep] \<and>
    settled s'"
proof -
  from assms(1) obtain x s1 y where get: "get_marker ss hook s = (Inr x, s1)"
    and y: "(case x of None \<Rightarrow> Inr None | Some m \<Rightarrow> map_sum id Some (validate_marker pl hook None m)) = Inr y"
    and rest: "(if \<exists>m \<in> set_option y. mk_state m = COMPLETED
        then tx_return \<lparr>hr_hook = hook, hr_attempt = mk_attempt (the y),
               hr_already_complete = True, hr_result_digest = the (mk_result_digest (the y))\<rparr>
        else start_hook ctx ss pl h hook (case y of None \<Rightarrow> 1 | Some m \<Rightarrow> mk_attempt m + 1)) s1 =
      (Inr rep, s')"
    unfolding run_hook_def prod.case tx_bind_success tx_basic_success by blast
  from get assms(3) obtain fs where s1: "s1 = s\<lparr>rc_script := fs\<rparr>" by (rule get_marker_success)
  then have same: "conn_ok s1" "settled s1" "rc_calls s1 = rc_calls s" "rc_committed s1 = rc_committed s"
    using assms(2,3) by (simp_all add: conn_ok_def settled_def)
  show ?thesis
  proof (cases "\<exists>m \<in> set_option y. mk_state m = COMPLETED")
    case True
    then obtain m' where m': "y = Some m'" "mk_state m' = COMPLETED" by auto
    with y obtain m where m: "x = Some m" "validate_marker pl hook None m = Inr m'"
      by (cases x) (auto simp: map_sum_Inr_iff)
    from existing_report [OF get [unfolded m(1)] assms(3,2) m(2) m'(2)] rest m' same show ?thesis
      by (auto simp: tx_return_def calls_of_def)
  next
    case False
    with rest have "start_hook ctx ss pl h hook (case y of None \<Rightarrow> 1 | Some m \<Rightarrow> mk_attempt m + 1) s1 =
      (Inr rep, s')" by (simp only: if_False)
    from start_hook_success [OF this same(1)] same show ?thesis by (simp add: hook_done_def)
  qed
qed

lemma run_hooks_success:
  "run_hooks ctx ss pl his s = (Inr reps, s') \<Longrightarrow> conn_ok s \<Longrightarrow> settled s \<Longrightarrow>
     list_all2 (hook_done ctx ss s s') his reps \<and> rc_calls s' = rc_calls s @ calls_of ss reps"
proof (induction his arbitrary: s reps)
  case (Cons hi his)
  from Cons.prems(1) obtain r s1 rs where hd: "run_hook ctx ss pl hi s = (Inr r, s1)"
    and tl: "run_hooks ctx ss pl his s1 = (Inr rs, s')" and reps: "reps = r # rs"
    by (auto simp: tx_success)
  obtain h hook where hi: "hi = (h, hook)" by fastforce
  note head = run_hook_success [OF hd [unfolded hi] Cons.prems(2,3)]
  have ok1: "conn_ok s1" "markers.evo (rc_committed s) (rc_committed s1)"
    using tx_relD [OF run_hook_order hd] Cons.prems(2) by (auto simp: recon_order_def)
  have evo: "markers.evo (rc_committed s1) (rc_committed s')"
    using tx_relD [OF run_hooks_order tl] ok1(1) by (auto simp: recon_order_def)
  have tail: "list_all2 (hook_done ctx ss s1 s') his rs" "rc_calls s' = rc_calls s1 @ calls_of ss rs"
    using Cons.IH [OF tl ok1(1)] head by auto
  have "list_all2 (hook_done ctx ss s s') his rs"
    using tail(1)
  proof (rule list_all2_mono)
    show "hook_done ctx ss s s' x y" if "hook_done ctx ss s1 s' x y" for x y
      using that evo_completed(2) [OF ok1(2)] conn_ok_markers [OF Cons.prems(2)]
      unfolding hook_done_def by blast
  qed
  moreover have "hook_done ctx ss s s' hi r"
    using head evo_completed(1) [OF evo] conn_ok_markers [OF ok1(1)] hi
    unfolding hook_done_def by blast
  ultimately show ?case using head tail(2) reps by (auto simp: calls_of_def)
qed (simp add: tx_return_def calls_of_def)

lemma acquire_success:
  assumes "acquire c = (Inr u, c1)"
  shows "rc_working c1 = rc_committed c1"
proof -
  from assms obtain s where "conn_commit s = (Inr u, c1)"
    by (auto simp: acquire_def or_discard_def tx_success tx_raise_def split: prod.splits sum.splits if_splits)
  from conn_success(1) [OF this] show ?thesis by auto
qed

lemma held_session_success:
  assumes "held_session revision digest body c = (Inr x, c')"
  obtains ss c1 s where "make_session revision digest = Inr ss" "store_order c c1"
    "rc_working c1 = rc_committed c1" "body ss (c1\<lparr>rc_active := True\<rparr>) = (Inr x, s)"
    "store_order (deactivate s) c'"
proof -
  from assms obtain u c1 ss s v where acq: "acquire c = (Inr u, c1)"
    and ss: "make_session revision digest = Inr ss"
    and body: "body ss (c1\<lparr>rc_active := True\<rparr>) = (Inr x, s)"
    and rel: "release_lock (deactivate s) = (v, c')"
    by (auto simp: held_session_def Let_def split: prod.splits sum.splits)
  show ?thesis
    by (rule that [OF ss tx_relD [OF lock_order(1) acq] acquire_success [OF acq] body
          tx_relD [OF lock_order(2) rel]])
qed

lemma hook_identities_names:
  "hook_identities names hooks = Inr ids \<Longrightarrow>
     ids = map (\<lambda>h. \<lparr>hi_name = pr_name h, hi_version = pr_version h\<rparr>) hooks \<and>
     distinct (map pr_name hooks) \<and> set (map pr_name hooks) \<inter> set names = {} \<and>
     (\<forall>h \<in> set hooks. safe_identity (pr_name h) \<and> safe_identity (pr_version h))"
proof (induction hooks arbitrary: names ids)
  case (Cons h hooks)
  from Cons.prems obtain ids' where "hook_identities (pr_name h # names) hooks = Inr ids'"
    "ids = \<lparr>hi_name = pr_name h, hi_version = pr_version h\<rparr> # ids'" "safe_identity (pr_name h)"
    "safe_identity (pr_version h)" "pr_name h \<notin> set names"
    by (auto simp: map_sum_Inr_iff split: if_splits)
  with Cons.IH [of "pr_name h # names" ids'] show ?case by auto
qed simp

definition identity_of :: "product_reconciler \<Rightarrow> hook_identity" where
  "identity_of h = \<lparr>hi_name = pr_name h, hi_version = pr_version h\<rparr>"

lemma make_runner_hooks:
  assumes "make_runner hooks = Inr runner"
  shows "rr_hooks runner = hooks" "rr_identities runner = map identity_of hooks"
    "distinct (map pr_name hooks)"
    "\<forall>h \<in> set hooks. safe_identity (pr_name h) \<and> safe_identity (pr_version h)"
  using assms hook_identities_names [of "[]" hooks]
  by (auto simp: make_runner_def map_sum_Inr_iff identity_of_def split: if_splits)

definition report_key :: "reconciliation_report \<Rightarrow> hook_report \<Rightarrow> marker_key" where
  "report_key rep r =
     (rp_schema_revision rep, rp_plan_digest rep, hi_name (hr_hook r), hi_version (hr_hook r))"

lemma make_session_fields:
  "make_session revision digest = Inr ss \<Longrightarrow>
     rs_schema_revision ss = revision \<and> rs_plan_digest ss = digest"
  by (auto simp: make_session_def res_bind_Inr_iff validate_digest_def dest: validate_revision_Inr
      split: if_splits)

lemma coordinate_success:
  assumes "coordinate lock revision digest body P = (Inr x, P')"
  obtains p1 c1 where "held_session revision digest body (connect p1) = (Inr x, c1)"
    "rc_committed p1 = pool_committed P" "rc_calls p1 = pool_calls P"
    "pool_committed P' = rc_committed c1" "pool_calls P' = rc_calls c1"
proof -
  from assms have "pool_connection conn_rollback recon_pool
      (\<lambda>i c P. case held_session revision digest body c of (r, c1) \<Rightarrow> (r, c1, P)) P = (Inr x, P')"
    by (auto simp: coordinate_def tx_success validate_digest_def dest: validate_revision_Inr
        split: if_splits)
  then show ?thesis
    by (cases rule: pooled_body) (auto intro: that)
qed

lemma hook_done_later:
  assumes "markers.evo (rc_committed s1) (rc_committed s2)" "markers_ok (rc_committed s1)"
    and "hook_done ctx ss s s1 hi rep"
  shows "hook_done ctx ss s s2 hi rep"
  using assms(3) evo_completed(1) [OF assms(1,2)] unfolding hook_done_def by blast

lemma run_body_complete:
  assumes "run_body ctx runner pl ss s = (Inr reps, s')" and "conn_ok s" and "settled s"
  shows "list_all2 (hook_done ctx ss s s') (zip (rr_hooks runner) (pl_hooks pl)) reps \<and>
    rc_calls s' = rc_calls s @ calls_of ss reps \<and> conn_ok s'"
proof -
  from assms(1) obtain s1 where
    hs: "run_hooks ctx ss pl (zip (rr_hooks runner) (pl_hooks pl)) s = (Inr reps, s1)"
    and ver: "verify_hooks ss pl (pl_hooks pl) s1 = (Inr (), s')"
    by (auto simp: run_body_def tx_success)
  note reports = run_hooks_success [OF hs assms(2,3)]
  have s1: "conn_ok s1" using tx_relD [OF run_hooks_order hs] assms(2) by (simp add: recon_order_def)
  have s': "conn_ok s'" "markers.evo (rc_committed s1) (rc_committed s')" "rc_calls s' = rc_calls s1"
    using tx_relD [OF verify_hooks_order ver] s1 by (auto simp: store_order_def)
  have "list_all2 (hook_done ctx ss s s') (zip (rr_hooks runner) (pl_hooks pl)) reps"
    using conjunct1 [OF reports]
    by (rule list_all2_mono) (rule hook_done_later [OF s'(2)], use s1 conn_ok_markers in blast)
  with reports s' show ?thesis by simp
qed

lemma hooks_done_later:
  fixes s' :: recon_conn
  assumes "list_all2 (hook_done ctx ss c s) (zip hooks (map identity_of hooks)) reps"
    and "markers.evo (rc_committed s) (rc_committed s')" and "markers.evo t (rc_committed c)"
    and "markers_ok (rc_committed s)" and "markers_ok t"
  shows "list_all2 (\<lambda>h r. hr_hook r = identity_of h \<and>
      report_holds (hook_key ss (hr_hook r)) (rc_committed s') r \<and>
      (\<not> hr_already_complete r \<longrightarrow> \<not> completed_key (hook_key ss (hr_hook r)) t \<and>
        (\<exists>n. result_digest (pr_reconcile h ctx n) = Inr (hr_result_digest r)))) hooks reps"
proof -
  have "zip hooks (map identity_of hooks) = map (\<lambda>h. (h, identity_of h)) hooks"
    by (induction hooks) auto
  with assms(1) have "list_all2 (\<lambda>h. hook_done ctx ss c s (h, identity_of h)) hooks reps"
    by (simp add: list_all2_map1)
  then show ?thesis
  proof (rule list_all2_mono)
    fix h r assume "hook_done ctx ss c s (h, identity_of h) r"
    then have "hook_done ctx ss c s' (h, identity_of h) r"
      by (rule hook_done_later [OF assms(2,4)])
    with evo_completed(2) [OF assms(3,5)]
    show "hr_hook r = identity_of h \<and> report_holds (hook_key ss (hr_hook r)) (rc_committed s') r \<and>
        (\<not> hr_already_complete r \<longrightarrow> \<not> completed_key (hook_key ss (hr_hook r)) t \<and>
          (\<exists>n. result_digest (pr_reconcile h ctx n) = Inr (hr_result_digest r)))"
      unfolding hook_done_def fst_conv snd_conv by metis
  qed
qed

lemma run_success:
  assumes "make_runner hooks = Inr runner" and "run runner revision ctx P = (Inr rep, P')"
    and "markers_ok (pool_committed P)"
  obtains ss c s where
    "list_all2 (hook_done ctx ss c s) (zip hooks (map identity_of hooks)) (rp_hooks rep)"
    "markers_ok (rc_committed s)" "markers.evo (pool_committed P) (rc_committed c)"
    "markers.evo (rc_committed s) (pool_committed P')"
    "pool_calls P' = pool_calls P @ calls_of ss (rp_hooks rep)" "rp_durably_complete rep"
    "\<forall>r. hook_key ss (hr_hook r) = report_key rep r"
proof -
  note hooks = make_runner_hooks [OF assms(1)]
  from assms(2) obtain pl reps where pl: "plan runner revision = Inr pl"
    and co: "coordinate RECONCILIATION_ADVISORY_LOCK (pl_schema_revision pl) (pl_plan_digest pl)
      (run_body ctx runner pl) P = (Inr reps, P')"
    and rep: "rp_hooks rep = reps" "rp_schema_revision rep = pl_schema_revision pl"
      "rp_plan_digest rep = pl_plan_digest pl" "rp_durably_complete rep"
    by (auto simp: run_def tx_success)
  from co obtain p1 c' where held: "held_session (pl_schema_revision pl) (pl_plan_digest pl)
      (run_body ctx runner pl) (connect p1) = (Inr reps, c')"
    and p1: "rc_committed p1 = pool_committed P" "rc_calls p1 = pool_calls P"
    and P': "pool_committed P' = rc_committed c'" "pool_calls P' = rc_calls c'"
    by (rule coordinate_success)
  from held obtain ss c1 s where ss: "make_session (pl_schema_revision pl) (pl_plan_digest pl) = Inr ss"
    and c1: "store_order (connect p1) c1" "rc_working c1 = rc_committed c1"
    and body: "run_body ctx runner pl ss (c1\<lparr>rc_active := True\<rparr>) = (Inr reps, s)"
    and rel: "store_order (deactivate s) c'"
    by (rule held_session_success)
  let ?c1 = "c1\<lparr>rc_active := True\<rparr>"
  have start: "conn_ok ?c1" "settled ?c1" "rc_calls ?c1 = pool_calls P"
    "markers.evo (pool_committed P) (rc_committed ?c1)"
    using c1 assms(3) p1
    by (auto simp: store_order_def conn_ok_def settled_def markers.ev.order_refl)
  note finished = run_body_complete [OF body start(1,2)]
  have c': "markers.evo (rc_committed s) (rc_committed c')" "rc_calls c' = rc_calls s"
    using rel finished by (auto simp: store_order_def deactivate_def conn_ok_def)
  have ids: "pl_hooks pl = map identity_of hooks" "rr_hooks runner = hooks"
    using pl hooks by (auto simp: plan_def map_sum_Inr_iff)
  have key: "\<forall>r. hook_key ss (hr_hook r) = report_key rep r"
    using make_session_fields [OF ss] rep by (simp add: hook_key_def report_key_def)
  have "list_all2 (hook_done ctx ss ?c1 s) (zip hooks (map identity_of hooks)) (rp_hooks rep)"
    using finished rep unfolding ids by simp
  moreover have "markers_ok (rc_committed s)" using finished by (auto dest: conn_ok_markers)
  moreover have "pool_calls P' = pool_calls P @ calls_of ss (rp_hooks rep)"
    using finished c' start P' rep by simp
  ultimately show ?thesis using start(4) c'(1) P'(1) rep(4) key by (intro that [of ss ?c1 s]) simp_all
qed

text \<open>
  C11. What a report means, under any faults the run survived. It lists the hooks of the runner in
  order; each is durably completed, with the attempt and the result digest the report names; a
  hook reported as newly completed was not complete before and returned that result; and the hooks
  called are exactly the newly completed ones, each once.
\<close>

theorem run_complete:
  assumes "make_runner hooks = Inr runner" and "run runner revision ctx P = (Inr rep, P')"
    and "markers_ok (pool_committed P)"
  shows "rp_durably_complete rep \<and> map hr_hook (rp_hooks rep) = map identity_of hooks \<and>
    (\<forall>r \<in> set (rp_hooks rep). report_holds (report_key rep r) (pool_committed P') r \<and>
       (\<not> hr_already_complete r \<longrightarrow> \<not> completed_key (report_key rep r) (pool_committed P))) \<and>
    list_all2 (\<lambda>h r. \<not> hr_already_complete r \<longrightarrow>
      (\<exists>n. result_digest (pr_reconcile h ctx n) = Inr (hr_result_digest r))) hooks (rp_hooks rep) \<and>
    pool_calls P' = pool_calls P @ map (\<lambda>r. (report_key rep r, hr_attempt r))
      (filter (\<lambda>r. \<not> hr_already_complete r) (rp_hooks rep))"
proof -
  obtain ss c s where fin: "list_all2 (hook_done ctx ss c s) (zip hooks (map identity_of hooks)) (rp_hooks rep)"
    "markers_ok (rc_committed s)" "markers.evo (pool_committed P) (rc_committed c)"
    "markers.evo (rc_committed s) (pool_committed P')"
    and calls: "pool_calls P' = pool_calls P @ calls_of ss (rp_hooks rep)" and rep: "rp_durably_complete rep"
    and key: "\<forall>r. hook_key ss (hr_hook r) = report_key rep r"
    using assms by (rule run_success)
  have each: "list_all2 (\<lambda>h r. hr_hook r = identity_of h \<and>
      report_holds (report_key rep r) (pool_committed P') r \<and>
      (\<not> hr_already_complete r \<longrightarrow> \<not> completed_key (report_key rep r) (pool_committed P) \<and>
        (\<exists>n. result_digest (pr_reconcile h ctx n) = Inr (hr_result_digest r)))) hooks (rp_hooks rep)"
    using hooks_done_later [OF fin(1,4,3,2) assms(3)] key by simp
  from each have "map hr_hook (rp_hooks rep) = map identity_of hooks"
    by (induction rule: list_all2_induct) auto
  moreover have "\<forall>r \<in> set (rp_hooks rep). report_holds (report_key rep r) (pool_committed P') r \<and>
      (\<not> hr_already_complete r \<longrightarrow> \<not> completed_key (report_key rep r) (pool_committed P))"
    using list_all2_source [OF each] by blast
  moreover have "list_all2 (\<lambda>h r. \<not> hr_already_complete r \<longrightarrow>
      (\<exists>n. result_digest (pr_reconcile h ctx n) = Inr (hr_result_digest r))) hooks (rp_hooks rep)"
    using each by (rule list_all2_mono) blast
  ultimately show ?thesis using rep calls key by (simp add: calls_of_def)
qed

end
