(* ===== verification/ReconciliationLiveness.thy ===== *)
theory ReconciliationLiveness
  imports ReconciliationRuns
begin

text \<open>
  A reconciliation run without faults: it returns when every hook does, whatever earlier runs left
  behind, and a hook that fails is recorded as failed and is tried again by the next run.
\<close>

subsection \<open>A session without faults\<close>

definition calm :: "recon_conn \<Rightarrow> bool" where
  "calm s \<longleftrightarrow> rc_script s = [] \<and> rc_open s \<and> rc_active s \<and> 0 < rc_locks s \<and>
     rc_working s = rc_committed s \<and> markers_ok (rc_committed s)"

lemma quiet_call: "rc_script s = [] \<Longrightarrow> rc_open s \<Longrightarrow> driver_call m s = m s"
  by (simp add: driver_call_def next_fault_def)

lemma calm_refresh: "calm s \<Longrightarrow> s\<lparr>rc_working := rc_committed s\<rparr> = s"
  by (cases s) (simp add: calm_def)

text \<open>The keys of the hooks of a valid plan under its session.\<close>

definition plan_session :: "recon_session \<Rightarrow> reconciliation_plan \<Rightarrow> bool" where
  "plan_session ss pl \<longleftrightarrow>
     make_session (pl_schema_revision pl) (pl_plan_digest pl) = Inr ss"

definition hook_ok :: "hook_identity \<Rightarrow> bool" where
  "hook_ok h \<longleftrightarrow> safe_identity (hi_name h) \<and> safe_identity (hi_version h)"

lemma hook_parameters: "hook_ok h \<Longrightarrow> parameters ss h = Inr (hook_key ss h)"
  by (simp add: parameters_def hook_ok_def validate_hook_def hook_key_def)

text \<open>Rows whose failure, if any, the store itself recorded.\<close>

definition readable :: "marker_row \<Rightarrow> bool" where
  "readable r \<longleftrightarrow> (\<forall>e. row_error_type r = Some e \<longrightarrow> safe_identity e)"

lemma read_back:
  assumes "plan_session ss pl" "hook_ok h" "marker_row_ok r" "row_key r = hook_key ss h" "readable r"
  obtains m where "decoded b r = Inr m" "row_marker r m" "same_marker ss h m"
    "validate_marker pl h None m = Inr m"
proof -
  obtain m where m: "decoded b r = Inr m" "row_marker r m" "same_marker ss h m"
    using decoded_stored_row [OF assms(3,4) hook_parameters [OF assms(2)]
        assms(1) [unfolded plan_session_def], of b] assms(5)
    unfolding readable_def by blast
  from m(1) have shape: "marker_shape (mk_state m) (mk_result_digest m) (mk_error_type m)"
    unfolding marker_from_row_def res_bind_Inr_iff by (auto split: if_splits)
  have "1 \<le> mk_attempt m" using m(2) assms(3) by (simp add: row_marker_def marker_row_ok_def)
  with m(3) shape make_session_fields [OF assms(1) [unfolded plan_session_def]]
  have "validate_marker pl h None m = Inr m" by (simp add: validate_marker_def same_marker_def)
  with m show ?thesis by (rule that)
qed

lemma validate_expected:
  "validate_marker pl h None m = Inr m \<Longrightarrow> mk_state m = st \<Longrightarrow> validate_marker pl h (Some st) m = Inr m"
  by (auto simp: validate_marker_def split: if_splits)

lemma get_marker_calm:
  assumes "calm s" "plan_session ss pl" "hook_ok h"
  shows "\<forall>r \<in> set (rc_committed s). row_key r \<noteq> hook_key ss h \<Longrightarrow> get_marker ss h s = (Inr None, s)"
    and "r \<in> set (rc_committed s) \<Longrightarrow> row_key r = hook_key ss h \<Longrightarrow> readable r \<Longrightarrow>
      \<exists>m. get_marker ss h s = (Inr (Some m), s) \<and> row_marker r m \<and> validate_marker pl h None m = Inr m"
proof -
  let ?p = "hook_key ss h"
  have s: "rc_script s = []" "rc_open s" "rc_active s" "rc_working s = rc_committed s"
    "markers_ok (rc_committed s)" using assms(1) by (simp_all add: calm_def)
  note refresh = calm_refresh [OF assms(1)]
  note steps = get_marker_def hook_parameters [OF assms(3)] read_row_def quiet_call query_def
    GET_MARKER_SQL_def conn_rollback_def s refresh
  show "get_marker ss h s = (Inr None, s)" if "\<forall>r \<in> set (rc_committed s). row_key r \<noteq> ?p"
  proof -
    have "filter (\<lambda>r. row_key r = ?p) (rc_committed s) = []" using that by (simp add: filter_empty_conv)
    then show ?thesis by (simp add: steps)
  qed
  show "\<exists>m. get_marker ss h s = (Inr (Some m), s) \<and> row_marker r m \<and> validate_marker pl h None m = Inr m"
    if r: "r \<in> set (rc_committed s)" "row_key r = ?p" "readable r"
  proof -
    have "filter (\<lambda>r. row_key r = ?p) (rc_committed s) = [r]"
      using s(5) r(1,2) by (rule markers.filter_key) (simp add: r(2))
    moreover have "marker_row_ok r" using s(5) r(1) by (auto simp: table_ok_def)
    then obtain m where m: "decoded (rc_dict_rows s) r = Inr m" "row_marker r m" "same_marker ss h m"
      "validate_marker pl h None m = Inr m"
      using read_back [OF assms(2,3) _ r(2,3)] by blast
    ultimately show ?thesis by (intro exI [of _ m]) (simp add: steps)
  qed
qed

lemma commit_marker_calm:
  assumes "calm s" "plan_session ss pl" "hook_ok h"
    and "stmt (rc_committed s) = Inr (Some r, t)" "markers_ok t" "r \<in> set t"
    and "row_key r = hook_key ss h" "readable r" "row_state r = state_value st"
  shows "\<exists>m. commit_marker ss h st stmt s = (Inr m, s\<lparr>rc_committed := t, rc_working := t\<rparr>) \<and>
    row_marker r m \<and> validate_marker pl h (Some st) m = Inr m"
proof -
  have s: "rc_script s = []" "rc_open s" "rc_active s" "rc_working s = rc_committed s"
    using assms(1) by (simp_all add: calm_def)
  have "marker_row_ok r" using assms(5,6) by (auto simp: table_ok_def)
  then obtain m where m: "decoded (rc_dict_rows s) r = Inr m" "row_marker r m" "same_marker ss h m"
    "validate_marker pl h None m = Inr m"
    using read_back [OF assms(2,3) _ assms(7,8)] by blast
  have "mk_state m = st"
    using m(2) assms(9) by (cases st; cases "mk_state m") (auto simp: row_marker_def)
  with m show ?thesis
    by (intro exI [of _ m])
      (simp add: commit_marker_def read_row_def quiet_call query_def conn_commit_def s assms(4)
        validate_expected)
qed

text \<open>What a statement leaves alone: the rows of every other hook.\<close>

definition same_others :: "marker_key \<Rightarrow> marker_row list \<Rightarrow> marker_row list \<Rightarrow> bool" where
  "same_others p t t' \<longleftrightarrow> (\<forall>r. row_key r \<noteq> p \<longrightarrow> r \<in> set t' \<longleftrightarrow> r \<in> set t)"

lemma same_others_update:
  assumes "\<And>r. row_key (f r) = row_key r" "\<And>r. w r \<Longrightarrow> row_key r = p"
  shows "same_others p t (map (\<lambda>r. if w r then f r else r) t)"
  unfolding same_others_def
proof (intro allI impI)
  fix r assume "row_key r \<noteq> p"
  then show "r \<in> set (map (\<lambda>r. if w r then f r else r) t) \<longleftrightarrow> r \<in> set t"
    using assms by (force simp: image_iff)
qed

text \<open>A keyed update whose new row fits the columns returns that row.\<close>

lemma keyed_update_succeeds:
  assumes "markers_ok t" "r \<in> set t" "row_key r = p" "w r" "\<And>q. w q \<Longrightarrow> row_key q = p"
    and "marker_row_ok (f r)" "\<And>q. row_key (f q) = row_key q"
  defines "t' \<equiv> map (\<lambda>q. if w q then f q else q) t"
  shows "sql_update marker_row_ok marker_conflict w f t = Inr ([f r], t')"
    and "markers_ok t'" "f r \<in> set t'" "same_others p t t'"
proof -
  have only: "filter w t = [r]"
    using assms(1,2,4) by (rule markers.filter_key) (simp add: assms(3,5))
  have "q = r" if "q \<in> set t" "w q" for q
    using markers.key_unique [OF assms(1) that(1) assms(2)] that(2) assms(3,5) by simp
  then have "sql_update marker_row_ok marker_conflict w f t = Inr (map f (filter w t), t')"
    unfolding t'_def using assms(1,6,7)
    by (intro markers.update_succeeds) (auto simp: marker_conflict_def split: if_splits)
  then show upd: "sql_update marker_row_ok marker_conflict w f t = Inr ([f r], t')"
    by (simp add: only)
  from markers.table_ok_update [OF assms(1) upd] show "markers_ok t'" .
  show "f r \<in> set t'" using assms(2,4) by (force simp: t'_def)
  show "same_others p t t'" unfolding t'_def by (rule same_others_update [OF assms(7,5)])
qed

lemma safe_identity_text: "safe_identity s \<Longrightarrow> pg_text s"
  unfolding safe_identity_def pg_text_def
  by (drule head_then_chars) (auto simp: alnum_chars_def lower_chars_def upper_chars_def digit_chars_def)

lemma plan_session_columns:
  assumes "plan_session ss pl"
  shows "pg_text (rs_schema_revision ss)" "lower_hex 64 (rs_plan_digest ss)"
  using assms validate_revision_printable [OF validate_revision_again]
  by (auto simp: plan_session_def make_session_def res_bind_Inr_iff validate_digest_def
      split: if_splits)

lemma first_marker_ok: "plan_session ss pl \<Longrightarrow> hook_ok h \<Longrightarrow> marker_row_ok (first_marker (hook_key ss h))"
  by (simp add: marker_row_ok_def first_marker_def hook_key_def hook_ok_def safe_identity_text
      plan_session_columns MAX_INTEGER_def)

text \<open>A marker that can start again: readable, not completed, and its attempts are not used up.\<close>

definition room :: "marker_key \<Rightarrow> marker_row list \<Rightarrow> bool" where
  "room p t \<longleftrightarrow> (\<forall>r \<in> set t. row_key r = p \<longrightarrow> readable r \<and> row_attempt r < MAX_INTEGER)"

definition next_attempt :: "marker_key \<Rightarrow> marker_row list \<Rightarrow> int" where
  "next_attempt p t =
     (case List.find (\<lambda>r. row_key r = p) t of None \<Rightarrow> 1 | Some r \<Rightarrow> row_attempt r + 1)"

lemma restartable_row:
  "marker_row_ok r \<Longrightarrow> readable r \<Longrightarrow> \<not> row_completed r \<Longrightarrow> restartable r"
  by (auto simp: marker_row_ok_def readable_def row_completed_def restartable_def)

lemma restarted_ok:
  "marker_row_ok r \<Longrightarrow> row_attempt r < MAX_INTEGER \<Longrightarrow> marker_row_ok (restarted r)"
  by (auto simp: marker_row_ok_def restarted_def)

lemma started_statement:
  assumes "markers_ok t" "plan_session ss pl" "hook_ok h"
    and "room (hook_key ss h) t" "\<not> completed_key (hook_key ss h) t"
  obtains r t' where "MARK_STARTED_SQL (hook_key ss h) t = Inr (Some r, t')" "markers_ok t'"
    "r \<in> set t'" "still_started (hook_key ss h) r" "row_attempt r = next_attempt (hook_key ss h) t"
    "same_others (hook_key ss h) t t'"
proof (cases "\<exists>r \<in> set t. row_key r = hook_key ss h")
  case False
  let ?r = "first_marker (hook_key ss h)"
  have none: "List.find (\<lambda>r. row_key r = hook_key ss h) t = None" using False by (simp add: find_None_iff)
  have sql: "MARK_STARTED_SQL (hook_key ss h) t = Inr (Some ?r, t @ [?r])"
    using False first_marker_ok [OF assms(2,3)]
    by (auto simp: MARK_STARTED_SQL_def sql_insert_or_skip_def marker_conflict_def)
  show ?thesis
  proof (rule that [OF sql starting.stmt_markers_ok [OF sql assms(1)]])
    show "still_started (hook_key ss h) ?r" "row_attempt ?r = next_attempt (hook_key ss h) t"
      by (simp_all add: still_started_def next_attempt_def none) (simp_all add: first_marker_def hook_key_def)
  qed (auto simp: same_others_def)
next
  case True
  then obtain r where r: "r \<in> set t" "row_key r = hook_key ss h" by blast
  have ok: "marker_row_ok r" using assms(1) r(1) by (auto simp: table_ok_def)
  have rest: "restartable r" "marker_row_ok (restarted r)"
    using assms(4,5) r ok by (auto simp: room_def completed_key_def intro: restartable_row restarted_ok)
  note upd = keyed_update_succeeds [OF assms(1) r, of "\<lambda>q. row_key q = hook_key ss h \<and> restartable q" restarted]
  have found: "List.find (\<lambda>r. row_key r = hook_key ss h) t = Some r"
    using assms(1) r by (rule markers.find_key) (simp add: r(2))
  have "MARK_STARTED_SQL (hook_key ss h) t =
      Inr (Some (restarted r), map (\<lambda>q. if row_key q = hook_key ss h \<and> restartable q then restarted q else q) t)"
    using upd(1) r rest first_marker_ok [OF assms(2,3)]
    by (auto simp: MARK_STARTED_SQL_def sql_insert_or_skip_def marker_conflict_def intro!: bexI [of _ r])
  then show ?thesis
  proof (rule that)
    show "still_started (hook_key ss h) (restarted r)"
      "row_attempt (restarted r) = next_attempt (hook_key ss h) t"
      by (simp_all add: still_started_def next_attempt_def found r(2)) (simp_all add: restarted_def)
  qed (use upd r rest in auto)
qed

abbreviation commits :: "marker_row list \<Rightarrow> recon_conn \<Rightarrow> recon_conn" where
  "commits t s \<equiv> s\<lparr>rc_committed := t, rc_working := t\<rparr>"

lemma calm_commits: "calm s \<Longrightarrow> markers_ok t \<Longrightarrow> calm (commits t s)"
  by (simp add: calm_def)

lemma mark_started_calm:
  assumes "calm s" "plan_session ss pl" "hook_ok h"
    and "room (hook_key ss h) (rc_committed s)" "\<not> completed_key (hook_key ss h) (rc_committed s)"
  obtains m r t where "mark_started ss h s = (Inr m, commits t s)"
    "validate_marker pl h (Some STARTED) m = Inr m" "markers_ok t" "r \<in> set t"
    "still_started (hook_key ss h) r" "mk_attempt m = row_attempt r"
    "row_attempt r = next_attempt (hook_key ss h) (rc_committed s)"
    "same_others (hook_key ss h) (rc_committed s) t"
proof -
  have ok: "markers_ok (rc_committed s)" using assms(1) by (simp add: calm_def)
  from ok assms(2-5) obtain r t where r: "MARK_STARTED_SQL (hook_key ss h) (rc_committed s) = Inr (Some r, t)"
    "markers_ok t" "r \<in> set t" "still_started (hook_key ss h) r"
    "row_attempt r = next_attempt (hook_key ss h) (rc_committed s)"
    "same_others (hook_key ss h) (rc_committed s) t"
    by (rule started_statement)
  have "row_key r = hook_key ss h" "readable r" "row_state r = state_value STARTED"
    using r(4) by (simp_all add: still_started_def readable_def)
  from commit_marker_calm [where stmt = "MARK_STARTED_SQL (hook_key ss h)", OF assms(1-3) r(1-3) this]
  obtain m where m: "mark_started ss h s = (Inr m, commits t s)" "row_marker r m"
    "validate_marker pl h (Some STARTED) m = Inr m"
    by (auto simp: mark_started_def hook_parameters [OF assms(3)] tx_simps)
  then have "mk_attempt m = row_attempt r" by (simp add: row_marker_def)
  from m(1,3) r(2-4) this r(5,6) show ?thesis by (rule that)
qed

lemma still_started_key: "still_started p q \<Longrightarrow> row_key q = p"
  by (simp add: still_started_def)

lemma ending_statement_succeeds:
  assumes "markers_ok t" "r \<in> set t" "still_started p r" and "marker_row_ok (f r)"
    and "\<And>q. row_key (f q) = row_key q"
  obtains t' where "map_sum id (\<lambda>(rows, t'). (first_row rows, t'))
      (sql_update marker_row_ok marker_conflict (still_started p) f t) = Inr (Some (f r), t')"
    "markers_ok t'" "f r \<in> set t'" "same_others p t t'"
proof -
  have "row_key r = p" using assms(3) by (simp add: still_started_def)
  note upd = keyed_update_succeeds [where w = "still_started p" and f = f,
      OF assms(1,2) this assms(3) still_started_key assms(4,5)]
  show ?thesis by (rule that [OF _ upd(2-4)]) (simp add: upd(1))
qed

lemma mark_completed_calm:
  assumes "calm s" "plan_session ss pl" "hook_ok h" "r \<in> set (rc_committed s)"
    "still_started (hook_key ss h) r" "lower_hex 64 d"
  obtains m q t where "mark_completed ss h d s = (Inr m, commits t s)"
    "validate_marker pl h (Some COMPLETED) m = Inr m" "mk_attempt m = row_attempt r"
    "mk_result_digest m = Some d" "markers_ok t" "q \<in> set t" "row_key q = hook_key ss h"
    "row_completed q" "same_others (hook_key ss h) (rc_committed s) t"
proof -
  let ?f = "\<lambda>r. r\<lparr>row_state := ''completed'', row_result_digest := Some d, row_error_type := None\<rparr>"
  have ok: "markers_ok (rc_committed s)" using assms(1) by (simp add: calm_def)
  have "marker_row_ok (?f r)"
    using ok assms(4,6) by (auto simp: table_ok_def marker_row_ok_def)
  with ok assms(4,5) obtain t where t: "MARK_COMPLETED_SQL d (hook_key ss h) (rc_committed s) = Inr (Some (?f r), t)"
    "markers_ok t" "?f r \<in> set t" "same_others (hook_key ss h) (rc_committed s) t"
    unfolding MARK_COMPLETED_SQL_def by (rule ending_statement_succeeds [where f = ?f]) auto
  have q: "row_key (?f r) = hook_key ss h" "readable (?f r)" "row_state (?f r) = state_value COMPLETED"
    using assms(5) by (simp_all add: still_started_def readable_def)
  from commit_marker_calm [where stmt = "MARK_COMPLETED_SQL d (hook_key ss h)", OF assms(1-3) t(1-3) q] assms(6)
  obtain m where m: "mark_completed ss h d s = (Inr m, commits t s)" "row_marker (?f r) m"
    "validate_marker pl h (Some COMPLETED) m = Inr m"
    by (auto simp: mark_completed_def hook_parameters [OF assms(3)] validate_digest_def tx_simps)
  then show ?thesis
    using t q by (intro that [of m t "?f r"]) (auto simp: row_marker_def row_completed_def)
qed

lemma durable_failure_calm:
  assumes "calm s" "plan_session ss pl" "hook_ok h" "r \<in> set (rc_committed s)"
    "still_started (hook_key ss h) r" "safe_identity e"
  obtains m q t where "durable_failure ss pl h e s = (Inr m, commits t s)" "markers_ok t" "q \<in> set t"
    "row_key q = hook_key ss h" "row_state q = ''failed''" "row_error_type q = Some e"
    "row_attempt q = row_attempt r" "same_others (hook_key ss h) (rc_committed s) t"
proof -
  let ?f = "\<lambda>r. r\<lparr>row_state := ''failed'', row_result_digest := None, row_error_type := Some e\<rparr>"
  have ok: "markers_ok (rc_committed s)" using assms(1) by (simp add: calm_def)
  have "marker_row_ok (?f r)"
    using ok assms(4) safe_identity_text [OF assms(6)] by (auto simp: table_ok_def marker_row_ok_def)
  with ok assms(4,5) obtain t where t: "MARK_FAILED_SQL e (hook_key ss h) (rc_committed s) = Inr (Some (?f r), t)"
    "markers_ok t" "?f r \<in> set t" "same_others (hook_key ss h) (rc_committed s) t"
    unfolding MARK_FAILED_SQL_def by (rule ending_statement_succeeds [where f = ?f]) auto
  have q: "row_key (?f r) = hook_key ss h" "readable (?f r)" "row_state (?f r) = state_value FAILED"
    using assms(5,6) by (simp_all add: still_started_def readable_def)
  from commit_marker_calm [where stmt = "MARK_FAILED_SQL e (hook_key ss h)", OF assms(1-3) t(1-3) q] assms(6)
  obtain m where "durable_failure ss pl h e s = (Inr m, commits t s)"
    by (auto simp: durable_failure_def mark_failed_def hook_parameters [OF assms(3)] tx_simps
        tx_bind_def)
  then show ?thesis using t q by (intro that [of m t "?f r"]) auto
qed

subsection \<open>Hooks without faults\<close>

text \<open>A hook that returns a result the runner accepts, at any call.\<close>

definition succeeds :: "(string \<times> pyval) list \<Rightarrow> product_reconciler \<Rightarrow> bool" where
  "succeeds ctx h \<longleftrightarrow> (\<forall>n. \<exists>d. result_digest (pr_reconcile h ctx n) = Inr d)"

lemma result_digest_canonical: "result_digest out = Inr d \<Longrightarrow> lower_hex 64 d"
  by (cases out rule: result_digest.cases) (auto simp: object_digest_def split: if_splits)

lemma result_digest_returns:
  "result_digest out = Inr d \<Longrightarrow> out \<noteq> Hook_interrupts \<and> (\<forall>name. out \<noteq> Hook_raises name)"
  by (cases out) auto

lemma calm_log_call: "calm s \<Longrightarrow> calm (log_call ss h a s)"
  by (simp add: calm_def log_call_def)

lemma log_call_committed [simp]: "rc_committed (log_call ss h a s) = rc_committed s"
  by (simp add: log_call_def)

lemma run_attempt_calm:
  assumes "calm s" "plan_session ss pl" "hook_ok hook" "r \<in> set (rc_committed s)"
    "still_started (hook_key ss hook) r" "mk_attempt m = row_attempt r" "succeeds ctx h"
  obtains c s' q where "run_attempt h ctx ss pl hook (mk_attempt m) m s = (Inr c, s')" "calm s'"
    "q \<in> set (rc_committed s')" "row_key q = hook_key ss hook" "row_completed q"
    "same_others (hook_key ss hook) (rc_committed s) (rc_committed s')"
proof -
  let ?out = "pr_reconcile h ctx (length (rc_calls s))" and ?s1 = "log_call ss hook (mk_attempt m) s"
  from assms(7) obtain d where d: "result_digest ?out = Inr d" unfolding succeeds_def by blast
  from assms(4) have r: "r \<in> set (rc_committed ?s1)" by simp
  obtain c q t where c: "mark_completed ss hook d ?s1 = (Inr c, commits t ?s1)"
    "validate_marker pl hook (Some COMPLETED) c = Inr c" "mk_attempt c = row_attempt r"
    "mk_result_digest c = Some d" "markers_ok t" "q \<in> set t" "row_key q = hook_key ss hook"
    "row_completed q" "same_others (hook_key ss hook) (rc_committed ?s1) t"
    using calm_log_call [OF assms(1)] assms(2,3) r assms(5) result_digest_canonical [OF d]
    by (rule mark_completed_calm)
  have "complete_attempt ss pl hook m d ?s1 = (Inr c, commits t ?s1)"
    using c(1-4) assms(6) by (simp add: complete_attempt_def tx_bind_def tx_lift_def tx_require_def tx_return_def)
  then have run: "run_attempt h ctx ss pl hook (mk_attempt m) m s = (Inr c, commits t ?s1)"
    using d result_digest_returns [OF d] by (cases ?out) (auto simp: run_attempt_def Let_def)
  show ?thesis
    by (rule that [OF run calm_commits [OF calm_log_call [OF assms(1)] c(5)]])
      (use c in simp_all)
qed

lemma existing_marker:
  assumes "calm s" "plan_session ss pl" "hook_ok hook" "room (hook_key ss hook) (rc_committed s)"
  obtains (none) "get_marker ss hook s = (Inr None, s)" "\<not> completed_key (hook_key ss hook) (rc_committed s)"
      "next_attempt (hook_key ss hook) (rc_committed s) = 1"
  | (some) r m where "get_marker ss hook s = (Inr (Some m), s)" "validate_marker pl hook None m = Inr m"
      "r \<in> set (rc_committed s)" "row_key r = hook_key ss hook" "row_marker r m"
      "completed_key (hook_key ss hook) (rc_committed s) \<longleftrightarrow> mk_state m = COMPLETED"
      "next_attempt (hook_key ss hook) (rc_committed s) = mk_attempt m + 1"
proof (cases "\<exists>r \<in> set (rc_committed s). row_key r = hook_key ss hook")
  case False
  then have "List.find (\<lambda>r. row_key r = hook_key ss hook) (rc_committed s) = None"
    by (simp add: find_None_iff)
  with False get_marker_calm(1) [OF assms(1-3)] show ?thesis
    by (intro none) (auto simp: completed_key_def next_attempt_def)
next
  case True
  then obtain r where r: "r \<in> set (rc_committed s)" "row_key r = hook_key ss hook" by blast
  with assms(4) have "readable r" by (auto simp: room_def)
  with get_marker_calm(2) [OF assms(1-3) r] obtain m where m: "get_marker ss hook s = (Inr (Some m), s)"
    "row_marker r m" "validate_marker pl hook None m = Inr m" by blast
  have ok: "markers_ok (rc_committed s)" using assms(1) by (simp add: calm_def)
  have "List.find (\<lambda>r. row_key r = hook_key ss hook) (rc_committed s) = Some r"
    using ok r by (rule markers.find_key) (simp add: r(2))
  then have next_m: "next_attempt (hook_key ss hook) (rc_committed s) = mk_attempt m + 1"
    using m(2) by (simp add: next_attempt_def row_marker_def)
  have "completed_key (hook_key ss hook) (rc_committed s) \<longleftrightarrow> row_completed r"
    using markers.key_unique [OF ok _ r(1)] r unfolding completed_key_def by metis
  also have "\<dots> \<longleftrightarrow> mk_state m = COMPLETED" by (rule row_marker_completed [OF m(2)])
  finally show ?thesis using m r next_m by (intro some)
qed

lemma run_hook_reads:
  assumes "calm s" "plan_session ss pl" "hook_ok hook" "room (hook_key ss hook) (rc_committed s)"
  shows "completed_key (hook_key ss hook) (rc_committed s) \<Longrightarrow>
      \<exists>rep. run_hook ctx ss pl (h, hook) s = (Inr rep, s)"
    and "\<not> completed_key (hook_key ss hook) (rc_committed s) \<Longrightarrow>
      run_hook ctx ss pl (h, hook) s =
        start_hook ctx ss pl h hook (next_attempt (hook_key ss hook) (rc_committed s)) s"
  using assms
  by (cases rule: existing_marker; simp add: run_hook_def tx_simps tx_bind_def tx_lift_def tx_return_def)+

lemma run_hook_calm:
  assumes "calm s" "plan_session ss pl" "hook_ok hook" "room (hook_key ss hook) (rc_committed s)"
    and "succeeds ctx h"
  obtains rep s' where "run_hook ctx ss pl (h, hook) s = (Inr rep, s')" "calm s'"
    "completed_key (hook_key ss hook) (rc_committed s')"
    "same_others (hook_key ss hook) (rc_committed s) (rc_committed s')"
proof (cases "completed_key (hook_key ss hook) (rc_committed s)")
  case True
  then obtain rep where "run_hook ctx ss pl (h, hook) s = (Inr rep, s)"
    using run_hook_reads(1) [OF assms(1-4)] by blast
  from this assms(1) True show ?thesis by (rule that) (simp add: same_others_def)
next
  case False
  obtain m r t where m: "mark_started ss hook s = (Inr m, commits t s)"
    "validate_marker pl hook (Some STARTED) m = Inr m" "markers_ok t" "r \<in> set t"
    "still_started (hook_key ss hook) r" "mk_attempt m = row_attempt r"
    "row_attempt r = next_attempt (hook_key ss hook) (rc_committed s)"
    "same_others (hook_key ss hook) (rc_committed s) t"
    using assms(1-4) False by (rule mark_started_calm)
  have r: "r \<in> set (rc_committed (commits t s))" using m(4) by simp
  obtain c s' q where c: "run_attempt h ctx ss pl hook (mk_attempt m) m (commits t s) = (Inr c, s')"
    "calm s'" "q \<in> set (rc_committed s')" "row_key q = hook_key ss hook" "row_completed q"
    "same_others (hook_key ss hook) (rc_committed (commits t s)) (rc_committed s')"
    using calm_commits [OF assms(1) m(3)] assms(2,3) r m(5,6) assms(5) by (rule run_attempt_calm)
  obtain rep where "run_hook ctx ss pl (h, hook) s = (Inr rep, s')"
    using run_hook_reads(2) [OF assms(1-4) False, of ctx h] m(1,2,6,7) c(1)
    by (simp add: start_hook_def tx_bind_def tx_lift_def)
  moreover have "completed_key (hook_key ss hook) (rc_committed s')"
    using c(3-5) by (auto simp: completed_key_def)
  moreover have "same_others (hook_key ss hook) (rc_committed s) (rc_committed s')"
    using c(6) m(8) by (simp add: same_others_def)
  ultimately show ?thesis using c(2) by (intro that)
qed

lemma hook_key_inj: "hook_key ss h = hook_key ss h' \<longleftrightarrow> h = h'"
  by (auto simp: hook_key_def)

text \<open>What running some hooks does: theirs are completed, the others are as before.\<close>

definition completes :: "recon_session \<Rightarrow> hook_identity set \<Rightarrow> marker_row list \<Rightarrow> marker_row list \<Rightarrow> bool" where
  "completes ss hooks t t' \<longleftrightarrow>
     (\<forall>hook \<in> hooks. completed_key (hook_key ss hook) t') \<and>
     (\<forall>r. row_key r \<notin> hook_key ss ` hooks \<longrightarrow> r \<in> set t' \<longleftrightarrow> r \<in> set t)"

lemma completes_keeps:
  assumes "completes ss hooks t t'" "hook \<notin> hooks"
  shows "room (hook_key ss hook) t' \<longleftrightarrow> room (hook_key ss hook) t"
    and "completed_key (hook_key ss hook) t' \<longleftrightarrow> completed_key (hook_key ss hook) t"
proof -
  have "hook_key ss hook \<notin> hook_key ss ` hooks" using assms(2) by (auto simp: hook_key_inj)
  with assms(1) have same: "r \<in> set t' \<longleftrightarrow> r \<in> set t" if "row_key r = hook_key ss hook" for r
    using that unfolding completes_def by metis
  show "room (hook_key ss hook) t' \<longleftrightarrow> room (hook_key ss hook) t"
    unfolding room_def using same by blast
  show "completed_key (hook_key ss hook) t' \<longleftrightarrow> completed_key (hook_key ss hook) t"
    unfolding completed_key_def using same by blast
qed

lemma completes_one:
  assumes "same_others (hook_key ss hook) t t'" "completed_key (hook_key ss hook) t'"
  shows "completes ss {hook} t t'"
  using assms by (auto simp: completes_def same_others_def)

lemma completes_insert:
  assumes "completes ss {hook} t u" "completes ss hooks u v" "hook \<notin> hooks"
  shows "completes ss (insert hook hooks) t v"
proof -
  have "completed_key (hook_key ss hook) v"
    using completes_keeps(2) [OF assms(2,3)] assms(1) by (simp add: completes_def)
  with assms(1,2) show ?thesis unfolding completes_def by auto
qed

lemma run_hooks_calm:
  assumes "calm s" "plan_session ss pl" "distinct (map snd his)"
    and "\<forall>hi \<in> set his. hook_ok (snd hi) \<and> succeeds ctx (fst hi) \<and>
      room (hook_key ss (snd hi)) (rc_committed s)"
  shows "\<exists>reps s'. run_hooks ctx ss pl his s = (Inr reps, s') \<and> calm s' \<and>
    completes ss (snd ` set his) (rc_committed s) (rc_committed s')"
  using assms
proof (induction his arbitrary: s)
  case (Cons hi his)
  obtain h hook where hi: "hi = (h, hook)" by fastforce
  have ok: "hook_ok hook" "succeeds ctx h" "room (hook_key ss hook) (rc_committed s)"
    and new: "hook \<notin> snd ` set his"
    using Cons.prems(3,4) hi by auto
  obtain rep s1 where one: "run_hook ctx ss pl (h, hook) s = (Inr rep, s1)" "calm s1"
    "completed_key (hook_key ss hook) (rc_committed s1)"
    "same_others (hook_key ss hook) (rc_committed s) (rc_committed s1)"
    using Cons.prems(1,2) ok(1,3,2) by (rule run_hook_calm)
  have done_one: "completes ss {hook} (rc_committed s) (rc_committed s1)"
    by (rule completes_one [OF one(4,3)])
  have "hook_ok (snd x) \<and> succeeds ctx (fst x) \<and> room (hook_key ss (snd x)) (rc_committed s1)"
    if "x \<in> set his" for x
  proof -
    have "snd x \<notin> {hook}" using new that by auto
    with completes_keeps(1) [OF done_one] Cons.prems(4) that show ?thesis by simp
  qed
  then obtain reps s' where rest: "run_hooks ctx ss pl his s1 = (Inr reps, s')" "calm s'"
    "completes ss (snd ` set his) (rc_committed s1) (rc_committed s')"
    using Cons.IH [OF one(2) Cons.prems(2)] Cons.prems(3) by auto
  have "run_hooks ctx ss pl (hi # his) s = (Inr (rep # reps), s')"
    using one(1) rest(1) hi by (simp add: tx_return_def)
  moreover have "completes ss (snd ` set (hi # his)) (rc_committed s) (rc_committed s')"
    using completes_insert [OF done_one rest(3) new] hi by simp
  ultimately show ?case using rest(2) by blast
qed (simp add: tx_return_def completes_def)

lemma verify_hooks_calm:
  assumes "calm s" "plan_session ss pl"
    and "\<forall>hook \<in> set hooks. hook_ok hook \<and> completed_key (hook_key ss hook) (rc_committed s)"
  shows "verify_hooks ss pl hooks s = (Inr (), s)"
  using assms(3)
proof (induction hooks)
  case (Cons hook hooks)
  then obtain r where r: "r \<in> set (rc_committed s)" "row_key r = hook_key ss hook" "row_completed r"
    by (auto simp: completed_key_def)
  have "marker_row_ok r" using assms(1) r(1) by (auto simp: calm_def table_ok_def)
  with r(3) have "readable r" by (auto simp: marker_row_ok_def row_completed_def readable_def)
  with get_marker_calm(2) [OF assms(1,2) _ r(1,2)] Cons.prems obtain m where
    m: "get_marker ss hook s = (Inr (Some m), s)" "row_marker r m" "validate_marker pl hook None m = Inr m"
    by auto
  have "validate_marker pl hook (Some COMPLETED) m = Inr m"
    using m(3) row_marker_completed [OF m(2)] r(3) by (intro validate_expected) simp_all
  with m(1) have "verify_hook ss pl hook s = (Inr (), s)" by (simp add: verify_hook_def)
  with Cons show ?case by simp
qed (simp add: tx_return_def)

lemma run_body_calm:
  assumes "calm s" "plan_session ss pl" "pl_hooks pl = map identity_of hooks" "rr_hooks runner = hooks"
    and "distinct (map pr_name hooks)"
    and "\<forall>h \<in> set hooks. hook_ok (identity_of h) \<and> succeeds ctx h \<and>
      room (hook_key ss (identity_of h)) (rc_committed s)"
  shows "\<exists>reps s'. run_body ctx runner pl ss s = (Inr reps, s') \<and> calm s'"
proof -
  let ?his = "zip hooks (map identity_of hooks)"
  have zip: "?his = map (\<lambda>h. (h, identity_of h)) hooks" by (induction hooks) auto
  have "distinct (map snd ?his)"
    using assms(5) by (auto simp: distinct_map identity_of_def inj_on_def)
  with run_hooks_calm [OF assms(1,2), of ?his ctx] assms(6) obtain reps s' where
    run: "run_hooks ctx ss pl ?his s = (Inr reps, s')" "calm s'"
    "completes ss (identity_of ` set hooks) (rc_committed s) (rc_committed s')"
    by (auto simp: zip image_image)
  have "verify_hooks ss pl (map identity_of hooks) s' = (Inr (), s')"
    using run(3) assms(6) by (intro verify_hooks_calm [OF run(2) assms(2)]) (auto simp: completes_def)
  with run show ?thesis
    by (simp add: run_body_def assms(3,4) tx_return_def)
qed

subsection \<open>A run without faults\<close>

lemma acquire_quiet:
  "rc_script c = [] \<Longrightarrow> rc_open c \<Longrightarrow>
     acquire c = (Inr (), c\<lparr>rc_locks := rc_locks c + 1, rc_committed := rc_working c\<rparr>)"
  by (simp add: acquire_def or_discard_def tx_bind_def quiet_call lock_query_def conn_commit_def)

lemma release_lock_quiet:
  "rc_script c = [] \<Longrightarrow> rc_open c \<Longrightarrow> 0 < rc_locks c \<Longrightarrow>
     release_lock c = (Inr (), c\<lparr>rc_locks := rc_locks c - 1, rc_committed := rc_working c\<rparr>)"
  by (cases "rc_dict_rows c")
    (simp_all add: release_lock_def or_discard_def tx_bind_def quiet_call unlock_query_def
      conn_commit_def unlocked_value_def fetched_def column_def column_names_def)

abbreviation opened :: "recon_conn \<Rightarrow> recon_conn" where
  "opened p \<equiv> (connect p)\<lparr>rc_locks := rc_locks (connect p) + 1, rc_active := True\<rparr>"

lemma calm_opened: "rc_script p = [] \<Longrightarrow> markers_ok (rc_committed p) \<Longrightarrow> calm (opened p)"
  by (simp add: calm_def)

lemma held_session_calm:
  assumes "rc_script p = []" "make_session revision digest = Inr ss"
    and "body ss (opened p) = (r, s)" "calm s"
  obtains c where "held_session revision digest body (connect p) = (r, c)" "rc_script c = []"
    "rc_open c" "rc_committed c = rc_committed s" "rc_working c = rc_committed s" "rc_calls c = rc_calls s"
proof -
  have s: "rc_script s = []" "rc_open s" "0 < rc_locks s" "rc_working s = rc_committed s"
    using assms(4) by (simp_all add: calm_def)
  have acq: "acquire (connect p) = (Inr (), (connect p)\<lparr>rc_locks := rc_locks (connect p) + 1\<rparr>)"
    using acquire_quiet [of "connect p"] assms(1) by (simp add: connect_def)
  let ?c = "(deactivate s)\<lparr>rc_locks := rc_locks s - 1, rc_committed := rc_committed s\<rparr>"
  have rel: "release_lock (deactivate s) = (Inr (), ?c)"
    using release_lock_quiet [of "deactivate s"] s by (simp add: deactivate_def)
  have "held_session revision digest body (connect p) = (r, ?c)"
    using assms(2,3) by (simp add: held_session_def acq rel split: sum.split)
  then show ?thesis by (rule that) (use s in \<open>simp_all add: deactivate_def\<close>)
qed

lemma coordinate_calm:
  assumes "rc_script (po_driver_pool P) = []" "\<not> po_closed P"
    and "validate_revision revision = Inr revision" "lower_hex 64 digest"
    and "make_session revision digest = Inr ss"
    and "body ss (opened (po_driver_pool P)) = (r, s)" "calm s"
  obtains P' where "coordinate RECONCILIATION_ADVISORY_LOCK revision digest body P = (r, P')"
    "pool_committed P' = rc_committed s" "pool_calls P' = rc_calls s"
proof -
  obtain c where c: "held_session revision digest body (connect (po_driver_pool P)) = (r, c)"
    "rc_script c = []" "rc_open c" "rc_committed c = rc_committed s" "rc_working c = rc_committed s"
    "rc_calls c = rc_calls s"
    using assms(1,5-7) by (rule held_session_calm)
  have borrow: "borrow recon_pool P = (Inr (0, connect (po_driver_pool P)), add_borrowed 1 P)"
    using assms(1,2)
    by (simp add: borrow_def reserve_def checkout_def on_pool_def tx_on_def tx_bind_def recon_pool_def
        next_fault_def)
  let ?c2 = "c\<lparr>rc_working := rc_committed c\<rparr>"
  have rb: "conn_rollback c = (Inr (), ?c2)" using c(2,3) by (simp add: conn_rollback_def quiet_call)
  define P1 where "P1 = snd (take_discard 0 (add_borrowed 1 P))"
  define discard where "discard = (error_discards r \<or> fst (take_discard 0 (add_borrowed 1 P)))"
  obtain P' where rel: "release recon_pool 0 ?c2 discard P1 = (Inr (), P')"
    using c(2) by (simp add: release_def on_pool_def tx_on_def recon_pool_def next_fault_def)
  have "coordinate RECONCILIATION_ADVISORY_LOCK revision digest body P = (r, P')"
    using rel assms(3,4) unfolding P1_def discard_def
    by (auto simp: coordinate_def tx_simps validate_digest_def pool_connection_def borrow c(1) rb
        take_discard_def Let_def split: sum.split)
  with release_server [OF rel] c(4,6) show ?thesis by (intro that) auto
qed

lemma planned_session:
  assumes "make_runner hooks = Inr runner" and "plan runner revision = Inr pl"
  obtains ss where "plan_session ss pl" "validate_revision (pl_schema_revision pl) = Inr (pl_schema_revision pl)"
    "lower_hex 64 (pl_plan_digest pl)" "pl_hooks pl = map identity_of hooks" "rr_hooks runner = hooks"
    "distinct (map pr_name hooks)" "\<forall>h \<in> set hooks. hook_ok (identity_of h)"
    "\<forall>h. hook_key ss h = (pl_schema_revision pl, pl_plan_digest pl, hi_name h, hi_version h)"
proof -
  note hooks = make_runner_hooks [OF assms(1)]
  from assms(2) have rev: "validate_revision (pl_schema_revision pl) = Inr (pl_schema_revision pl)"
    and digest: "lower_hex 64 (pl_plan_digest pl)" and ids: "pl_hooks pl = map identity_of hooks"
    by (auto simp: plan_def map_sum_Inr_iff hooks canonical_plan_digest_def intro: validate_revision_again)
  let ?ss = "\<lparr>rs_schema_revision = pl_schema_revision pl, rs_plan_digest = pl_plan_digest pl\<rparr>"
  have "plan_session ?ss pl"
    using rev digest by (simp add: plan_session_def make_session_def validate_digest_def)
  moreover have "\<forall>h \<in> set hooks. hook_ok (identity_of h)"
    using hooks(4) by (simp add: hook_ok_def identity_of_def)
  ultimately show ?thesis
    using rev digest ids hooks(1,3) by (intro that [of ?ss]) (simp_all add: hook_key_def)
qed

lemma all_room:
  "\<forall>r \<in> set t. (\<forall>e. row_error_type r = Some e \<longrightarrow> safe_identity e) \<and> row_attempt r < MAX_INTEGER \<Longrightarrow>
     room p t"
  by (simp add: room_def readable_def)

lemma run_succeeds:
  assumes "make_runner hooks = Inr runner" and "plan runner revision = Inr pl"
    and "rc_script (po_driver_pool P) = []" and "\<not> po_closed P" and "markers_ok (pool_committed P)"
    and "\<forall>h \<in> set hooks. succeeds ctx h" and "\<And>p. room p (pool_committed P)"
  shows "\<exists>rep P'. run runner revision ctx P = (Inr rep, P')"
proof -
  obtain ss where ss: "plan_session ss pl" "validate_revision (pl_schema_revision pl) = Inr (pl_schema_revision pl)"
    "lower_hex 64 (pl_plan_digest pl)" "pl_hooks pl = map identity_of hooks" "rr_hooks runner = hooks"
    "distinct (map pr_name hooks)" "\<forall>h \<in> set hooks. hook_ok (identity_of h)"
    using assms(1,2) by (rule planned_session)
  have "\<forall>h \<in> set hooks. hook_ok (identity_of h) \<and> succeeds ctx h \<and>
      room (hook_key ss (identity_of h)) (rc_committed (opened (po_driver_pool P)))"
    using ss(7) assms(6,7) by simp
  from run_body_calm [OF calm_opened [OF assms(3,5)] ss(1,4-6) this] obtain reps s where
    body: "run_body ctx runner pl ss (opened (po_driver_pool P)) = (Inr reps, s)" "calm s" by blast
  obtain P' where "coordinate RECONCILIATION_ADVISORY_LOCK (pl_schema_revision pl) (pl_plan_digest pl)
      (run_body ctx runner pl) P = (Inr reps, P')"
    using assms(3,4) ss(2,3) ss(1) [unfolded plan_session_def] body by (rule coordinate_calm)
  then show ?thesis using assms(2) by (simp add: run_def tx_simps tx_bind_def tx_return_def)
qed

text \<open>
  C25. A run without faults returns. Whatever earlier runs left behind (hooks completed, failed, or
  started and then interrupted), if every hook returns a result the runner accepts and no marker
  has used up its attempts, the run completes and its report is returned.
\<close>

theorem run_returns:
  assumes "make_runner hooks = Inr runner" and "plan runner revision = Inr pl"
    and "rc_script (po_driver_pool P) = []" and "\<not> po_closed P" and "markers_ok (pool_committed P)"
    and "\<forall>h \<in> set hooks. \<forall>n. \<exists>d. result_digest (pr_reconcile h ctx n) = Inr d"
    and "\<forall>r \<in> set (pool_committed P). (\<forall>e. row_error_type r = Some e \<longrightarrow> safe_identity e) \<and>
      row_attempt r < MAX_INTEGER"
  shows "\<exists>rep P'. run runner revision ctx P = (Inr rep, P')"
proof (rule run_succeeds [OF assms(1-5)])
  show "\<forall>h \<in> set hooks. succeeds ctx h" using assms(6) by (simp add: succeeds_def)
  show "room p (pool_committed P)" for p by (rule all_room [OF assms(7)])
qed

subsection \<open>A hook that fails\<close>

definition raises :: "(string \<times> pyval) list \<Rightarrow> product_reconciler \<Rightarrow> string \<Rightarrow> bool" where
  "raises ctx h name \<longleftrightarrow> (\<forall>n. pr_reconcile h ctx n = Hook_raises name)"

text \<open>The marker after a failure: failed, if the name of the exception class is a bounded
  identifier; otherwise the failure cannot be recorded and the marker stays started.\<close>

definition failure_row :: "marker_key \<Rightarrow> string \<Rightarrow> marker_row \<Rightarrow> bool" where
  "failure_row p name r \<longleftrightarrow> row_key r = p \<and>
     (if safe_identity name then row_state r = ''failed'' \<and> row_error_type r = Some name
      else row_state r = ''started'')"

lemma fail_attempt_calm:
  assumes "calm s" "plan_session ss pl" "hook_ok hook" "r \<in> set (rc_committed s)"
    "still_started (hook_key ss hook) r"
  obtains q s' where "fail_attempt ss pl hook (Some name) s = (Inl (err ReconciliationError), s')"
    "calm s'" "q \<in> set (rc_committed s')" "failure_row (hook_key ss hook) name q"
    "row_attempt q = row_attempt r" "rc_calls s' = rc_calls s"
proof (cases "safe_identity name")
  case True
  with assms obtain m q t where f: "durable_failure ss pl hook name s = (Inr m, commits t s)" "markers_ok t"
    "q \<in> set t" "row_key q = hook_key ss hook" "row_state q = ''failed''" "row_error_type q = Some name"
    "row_attempt q = row_attempt r"
    by (rule durable_failure_calm)
  show ?thesis
    by (rule that [of "commits t s" q])
      (use f True calm_commits [OF assms(1) f(2)] in \<open>simp_all add: fail_attempt_def failure_row_def\<close>)
next
  case False
  then have "durable_failure ss pl hook name s = (Inl (err ReconciliationError), s)"
    by (simp add: durable_failure_def mark_failed_def tx_bind_def tx_require_def)
  with False assms show ?thesis
    by (intro that [of s r])
      (simp_all add: fail_attempt_def reported_def failure_row_def still_started_def)
qed

lemma run_hook_raises:
  assumes "calm s" "plan_session ss pl" "hook_ok hook" "room (hook_key ss hook) (rc_committed s)"
    and "\<not> completed_key (hook_key ss hook) (rc_committed s)" "raises ctx h name"
  obtains q s' where "run_hook ctx ss pl (h, hook) s = (Inl (err ReconciliationError), s')" "calm s'"
    "q \<in> set (rc_committed s')" "failure_row (hook_key ss hook) name q"
    "rc_calls s' = rc_calls s @ [(hook_key ss hook, row_attempt q)]"
proof -
  obtain m r t where m: "mark_started ss hook s = (Inr m, commits t s)"
    "validate_marker pl hook (Some STARTED) m = Inr m" "markers_ok t" "r \<in> set t"
    "still_started (hook_key ss hook) r" "mk_attempt m = row_attempt r"
    "row_attempt r = next_attempt (hook_key ss hook) (rc_committed s)"
    using assms(1-5) by (rule mark_started_calm)
  let ?s1 = "log_call ss hook (mk_attempt m) (commits t s)"
  have calm1: "calm ?s1" by (rule calm_log_call [OF calm_commits [OF assms(1) m(3)]])
  have r: "r \<in> set (rc_committed ?s1)" using m(4) by simp
  obtain q s' where q: "fail_attempt ss pl hook (Some name) ?s1 =
      (Inl (err ReconciliationError) :: hook_report res, s')"
    "calm s'" "q \<in> set (rc_committed s')" "failure_row (hook_key ss hook) name q"
    "row_attempt q = row_attempt r" "rc_calls s' = rc_calls ?s1"
    using calm1 assms(2,3) r m(5) by (rule fail_attempt_calm)
  have "run_hook ctx ss pl (h, hook) s = (Inl (err ReconciliationError), s')"
    using run_hook_reads(2) [OF assms(1-5), of ctx h] m(1,2,6,7) q(1) assms(6)
    by (simp add: start_hook_def tx_bind_def tx_lift_def run_attempt_def raises_def Let_def)
  then show ?thesis using q m(6)
    by (intro that [of s' q]) (simp_all add: log_call_def hook_key_def)
qed

lemma run_hooks_stops:
  "run_hooks ctx ss pl his s = (Inr reps, s1) \<Longrightarrow> run_hook ctx ss pl hi s1 = (Inl e, s2) \<Longrightarrow>
     run_hooks ctx ss pl (his @ hi # rest) s = (Inl e, s2)"
proof (induction his arbitrary: s reps)
  case (Cons x his)
  then show ?case by (auto simp: tx_success tx_bind_def tx_return_def split: prod.splits sum.splits)
qed (simp add: tx_return_def)

lemma run_body_raises:
  assumes "calm s" "plan_session ss pl" "pl_hooks pl = map identity_of (before @ h # after)"
    "rr_hooks runner = before @ h # after" "distinct (map pr_name (before @ h # after))"
    and "\<forall>g \<in> set (before @ h # after). hook_ok (identity_of g) \<and>
      room (hook_key ss (identity_of g)) (rc_committed s)"
    and "\<forall>g \<in> set before. succeeds ctx g" "raises ctx h name"
    and "\<not> completed_key (hook_key ss (identity_of h)) (rc_committed s)"
  obtains q s' calls where "run_body ctx runner pl ss s = (Inl (err ReconciliationError), s')" "calm s'"
    "q \<in> set (rc_committed s')" "failure_row (hook_key ss (identity_of h)) name q"
    "rc_calls s' = calls @ [(hook_key ss (identity_of h), row_attempt q)]"
    "\<forall>g \<in> set before. completed_key (hook_key ss (identity_of g)) (rc_committed s')"
proof -
  let ?his = "map (\<lambda>g. (g, identity_of g)) before"
  have zip: "zip hooks (map identity_of hooks) = map (\<lambda>g. (g, identity_of g)) hooks" for hooks
    by (induction hooks) auto
  have inj: "identity_of h \<notin> identity_of ` set before" "distinct (map snd ?his)"
    using assms(5) by (auto simp: distinct_map identity_of_def inj_on_def)
  obtain reps s1 where pre: "run_hooks ctx ss pl ?his s = (Inr reps, s1)" "calm s1"
    "completes ss (identity_of ` set before) (rc_committed s) (rc_committed s1)"
    using run_hooks_calm [OF assms(1,2) inj(2), of ctx] assms(6,7) by (auto simp: image_image)
  note keeps = completes_keeps [OF pre(3) inj(1)]
  have h: "hook_ok (identity_of h)" "room (hook_key ss (identity_of h)) (rc_committed s1)"
    "\<not> completed_key (hook_key ss (identity_of h)) (rc_committed s1)"
    using assms(6,9) keeps by auto
  obtain q s' where q: "run_hook ctx ss pl (h, identity_of h) s1 = (Inl (err ReconciliationError), s')"
    "calm s'" "q \<in> set (rc_committed s')" "failure_row (hook_key ss (identity_of h)) name q"
    "rc_calls s' = rc_calls s1 @ [(hook_key ss (identity_of h), row_attempt q)]"
    using pre(2) assms(2) h assms(8) by (rule run_hook_raises)
  have "conn_ok s1" using pre(2) by (simp add: calm_def conn_ok_def markers.ev.order_refl)
  with tx_relD [OF run_hook_order q(1)] have "markers.evo (rc_committed s1) (rc_committed s')"
    "markers_ok (rc_committed s1)" by (auto simp: recon_order_def dest: conn_ok_markers)
  from evo_completed(2) [OF this] pre(3)
  have "\<forall>g \<in> set before. completed_key (hook_key ss (identity_of g)) (rc_committed s')"
    unfolding completes_def by blast
  moreover have "run_body ctx runner pl ss s = (Inl (err ReconciliationError), s')"
    using run_hooks_stops [OF pre(1) q(1), of "map (\<lambda>g. (g, identity_of g)) after"]
    unfolding run_body_def assms(3,4) zip by simp
  ultimately show ?thesis using q(2-5) by (intro that)
qed

text \<open>
  C26. A hook that fails is recorded and stops the run. When the hooks before it succeed and it
  raises, a run without faults reports \<open>ReconciliationError\<close>, the hooks before it are durably
  completed, the failing call is the last one made, and its marker is committed as failed with the
  name of the exception class; unless that name is no bounded identifier, in which case the
  failure is not recorded and the marker stays started.
\<close>

theorem failed_hook_is_recorded:
  assumes "make_runner (before @ h # after) = Inr runner" and "plan runner revision = Inr pl"
    and "rc_script (po_driver_pool P) = []" and "\<not> po_closed P" and "markers_ok (pool_committed P)"
    and "\<forall>r \<in> set (pool_committed P). (\<forall>e. row_error_type r = Some e \<longrightarrow> safe_identity e) \<and>
      row_attempt r < MAX_INTEGER"
    and "\<forall>g \<in> set before. \<forall>n. \<exists>d. result_digest (pr_reconcile g ctx n) = Inr d"
    and "\<forall>n. pr_reconcile h ctx n = Hook_raises name"
    and "p = (\<lambda>g. (pl_schema_revision pl, pl_plan_digest pl, pr_name g, pr_version g))"
    and "\<not> completed_key (p h) (pool_committed P)"
  shows "\<exists>P' r calls. run runner revision ctx P = (Inl (err ReconciliationError), P') \<and>
    (\<forall>g \<in> set before. completed_key (p g) (pool_committed P')) \<and>
    r \<in> set (pool_committed P') \<and> row_key r = p h \<and>
    pool_calls P' = calls @ [(p h, row_attempt r)] \<and>
    (if safe_identity name then row_state r = ''failed'' \<and> row_error_type r = Some name
     else row_state r = ''started'')"
proof -
  let ?hooks = "before @ h # after" and ?s = "opened (po_driver_pool P)"
  obtain ss where ss: "plan_session ss pl" "validate_revision (pl_schema_revision pl) = Inr (pl_schema_revision pl)"
    "lower_hex 64 (pl_plan_digest pl)" "pl_hooks pl = map identity_of ?hooks" "rr_hooks runner = ?hooks"
    "distinct (map pr_name ?hooks)" "\<forall>h \<in> set ?hooks. hook_ok (identity_of h)"
    and key: "\<forall>h. hook_key ss h = (pl_schema_revision pl, pl_plan_digest pl, hi_name h, hi_version h)"
    using assms(1,2) by (rule planned_session)
  have p: "hook_key ss (identity_of g) = p g" for g using key assms(9) by (simp add: identity_of_def)
  have "\<forall>g \<in> set ?hooks. hook_ok (identity_of g) \<and> room (hook_key ss (identity_of g)) (rc_committed ?s)"
    using ss(7) all_room [OF assms(6)] by simp
  moreover have "\<forall>g \<in> set before. succeeds ctx g" "raises ctx h name"
    "\<not> completed_key (hook_key ss (identity_of h)) (rc_committed ?s)"
    using assms(7,8,10) p by (simp_all add: succeeds_def raises_def)
  ultimately obtain q s' calls where body: "run_body ctx runner pl ss ?s = (Inl (err ReconciliationError), s')"
    "calm s'" "q \<in> set (rc_committed s')" "failure_row (p h) name q"
    "rc_calls s' = calls @ [(p h, row_attempt q)]"
    "\<forall>g \<in> set before. completed_key (p g) (rc_committed s')"
    using run_body_raises [OF calm_opened [OF assms(3,5)] ss(1,4-6)] unfolding p by metis
  obtain P' where P': "coordinate RECONCILIATION_ADVISORY_LOCK (pl_schema_revision pl) (pl_plan_digest pl)
      (run_body ctx runner pl) P = (Inl (err ReconciliationError), P')"
    "pool_committed P' = rc_committed s'" "pool_calls P' = rc_calls s'"
    using assms(3,4) ss(2,3) ss(1) [unfolded plan_session_def] body(1,2) by (rule coordinate_calm)
  have "run runner revision ctx P = (Inl (err ReconciliationError), P')"
    using P'(1) assms(2) by (simp add: run_def tx_simps)
  with body(3-6) P'(2,3) show ?thesis unfolding failure_row_def
    by (intro exI [of _ P'] exI [of _ q] exI [of _ calls]) auto
qed

subsection \<open>Sample runs\<close>

definition backfill_hook :: product_reconciler where
  "backfill_hook = \<lparr>pr_name = ''backfill'', pr_version = ''1'', pr_reconcile = \<lambda>_ _. Returns_none\<rparr>"

definition index_hook :: product_reconciler where
  "index_hook = \<lparr>pr_name = ''index'', pr_version = ''2'', pr_reconcile = \<lambda>_ _. Hook_raises ''TimeoutError''\<rparr>"

definition empty_server :: recon_conn where
  "empty_server = \<lparr>rc_committed = [], rc_working = [], rc_open = True, rc_locks = 0,
     rc_dict_rows = False, rc_active = False, rc_script = [], rc_calls = []\<rparr>"

definition failed_server :: recon_conn where
  "failed_server = (let t = [\<lparr>row_schema_revision = ''089.014'', row_plan_digest = replicate 64 (CHR ''0''),
      row_hook_name = ''backfill'', row_hook_version = ''1'', row_state = ''failed'', row_attempt = 1,
      row_result_digest = None, row_error_type = Some ''TimeoutError''\<rparr>]
    in empty_server\<lparr>rc_committed := t, rc_working := t\<rparr>)"

definition runner_of :: "product_reconciler list \<Rightarrow> reconciliation_runner" where
  "runner_of hooks = \<lparr>rr_hooks = hooks, rr_identities = map identity_of hooks\<rparr>"

lemma reconciler_names:
  "safe_identity ''backfill''" "safe_identity ''index''" "safe_identity ''1''" "safe_identity ''2''"
  "safe_identity ''TimeoutError''"
  by code_simp+

lemma sample_runners:
  "make_runner [backfill_hook] = Inr (runner_of [backfill_hook])"
  "make_runner [backfill_hook, index_hook] = Inr (runner_of [backfill_hook, index_hook])"
  by (simp_all add: make_runner_def runner_of_def identity_of_def backfill_hook_def index_hook_def
      reconciler_names)

lemma sample_revision: "validate_revision ''089.014'' = Inr ''089.014''"
  by code_simp

definition sample_plan :: "product_reconciler list \<Rightarrow> reconciliation_plan" where
  "sample_plan hooks = \<lparr>pl_schema_revision = ''089.014'',
     pl_plan_digest = canonical_plan_digest ''089.014'' (map identity_of hooks),
     pl_hooks = map identity_of hooks\<rparr>"

lemma sample_plan: "plan (runner_of hooks) ''089.014'' = Inr (sample_plan hooks)"
  by (simp add: plan_def sample_revision runner_of_def sample_plan_def)

lemma sample_servers:
  "rc_script empty_server = []" "rc_script failed_server = []" "rc_committed empty_server = []"
  "markers_ok []" "markers_ok (rc_committed failed_server)" "rc_calls empty_server = []"
proof -
  show "markers_ok (rc_committed failed_server)"
    by (simp add: failed_server_def Let_def table_ok_def) code_simp
qed (simp_all add: empty_server_def failed_server_def Let_def table_ok_def)

lemma new_pool_fields: "po_driver_pool (new_pool p) = p" "\<not> po_closed (new_pool p)"
  by (simp_all add: new_pool_def)

lemma backfill_succeeds: "\<forall>n. \<exists>d. result_digest (pr_reconcile backfill_hook ctx n) = Inr d"
  by (simp add: backfill_hook_def object_digest_def)

theorem run_returns_witness:
  "\<exists>rep P'. run (runner_of [backfill_hook]) ''089.014'' [] (new_pool failed_server) = (Inr rep, P')"
proof (rule run_returns [OF sample_runners(1) sample_plan])
  show "\<forall>r \<in> set (pool_committed (new_pool failed_server)).
      (\<forall>e. row_error_type r = Some e \<longrightarrow> safe_identity e) \<and> row_attempt r < MAX_INTEGER"
    by (simp add: new_pool_fields failed_server_def Let_def reconciler_names MAX_INTEGER_def)
qed (simp_all add: new_pool_fields sample_servers backfill_succeeds)

theorem failed_hook_is_recorded_witness:
  "\<exists>P' r. run (runner_of [backfill_hook, index_hook]) ''089.014'' [] (new_pool empty_server) =
      (Inl (err ReconciliationError), P') \<and> r \<in> set (pool_committed P') \<and>
    row_hook_name r = ''index'' \<and> row_state r = ''failed'' \<and> row_error_type r = Some ''TimeoutError''"
proof -
  let ?pl = "sample_plan [backfill_hook, index_hook]"
  define p where "p = (\<lambda>g :: product_reconciler. (pl_schema_revision ?pl, pl_plan_digest ?pl, pr_name g, pr_version g))"
  have "\<exists>P' r calls. run (runner_of [backfill_hook, index_hook]) ''089.014'' [] (new_pool empty_server) =
      (Inl (err ReconciliationError), P') \<and>
    (\<forall>g \<in> set [backfill_hook]. completed_key (p g) (pool_committed P')) \<and>
    r \<in> set (pool_committed P') \<and> row_key r = p index_hook \<and>
    pool_calls P' = calls @ [(p index_hook, row_attempt r)] \<and>
    (if safe_identity ''TimeoutError'' then row_state r = ''failed'' \<and> row_error_type r = Some ''TimeoutError''
     else row_state r = ''started'')"
    using sample_runners(2) sample_plan
    by (intro failed_hook_is_recorded [where after = "[]" and pl = ?pl])
      (simp_all add: new_pool_fields sample_servers backfill_succeeds completed_key_def p_def index_hook_def)
  then show ?thesis
    by (auto simp: reconciler_names p_def row_key_def index_hook_def)
qed

theorem run_complete_witness:
  "\<exists>rep P'. run (runner_of [backfill_hook]) ''089.014'' [] (new_pool empty_server) = (Inr rep, P') \<and>
    rp_durably_complete rep \<and> map hr_hook (rp_hooks rep) = [identity_of backfill_hook] \<and>
    list_all (\<lambda>r. report_holds (report_key rep r) (pool_committed P') r) (rp_hooks rep)"
proof -
  have "\<exists>rep P'. run (runner_of [backfill_hook]) ''089.014'' [] (new_pool empty_server) = (Inr rep, P')"
    by (rule run_succeeds [OF sample_runners(1) sample_plan])
      (simp_all add: new_pool_fields sample_servers succeeds_def backfill_succeeds room_def)
  then obtain rep P' where
    run: "run (runner_of [backfill_hook]) ''089.014'' [] (new_pool empty_server) = (Inr rep, P')" by blast
  from run_complete [OF sample_runners(1) run] run show ?thesis
    by (auto simp: new_pool_fields sample_servers list_all_iff)
qed

theorem attempts_run_once_witness:
  "let s = po_driver_pool (snd (run (runner_of [backfill_hook, index_hook]) ''089.014'' [] (new_pool empty_server)))
   in markers_ok (rc_committed s) \<and> sorted_wrt (\<lambda>(p, a) (q, b). \<not> (p = q \<and> b \<le> a)) (rc_calls s)"
proof -
  let ?P = "new_pool empty_server" and ?runner = "runner_of [backfill_hook, index_hook]"
  have "recon_step (po_driver_pool ?P) (po_driver_pool (snd (run ?runner ''089.014'' [] ?P)))"
    by (rule a_run) (rule prod.collapse [symmetric])
  then have "recon_step\<^sup>*\<^sup>* empty_server (po_driver_pool (snd (run ?runner ''089.014'' [] ?P)))"
    by (simp add: new_pool_fields r_into_rtranclp)
  from attempts_run_once [OF this] show ?thesis
    by (auto simp: Let_def sample_servers elim!: sorted_wrt_mono_rel [rotated])
qed

end
