(* ===== verification/Uuid.thy ===== *)
theory Uuid
  imports Domain
begin

text \<open>
  The text of a UUID: \<open>uuid.UUID(text)\<close> and \<open>str\<close> of the result, as the repositories use them to
  bring an identifier into its canonical form.
\<close>

text \<open>\<open>uuid.UUID(text)\<close>: prefixes, braces and hyphens are dropped, the rest is \<open>int(_, 16)\<close>.\<close>

fun remove_all :: "string \<Rightarrow> string \<Rightarrow> string" where
  "remove_all pat [] = []"
| "remove_all pat (c # cs) =
     (if pat \<noteq> [] \<and> take (length pat) (c # cs) = pat then remove_all pat (drop (length pat) (c # cs))
      else c # remove_all pat cs)"

definition strip_braces :: "string \<Rightarrow> string" where
  "strip_braces s =
     rev (dropWhile (\<lambda>c. c \<in> set ''{}'') (rev (dropWhile (\<lambda>c. c \<in> set ''{}'') s)))"

definition hex_digit_value :: "char \<Rightarrow> nat option" where
  "hex_digit_value c =
     (let n = of_char c :: nat in
      if 48 \<le> n \<and> n \<le> 57 then Some (n - 48)
      else if 97 \<le> n \<and> n \<le> 102 then Some (n - 87)
      else if 65 \<le> n \<and> n \<le> 70 then Some (n - 55)
      else None)"

text \<open>Digits, with single underscores between them.\<close>

fun hex_digits :: "nat \<Rightarrow> bool \<Rightarrow> string \<Rightarrow> nat option" where
  "hex_digits acc after_digit [] = (if after_digit then Some acc else None)"
| "hex_digits acc after_digit (c # cs) =
     (if c = CHR ''_'' then (if after_digit then hex_digits acc False cs else None)
      else case hex_digit_value c of None \<Rightarrow> None
           | Some d \<Rightarrow> hex_digits (16 * acc + d) True cs)"

fun drop_hex_prefix :: "string \<Rightarrow> string" where
  "drop_hex_prefix (z # x # cs) =
     (if z = CHR ''0'' \<and> x \<in> set ''xX''
      then (case cs of c # cs' \<Rightarrow> if c = CHR ''_'' then cs' else cs | [] \<Rightarrow> [])
      else z # x # cs)"
| "drop_hex_prefix s = s"

definition py_int16 :: "string \<Rightarrow> nat option" where
  "py_int16 s =
     (let t = py_strip s;
          u = (case t of c # cs \<Rightarrow> if c = CHR ''+'' then cs else t | [] \<Rightarrow> [])
      in hex_digits 0 False (drop_hex_prefix u))"

fun hex_field :: "nat \<Rightarrow> nat \<Rightarrow> string" where
  "hex_field 0 n = []"
| "hex_field (Suc k) n = hex_field k (n div 16) @ [hex_chars ! (n mod 16)]"

definition uuid_text :: "nat \<Rightarrow> string" where
  "uuid_text n =
     (let h = hex_field 32 n
      in take 8 h @ ''-'' @ take 4 (drop 8 h) @ ''-'' @ take 4 (drop 12 h) @ ''-'' @
         take 4 (drop 16 h) @ ''-'' @ drop 20 h)"

definition py_uuid :: "string \<Rightarrow> string option" where
  "py_uuid s =
     (let h = filter (\<lambda>c. c \<noteq> CHR ''-'')
                (strip_braces (remove_all ''uuid:'' (remove_all ''urn:'' s)))
      in if length h \<noteq> 32 then None else map_option uuid_text (py_int16 h))"

subsection \<open>The canonical text reads back\<close>

lemma hex_char_cases:
  assumes "m < 16"
  shows "hex_digit_value (hex_chars ! m) = Some m \<and> hex_chars ! m \<notin> set ''_-{}+xXu'' \<and> \<not> py_space (hex_chars ! m)"
proof -
  have "list_all (\<lambda>m. hex_digit_value (hex_chars ! m) = Some m \<and> hex_chars ! m \<notin> set ''_-{}+xXu'' \<and>
      \<not> py_space (hex_chars ! m)) [0..<16]"
    by code_simp
  with assms show ?thesis by (simp add: list_all_iff del: upt_Suc)
qed

lemma length_hex_field [simp]: "length (hex_field k n) = k"
  by (induction k arbitrary: n) auto

lemma hex_field_chars: "c \<in> set (hex_field k n) \<Longrightarrow> \<exists>m < 16. c = hex_chars ! m"
proof (induction k arbitrary: n)
  case (Suc k)
  then show ?case by (cases "c = hex_chars ! (n mod 16)") (auto intro: exI [of _ "n mod 16"])
qed simp

lemma hex_field_mod: "hex_field k (n mod 16 ^ k) = hex_field k n"
proof (induction k arbitrary: n)
  case (Suc k)
  have "n mod 16 ^ Suc k = 16 * (n div 16 mod 16 ^ k) + n mod 16" by (simp add: mod_mult2_eq)
  then have "n mod 16 ^ Suc k div 16 = n div 16 mod 16 ^ k" "n mod 16 ^ Suc k mod 16 = n mod 16"
    by simp_all
  with Suc show ?case by simp
qed simp

lemma hex_digits_field:
  "hex_digits acc b (hex_field k n @ ys) = hex_digits (acc * 16 ^ k + n mod 16 ^ k) (b \<or> 0 < k) ys"
proof (induction k arbitrary: n ys)
  case (Suc k)
  have "n mod 16 ^ Suc k = 16 * (n div 16 mod 16 ^ k) + n mod 16" by (simp add: mod_mult2_eq)
  moreover have "hex_digit_value (hex_chars ! (n mod 16)) = Some (n mod 16)" "hex_chars ! (n mod 16) \<noteq> CHR ''_''"
    using hex_char_cases [of "n mod 16"] by auto
  ultimately show ?case by (simp add: Suc algebra_simps)
qed simp

lemma remove_all_absent: "pat = p # ps \<Longrightarrow> p \<notin> set s \<Longrightarrow> remove_all pat s = s"
  by (induction s) auto

lemma dropWhile_none: "(\<And>c. c \<in> set s \<Longrightarrow> \<not> P c) \<Longrightarrow> dropWhile P s = s"
  by (cases s) auto

lemma uuid_text_chars: "c \<in> set (uuid_text n) \<Longrightarrow> c = CHR ''-'' \<or> (\<exists>m < 16. c = hex_chars ! m)"
  unfolding uuid_text_def Let_def
  by (auto dest!: in_set_takeD in_set_dropD dest: hex_field_chars)

lemma uuid_text_digits: "filter (\<lambda>c. c \<noteq> CHR ''-'') (uuid_text n) = hex_field 32 n"
proof -
  let ?h = "hex_field 32 n"
  have "filter (\<lambda>c. c \<noteq> CHR ''-'') xs = xs" if "set xs \<subseteq> set ?h" for xs
    using that hex_field_chars hex_char_cases by (intro filter_True) fastforce
  then have "filter (\<lambda>c. c \<noteq> CHR ''-'') (uuid_text n) =
      take 8 ?h @ take 4 (drop 8 ?h) @ take 4 (drop 12 ?h) @ take 4 (drop 16 ?h) @ drop 20 ?h"
    by (simp add: uuid_text_def Let_def set_take_subset set_drop_subset subset_trans [OF set_take_subset set_drop_subset])
  also have "\<dots> = ?h"
    using append_take_drop_id [of 4 "drop 16 ?h"] append_take_drop_id [of 4 "drop 12 ?h"]
      append_take_drop_id [of 4 "drop 8 ?h"] append_take_drop_id [of 8 ?h]
    by (simp only: drop_drop) simp
  finally show ?thesis .
qed

lemma py_uuid_uuid_text: "py_uuid (uuid_text n) = Some (uuid_text n)"
proof -
  let ?t = "uuid_text n" and ?h = "hex_field 32 n"
  have chars: "c \<notin> set ''{}+xXu''" "\<not> py_space c" if "c \<in> set ?h" for c
    using hex_field_chars [OF that] hex_char_cases by auto
  have plain: "c \<notin> set ''{}u''" if "c \<in> set ?t" for c
    using uuid_text_chars [OF that] hex_char_cases by auto
  have "CHR ''u'' \<notin> set ?t" using plain by auto
  then have "remove_all ''uuid:'' (remove_all ''urn:'' ?t) = ?t"
    using remove_all_absent [OF refl, of "CHR ''u''"] by simp
  moreover have "dropWhile (\<lambda>c. c \<in> set ''{}'') u = u" if "set u = set ?t" for u
    by (rule dropWhile_none) (use plain that in auto)
  then have "strip_braces ?t = ?t" unfolding strip_braces_def by (simp del: list.set)
  moreover have "py_int16 ?h = Some (n mod 16 ^ 32)"
  proof -
    obtain a b cs where h: "?h = a # b # cs"
      using length_hex_field [of 32 n] by (cases ?h; cases "tl ?h") auto
    have "dropWhile py_space u = u" if "set u = set ?h" for u
      by (rule dropWhile_none) (use chars that in auto)
    then have strip: "py_strip ?h = ?h" by (simp add: py_strip_def)
    have "(case ?h of c # cs \<Rightarrow> if c = CHR ''+'' then cs else ?h | [] \<Rightarrow> []) = ?h" "drop_hex_prefix ?h = ?h"
      using chars [of a] chars [of b] by (auto simp: h)
    then show ?thesis
      using hex_digits_field [of 0 False 32 n "[]"] unfolding py_int16_def Let_def strip by simp
  qed
  moreover have "uuid_text (n mod 16 ^ 32) = ?t"
    using hex_field_mod [of 32 n] by (simp only: uuid_text_def)
  ultimately show ?thesis
    unfolding py_uuid_def Let_def by (simp only: uuid_text_digits length_hex_field) simp
qed

lemma py_uuid_canonical: "py_uuid s = Some u \<Longrightarrow> py_uuid u = Some u"
proof -
  assume "py_uuid s = Some u"
  then obtain n where "u = uuid_text n" by (auto simp: py_uuid_def Let_def split: if_splits)
  then show ?thesis by (simp add: py_uuid_uuid_text)
qed

end
