(* ===== verification/CompletionWake.thy ===== *)
theory CompletionWake
  imports Uuid
begin

text \<open>
  Completion subscriptions and wake receipts: \<open>repositories/completion_wake.py\<close> over the tables of
  \<open>database/completion_wake_schema.py\<close>. A waiter subscribes to the end of another operation; each
  observed end is accepted once per idempotency key.

  The methods that look a receipt up before they insert it take an argument \<open>race\<close>: what other
  transactions commit between the two statements. The identifiers \<open>uuid.uuid4\<close> draws are
  arguments too. A text with a NUL character is refused by the driver.
\<close>

subsection \<open>Validation\<close>

definition TERMINALS :: "string list" where
  "TERMINALS = [''completed'', ''failed'', ''cancelled'']"

definition CONDITIONS :: "string list" where
  "CONDITIONS = TERMINALS @ [''any_terminal'']"

definition MAX_REVISION :: int where
  "MAX_REVISION = 9007199254740991"

abbreviation validation_error :: plane_error where
  "validation_error \<equiv> err RepositoryValidationError"

definition required_owner :: "string \<Rightarrow> string res" where
  "required_owner s = required_id 512 s"

definition required_uuid :: "string \<Rightarrow> string res" where
  "required_uuid s =
     res_bind (required_id 36 s) (\<lambda>t.
     case py_uuid t of None \<Rightarrow> Inl validation_error | Some u \<Rightarrow> Inr u)"

definition required_revision :: "int \<Rightarrow> int res" where
  "required_revision n = (if 1 \<le> n \<and> n \<le> MAX_REVISION then Inr n else Inl validation_error)"

definition required_millis :: "int \<Rightarrow> int res" where
  "required_millis n = (if n < 0 then Inl validation_error else Inr n)"

definition required_key :: "string \<Rightarrow> string res" where
  "required_key s = (if 1 \<le> length s \<and> length s \<le> 512 then Inr s else Inl validation_error)"

subsection \<open>Rows\<close>

record completion_subscription =
  cs_subscription_id :: string
  cs_owner_id :: string
  cs_waiter_operation_id :: string
  cs_waiter_owner_id :: string
  cs_source_operation_id :: string
  cs_source_owner_id :: string
  cs_terminal_condition :: string
  cs_source_revision :: int
  cs_current_revision_fence :: int
  cs_created_at :: int
  cs_revoked_at :: "int option"

record wake_receipt =
  wr_receipt_id :: string
  wr_subscription_id :: string
  wr_owner_id :: string
  wr_idempotency_key :: string
  wr_observed_terminal :: string
  wr_observed_revision :: int
  wr_accepted_at :: int
  wr_replay_of :: "string option"

record wake_db =
  wd_subscriptions :: "completion_subscription list"
  wd_receipts :: "wake_receipt list"

definition char_between :: "nat \<Rightarrow> nat \<Rightarrow> string \<Rightarrow> bool" where
  "char_between a b s = (pg_text s \<and> a \<le> length s \<and> length s \<le> b)"

definition subscription_ok :: "completion_subscription \<Rightarrow> bool" where
  "subscription_ok s =
     (char_between 1 512 (cs_owner_id s) \<and> char_between 1 512 (cs_waiter_owner_id s) \<and>
      char_between 1 512 (cs_source_owner_id s) \<and> cs_terminal_condition s \<in> set CONDITIONS \<and>
      1 \<le> cs_source_revision s \<and> cs_source_revision s \<le> MAX_REVISION \<and>
      1 \<le> cs_current_revision_fence s \<and> cs_current_revision_fence s \<le> MAX_REVISION \<and>
      0 \<le> cs_created_at s \<and> cs_created_at s \<le> MAX_BIGINT \<and>
      (\<forall>at \<in> set_option (cs_revoked_at s). cs_created_at s \<le> at \<and> at \<le> MAX_BIGINT) \<and>
      cs_source_revision s \<le> cs_current_revision_fence s \<and>
      (cs_waiter_operation_id s \<noteq> cs_source_operation_id s \<or>
       cs_waiter_owner_id s \<noteq> cs_source_owner_id s))"

definition subscription_conflict :: "completion_subscription \<Rightarrow> completion_subscription \<Rightarrow> bool" where
  "subscription_conflict s t = (cs_subscription_id s = cs_subscription_id t)"

definition receipt_ok :: "wake_receipt \<Rightarrow> bool" where
  "receipt_ok r =
     (char_between 1 512 (wr_owner_id r) \<and> char_between 1 512 (wr_idempotency_key r) \<and>
      wr_observed_terminal r \<in> set TERMINALS \<and>
      1 \<le> wr_observed_revision r \<and> wr_observed_revision r \<le> MAX_REVISION \<and>
      0 \<le> wr_accepted_at r \<and> wr_accepted_at r \<le> MAX_BIGINT)"

definition receipt_idempotent :: "wake_receipt \<Rightarrow> wake_receipt \<Rightarrow> bool" where
  "receipt_idempotent r q =
     (wr_subscription_id r = wr_subscription_id q \<and> wr_idempotency_key r = wr_idempotency_key q)"

definition receipt_conflict :: "wake_receipt \<Rightarrow> wake_receipt \<Rightarrow> bool" where
  "receipt_conflict r q = (wr_receipt_id r = wr_receipt_id q \<or> receipt_idempotent r q)"

subsection \<open>Statements\<close>

abbreviation find_subscription :: "string \<Rightarrow> string \<Rightarrow> wake_db \<Rightarrow> completion_subscription option" where
  "find_subscription sub owner d \<equiv>
     List.find (\<lambda>s. cs_subscription_id s = sub \<and> cs_owner_id s = owner) (wd_subscriptions d)"

abbreviation find_receipt :: "string \<Rightarrow> string \<Rightarrow> string \<Rightarrow> wake_db \<Rightarrow> wake_receipt option" where
  "find_receipt sub key owner d \<equiv>
     List.find (\<lambda>r. wr_subscription_id r = sub \<and> wr_idempotency_key r = key \<and> wr_owner_id r = owner)
       (wd_receipts d)"

definition wake_covers :: "string \<Rightarrow> string \<Rightarrow> bool" where
  "wake_covers condition observed = (condition = ''any_terminal'' \<or> condition = observed)"

text \<open>
  \<open>INSERT INTO wake_receipt ... SELECT ... WHERE EXISTS ... ON CONFLICT (subscription_id,
  idempotency_key) DO NOTHING\<close>; the result says whether a row was written.
\<close>

definition live_subscription :: "wake_receipt \<Rightarrow> completion_subscription \<Rightarrow> bool" where
  "live_subscription r s =
     (cs_subscription_id s = wr_subscription_id r \<and> cs_owner_id s = wr_owner_id r \<and>
      cs_revoked_at s = None \<and> wake_covers (cs_terminal_condition s) (wr_observed_terminal r) \<and>
      cs_source_revision s \<le> wr_observed_revision r \<and>
      wr_observed_revision r \<le> cs_current_revision_fence s)"

text \<open>The foreign keys of a new receipt.\<close>

definition receipt_refs :: "wake_db \<Rightarrow> wake_receipt \<Rightarrow> bool" where
  "receipt_refs d r =
     ((\<exists>s \<in> set (wd_subscriptions d). cs_subscription_id s = wr_subscription_id r) \<and>
      (\<forall>q \<in> set_option (wr_replay_of r). \<exists>x \<in> set (wd_receipts d). wr_receipt_id x = q))"

definition insert_receipt_sql ::
  "wake_receipt \<Rightarrow> wake_db \<Rightarrow> sql_error + bool \<times> wake_db" where
  "insert_receipt_sql r d =
     (case sql_insert_or_skip receipt_ok receipt_idempotent receipt_conflict r (wd_receipts d) of
        Inl e \<Rightarrow> Inl e
      | Inr (None, _) \<Rightarrow> Inr (False, d)
      | Inr (Some _, t) \<Rightarrow>
        if receipt_refs d r then Inr (True, d\<lparr>wd_receipts := t\<rparr>) else Inl ForeignKeyViolation)"

definition accept_receipt_sql :: "wake_receipt \<Rightarrow> wake_db \<Rightarrow> sql_error + bool \<times> wake_db" where
  "accept_receipt_sql r d =
     (if \<exists>s \<in> set (wd_subscriptions d). live_subscription r s then insert_receipt_sql r d
      else Inr (False, d))"

text \<open>A deleted subscription takes its receipts with it, and clears references to them.\<close>

definition delete_subscription_sql :: "string \<Rightarrow> string \<Rightarrow> wake_db \<Rightarrow> nat \<times> wake_db" where
  "delete_subscription_sql sub owner d =
     (let (gone, subs) = sql_delete (\<lambda>s. cs_subscription_id s = sub \<and> cs_owner_id s = owner)
            (wd_subscriptions d);
          (lost, kept) = sql_delete (\<lambda>r. wr_subscription_id r \<in> set (map cs_subscription_id gone))
            (wd_receipts d);
          clear = (\<lambda>r. case wr_replay_of r of None \<Rightarrow> r
            | Some q \<Rightarrow> if q \<in> set (map wr_receipt_id lost) then r\<lparr>wr_replay_of := None\<rparr> else r)
      in (length gone, \<lparr>wd_subscriptions = subs, wd_receipts = map clear kept\<rparr>))"

subsection \<open>Operations\<close>

definition tx_race :: "('s \<Rightarrow> 's) \<Rightarrow> ('s, unit) tx" where
  "tx_race race s = (Inr (), race s)"

definition register_subscription ::
  "nat \<Rightarrow> string \<Rightarrow> string \<Rightarrow> string \<Rightarrow> string \<Rightarrow> string \<Rightarrow> string \<Rightarrow> int \<Rightarrow> int \<Rightarrow> int \<Rightarrow> string option
     \<Rightarrow> (wake_db, completion_subscription) tx" where
  "register_subscription fresh owner_id waiter_operation_id waiter_owner_id source_operation_id
       source_owner_id terminal_condition source_revision current_revision_fence created_at
       subscription_id =
     tx_bind (tx_lift (required_owner owner_id)) (\<lambda>owner.
     tx_bind (tx_lift (required_uuid waiter_operation_id)) (\<lambda>waiter_op.
     tx_bind (tx_lift (required_owner waiter_owner_id)) (\<lambda>waiter_owner.
     tx_bind (tx_lift (required_uuid source_operation_id)) (\<lambda>source_op.
     tx_bind (tx_lift (required_owner source_owner_id)) (\<lambda>source_owner.
     tx_bind (tx_require (terminal_condition \<in> set CONDITIONS) validation_error) (\<lambda>_.
     tx_bind (tx_lift (required_revision source_revision)) (\<lambda>source_rev.
     tx_bind (tx_lift (required_revision current_revision_fence)) (\<lambda>fence.
     tx_bind (tx_require (source_rev \<le> fence) validation_error) (\<lambda>_.
     tx_bind (tx_require (\<not> (waiter_op = source_op \<and> waiter_owner = source_owner)) validation_error) (\<lambda>_.
     tx_bind (tx_lift (required_millis created_at)) (\<lambda>created.
     tx_bind (tx_lift (case subscription_id of None \<Rightarrow> Inr (uuid_text fresh)
                       | Some s \<Rightarrow> required_uuid s)) (\<lambda>sub_id d.
     let row = \<lparr>cs_subscription_id = sub_id, cs_owner_id = owner, cs_waiter_operation_id = waiter_op,
           cs_waiter_owner_id = waiter_owner, cs_source_operation_id = source_op,
           cs_source_owner_id = source_owner, cs_terminal_condition = terminal_condition,
           cs_source_revision = source_rev, cs_current_revision_fence = fence,
           cs_created_at = created, cs_revoked_at = None\<rparr>
     in case sql_insert subscription_ok subscription_conflict row (wd_subscriptions d) of
          Inl _ \<Rightarrow> (Inl (err RepositoryConflictError), d)
        | Inr (_, t) \<Rightarrow> (Inr row, d\<lparr>wd_subscriptions := t\<rparr>)))))))))))))"

definition revoke_subscription ::
  "string \<Rightarrow> string \<Rightarrow> int \<Rightarrow> (wake_db, completion_subscription) tx" where
  "revoke_subscription owner_id subscription_id revoked_at =
     tx_bind (tx_lift (required_owner owner_id)) (\<lambda>owner.
     tx_bind (tx_lift (required_uuid subscription_id)) (\<lambda>sub_id.
     tx_bind (tx_lift (required_millis revoked_at)) (\<lambda>at.
     tx_bind (text_parameter owner) (\<lambda>_.
     tx_bind (tx_read (find_subscription sub_id owner)) (\<lambda>row.
     case row of None \<Rightarrow> tx_raise (err RepositoryNotFoundError)
     | Some s \<Rightarrow>
       tx_bind (tx_require (cs_revoked_at s = None) (err RepositoryConflictError)) (\<lambda>_.
       tx_bind (tx_require (cs_created_at s \<le> at) (err RepositoryDataError)) (\<lambda>_.
       tx_bind (tx_on wd_subscriptions (\<lambda>t d. d\<lparr>wd_subscriptions := t\<rparr>)
           (tx_stmt (sql_update subscription_ok subscription_conflict
             (\<lambda>x. cs_subscription_id x = sub_id \<and> cs_owner_id x = owner \<and> cs_revoked_at x = None)
             (\<lambda>x. x\<lparr>cs_revoked_at := Some at\<rparr>)))) (\<lambda>changed.
       tx_bind (tx_require (length changed = 1) (err RepositoryConflictError)) (\<lambda>_.
       tx_return (s\<lparr>cs_revoked_at := Some at\<rparr>))))))))))"

definition delete_subscription :: "string \<Rightarrow> string \<Rightarrow> (wake_db, unit) tx" where
  "delete_subscription owner_id subscription_id =
     tx_bind (tx_lift (required_owner owner_id)) (\<lambda>owner.
     tx_bind (tx_lift (required_uuid subscription_id)) (\<lambda>sub_id.
     tx_bind (text_parameter owner) (\<lambda>_.
     tx_bind (tx_read (find_subscription sub_id owner)) (\<lambda>row.
     tx_bind (tx_require (row \<noteq> None) (err RepositoryNotFoundError)) (\<lambda>_ d.
     case delete_subscription_sql sub_id owner d of (n, d') \<Rightarrow>
       (if n = 1 then Inr () else Inl (err RepositoryNotFoundError), d'))))))"

text \<open>The insert of a receipt with the look-up after it, shared by the two methods below.\<close>

definition store_receipt ::
  "(wake_db \<Rightarrow> sql_error + bool \<times> wake_db) \<Rightarrow> wake_receipt \<Rightarrow> (wake_db, wake_receipt) tx" where
  "store_receipt stmt r =
     tx_bind (tx_stmt stmt) (\<lambda>written.
     if written then tx_return r
     else tx_bind (tx_read (find_receipt (wr_subscription_id r) (wr_idempotency_key r) (wr_owner_id r)))
       (\<lambda>raced. case raced of Some q \<Rightarrow> tx_return q | None \<Rightarrow> tx_raise (err RepositoryConflictError)))"

text \<open>
  The first part of both methods only reads: it finds the stored receipt (\<open>Inl\<close>) or gives the row
  to insert (\<open>Inr\<close>).
\<close>

definition accept_lookup ::
  "nat \<Rightarrow> string \<Rightarrow> string \<Rightarrow> string \<Rightarrow> string \<Rightarrow> int \<Rightarrow> int \<Rightarrow> string option
     \<Rightarrow> (wake_db, wake_receipt + wake_receipt) tx" where
  "accept_lookup fresh owner_id subscription_id idempotency_key observed_terminal
       observed_revision accepted_at receipt_id =
     tx_bind (tx_lift (required_owner owner_id)) (\<lambda>owner.
     tx_bind (tx_lift (required_uuid subscription_id)) (\<lambda>sub_id.
     tx_bind (tx_lift (required_key idempotency_key)) (\<lambda>key.
     tx_bind (tx_require (observed_terminal \<in> set TERMINALS) validation_error) (\<lambda>_.
     tx_bind (tx_lift (required_revision observed_revision)) (\<lambda>revision.
     tx_bind (tx_lift (required_millis accepted_at)) (\<lambda>accepted.
     tx_bind (text_parameter owner) (\<lambda>_.
     tx_bind (tx_read (find_subscription sub_id owner)) (\<lambda>sub.
     case sub of None \<Rightarrow> tx_raise (err RepositoryNotFoundError)
     | Some s \<Rightarrow>
       tx_bind (tx_require (cs_revoked_at s = None) (err RepositoryConflictError)) (\<lambda>_.
       tx_bind (tx_require (wake_covers (cs_terminal_condition s) observed_terminal)
         (err RepositoryConflictError)) (\<lambda>_.
       tx_bind (tx_require (cs_source_revision s \<le> revision \<and> revision \<le> cs_current_revision_fence s)
         (err RepositoryConflictError)) (\<lambda>_.
       tx_bind (text_parameter key) (\<lambda>_.
       tx_bind (tx_read (find_receipt sub_id key owner)) (\<lambda>existing.
       case existing of Some r \<Rightarrow> tx_return (Inl r)
       | None \<Rightarrow>
         tx_bind (tx_lift (case receipt_id of None \<Rightarrow> Inr (uuid_text fresh)
                           | Some x \<Rightarrow> required_uuid x)) (\<lambda>rid.
         tx_return (Inr \<lparr>wr_receipt_id = rid, wr_subscription_id = sub_id, wr_owner_id = owner,
           wr_idempotency_key = key, wr_observed_terminal = observed_terminal,
           wr_observed_revision = revision, wr_accepted_at = accepted,
           wr_replay_of = None\<rparr>)))))))))))))))"

definition accept_wake_receipt ::
  "(wake_db \<Rightarrow> wake_db) \<Rightarrow> nat \<Rightarrow> string \<Rightarrow> string \<Rightarrow> string \<Rightarrow> string \<Rightarrow> int \<Rightarrow> int \<Rightarrow> string option
     \<Rightarrow> (wake_db, wake_receipt) tx" where
  "accept_wake_receipt race fresh owner_id subscription_id idempotency_key observed_terminal
       observed_revision accepted_at receipt_id =
     tx_bind (accept_lookup fresh owner_id subscription_id idempotency_key observed_terminal
       observed_revision accepted_at receipt_id) (\<lambda>found.
     case found of Inl r \<Rightarrow> tx_return r
     | Inr r \<Rightarrow> tx_bind (tx_race race) (\<lambda>_. store_receipt (accept_receipt_sql r) r))"

definition replay_lookup ::
  "nat \<Rightarrow> string \<Rightarrow> string \<Rightarrow> string \<Rightarrow> int \<Rightarrow> (wake_db, wake_receipt + wake_receipt) tx" where
  "replay_lookup fresh owner_id receipt_id idempotency_key accepted_at =
     tx_bind (tx_lift (required_owner owner_id)) (\<lambda>owner.
     tx_bind (tx_lift (required_uuid receipt_id)) (\<lambda>original_id.
     tx_bind (text_parameter owner) (\<lambda>_.
     tx_bind (tx_read (\<lambda>d. List.find (\<lambda>r. wr_receipt_id r = original_id \<and> wr_owner_id r = owner)
         (wd_receipts d))) (\<lambda>original.
     case original of None \<Rightarrow> tx_raise (err RepositoryNotFoundError)
     | Some orig \<Rightarrow>
       tx_bind (tx_lift (required_key idempotency_key)) (\<lambda>key.
       tx_bind (tx_lift (required_millis accepted_at)) (\<lambda>accepted.
       tx_bind (text_parameter key) (\<lambda>_.
       tx_bind (tx_read (find_receipt (wr_subscription_id orig) key owner)) (\<lambda>existing.
       case existing of Some r \<Rightarrow> tx_return (Inl r)
       | None \<Rightarrow> tx_return (Inr \<lparr>wr_receipt_id = uuid_text fresh,
           wr_subscription_id = wr_subscription_id orig, wr_owner_id = owner, wr_idempotency_key = key,
           wr_observed_terminal = wr_observed_terminal orig,
           wr_observed_revision = wr_observed_revision orig, wr_accepted_at = accepted,
           wr_replay_of = Some original_id\<rparr>)))))))))"

definition replay_wake_receipt ::
  "(wake_db \<Rightarrow> wake_db) \<Rightarrow> nat \<Rightarrow> string \<Rightarrow> string \<Rightarrow> string \<Rightarrow> int \<Rightarrow> (wake_db, wake_receipt) tx" where
  "replay_wake_receipt race fresh owner_id receipt_id idempotency_key accepted_at =
     tx_bind (replay_lookup fresh owner_id receipt_id idempotency_key accepted_at) (\<lambda>found.
     case found of Inl r \<Rightarrow> tx_return r
     | Inr r \<Rightarrow> tx_bind (tx_race race) (\<lambda>_. store_receipt (insert_receipt_sql r) r))"

subsection \<open>What the tables hold at any time\<close>

definition covered_by :: "wake_receipt \<Rightarrow> completion_subscription \<Rightarrow> bool" where
  "covered_by r s \<longleftrightarrow>
     cs_subscription_id s = wr_subscription_id r \<and> cs_owner_id s = wr_owner_id r \<and>
     wake_covers (cs_terminal_condition s) (wr_observed_terminal r) \<and>
     cs_source_revision s \<le> wr_observed_revision r \<and>
     wr_observed_revision r \<le> cs_current_revision_fence s"

abbreviation subscriptions_ok :: "completion_subscription list \<Rightarrow> bool" where
  "subscriptions_ok \<equiv> table_ok subscription_ok subscription_conflict"

abbreviation receipts_ok :: "wake_receipt list \<Rightarrow> bool" where
  "receipts_ok \<equiv> table_ok receipt_ok receipt_conflict"

text \<open>
  The constraints of both tables; every receipt is covered by its subscription; a replay refers to
  a receipt of the same subscription.
\<close>

definition wake_ok :: "wake_db \<Rightarrow> bool" where
  "wake_ok d \<longleftrightarrow>
     subscriptions_ok (wd_subscriptions d) \<and> receipts_ok (wd_receipts d) \<and>
     (\<forall>r \<in> set (wd_receipts d). (\<exists>s \<in> set (wd_subscriptions d). covered_by r s) \<and>
        (\<forall>q. wr_replay_of r = Some q \<longrightarrow> (\<exists>x \<in> set (wd_receipts d).
           wr_receipt_id x = q \<and> wr_subscription_id x = wr_subscription_id r)))"

interpretation csub: keyed_table subscription_ok subscription_conflict cs_subscription_id
  by unfold_locales (auto simp: subscription_conflict_def)

interpretation wrid: keyed_table receipt_ok receipt_conflict wr_receipt_id
  by unfold_locales (auto simp: receipt_conflict_def receipt_idempotent_def)

interpretation wrkey: keyed_table receipt_ok receipt_conflict
    "\<lambda>r. (wr_subscription_id r, wr_idempotency_key r)"
  by unfold_locales (auto simp: receipt_conflict_def receipt_idempotent_def)

text \<open>A subscription changes only by being revoked.\<close>

definition same_terms :: "completion_subscription \<Rightarrow> completion_subscription \<Rightarrow> bool" where
  "same_terms s s' \<longleftrightarrow> s' = s \<or> (\<exists>at. cs_revoked_at s = None \<and> s' = s\<lparr>cs_revoked_at := Some at\<rparr>)"

definition wake_order :: "string set \<Rightarrow> wake_db \<Rightarrow> wake_db \<Rightarrow> bool" where
  "wake_order Del d d' \<longleftrightarrow>
     (wake_ok d \<longrightarrow> wake_ok d' \<and>
        (\<forall>s \<in> set (wd_subscriptions d). cs_subscription_id s \<notin> Del \<longrightarrow>
           (\<exists>s' \<in> set (wd_subscriptions d'). same_terms s s')) \<and>
        (\<forall>r \<in> set (wd_receipts d). wr_subscription_id r \<notin> Del \<longrightarrow> r \<in> set (wd_receipts d')))"

lemma same_terms_id: "same_terms s s' \<Longrightarrow> cs_subscription_id s' = cs_subscription_id s"
  by (auto simp: same_terms_def)

lemma same_terms_trans: "same_terms s t \<Longrightarrow> same_terms t u \<Longrightarrow> same_terms s u"
  by (auto simp: same_terms_def)

lemma covered_by_same_terms: "same_terms s s' \<Longrightarrow> covered_by r s' \<longleftrightarrow> covered_by r s"
  by (auto simp: same_terms_def covered_by_def)

interpretation wake: step_order "wake_order Del" for Del
proof
  show "wake_order Del d d" for d by (auto simp: wake_order_def same_terms_def)
  show "wake_order Del d f" if "wake_order Del d e" "wake_order Del e f" for d e f
    unfolding wake_order_def
  proof (intro impI conjI ballI)
    assume d: "wake_ok d"
    with that(1) have e: "wake_ok e" by (simp add: wake_order_def)
    with that(2) show "wake_ok f" by (simp add: wake_order_def)
    show "r \<in> set (wd_receipts f)" if "r \<in> set (wd_receipts d)" "wr_subscription_id r \<notin> Del" for r
      using that \<open>wake_order Del d e\<close> \<open>wake_order Del e f\<close> d e unfolding wake_order_def by blast
    show "\<exists>s' \<in> set (wd_subscriptions f). same_terms s s'"
      if s: "s \<in> set (wd_subscriptions d)" "cs_subscription_id s \<notin> Del" for s
    proof -
      from s \<open>wake_order Del d e\<close> d obtain t where t: "t \<in> set (wd_subscriptions e)" "same_terms s t"
        unfolding wake_order_def by blast
      with s(2) have "cs_subscription_id t \<notin> Del" by (simp add: same_terms_id)
      with t \<open>wake_order Del e f\<close> e obtain u where "u \<in> set (wd_subscriptions f)" "same_terms t u"
        unfolding wake_order_def by blast
      with t show ?thesis by (blast intro: same_terms_trans)
    qed
  qed
qed

lemma wake_order_mono: "wake_order W d e \<Longrightarrow> W \<subseteq> Del \<Longrightarrow> wake_order Del d e"
  by (simp add: wake_order_def) blast

lemma wake_order_rows:
  assumes "wake_order Del d e" "wake_ok d"
  shows "wake_ok e" "r \<in> set (wd_receipts d) \<Longrightarrow> wr_subscription_id r \<notin> Del \<Longrightarrow> r \<in> set (wd_receipts e)"
  using assms by (auto simp: wake_order_def)

text \<open>The three ways a table changes.\<close>

lemma replace_subscriptions_order:
  assumes "subscriptions_ok (wd_subscriptions d) \<Longrightarrow> subscriptions_ok t"
    and "\<forall>s \<in> set (wd_subscriptions d). \<exists>s' \<in> set t. same_terms s s'"
  shows "wake_order {} d (d\<lparr>wd_subscriptions := t\<rparr>)"
  unfolding wake_order_def
proof (intro impI conjI)
  assume ok: "wake_ok d"
  have "\<exists>s \<in> set t. covered_by r s" if "r \<in> set (wd_receipts d)" for r
  proof -
    from ok that obtain s where "s \<in> set (wd_subscriptions d)" "covered_by r s"
      unfolding wake_ok_def by blast
    with assms(2) show ?thesis using covered_by_same_terms by blast
  qed
  with ok assms(1) show "wake_ok (d\<lparr>wd_subscriptions := t\<rparr>)" by (simp add: wake_ok_def)
qed (use assms(2) in simp_all)

lemma add_subscription_order:
  assumes "sql_insert subscription_ok subscription_conflict s (wd_subscriptions d) = Inr (x, t)"
  shows "wake_order {} d (d\<lparr>wd_subscriptions := t\<rparr>)"
proof (rule replace_subscriptions_order)
  show "subscriptions_ok t" if "subscriptions_ok (wd_subscriptions d)"
    using csub.table_ok_insert [OF that assms] by blast
  show "\<forall>s \<in> set (wd_subscriptions d). \<exists>s' \<in> set t. same_terms s s'"
    using assms by (auto simp: sql_insert_def same_terms_def split: if_splits)
qed

lemma revoke_order:
  assumes "sql_update subscription_ok subscription_conflict w (\<lambda>x. x\<lparr>cs_revoked_at := Some at\<rparr>)
      (wd_subscriptions d) = Inr (rows, t)"
    and "\<And>x. w x \<Longrightarrow> cs_revoked_at x = None"
  shows "wake_order {} d (d\<lparr>wd_subscriptions := t\<rparr>)"
proof (rule replace_subscriptions_order)
  show "subscriptions_ok t" if "subscriptions_ok (wd_subscriptions d)"
    using csub.table_ok_update [OF that assms(1)] .
  let ?f = "\<lambda>x. if w x then x\<lparr>cs_revoked_at := Some at\<rparr> else x"
  from assms(1) have t: "t = map ?f (wd_subscriptions d)"
    by (auto simp: sql_update_def Let_def split: if_splits)
  have "same_terms x (?f x)" for x using assms(2) by (auto simp: same_terms_def)
  then show "\<forall>s \<in> set (wd_subscriptions d). \<exists>s' \<in> set t. same_terms s s'"
    unfolding t set_map by blast
qed

lemma add_receipt_order:
  assumes "insert_receipt_sql r d = Inr (b, d')"
    and "wake_ok d \<Longrightarrow> \<exists>s \<in> set (wd_subscriptions d). covered_by r s"
    and "\<And>q. wake_ok d \<Longrightarrow> wr_replay_of r = Some q \<Longrightarrow>
      \<exists>x \<in> set (wd_receipts d). wr_receipt_id x = q \<and> wr_subscription_id x = wr_subscription_id r"
  shows "wake_order {} d d'"
proof (cases b)
  case True
  with assms(1) obtain x t where
    ins: "sql_insert_or_skip receipt_ok receipt_idempotent receipt_conflict r (wd_receipts d) = Inr (Some x, t)"
    and d': "d' = d\<lparr>wd_receipts := t\<rparr>"
    by (auto simp: insert_receipt_sql_def split: sum.splits option.splits if_splits)
  from ins have t: "t = wd_receipts d @ [r]" by (auto simp: sql_insert_or_skip_def split: if_splits)
  have "receipts_ok t" if "wake_ok d"
    using wrid.table_ok_insert_or_skip [OF _ ins] that by (simp add: wake_ok_def)
  then show ?thesis
    using assms(2,3) unfolding d' t wake_order_def wake_ok_def by (auto simp: same_terms_def)
next
  case False
  with assms(1) have "d' = d"
    by (auto simp: insert_receipt_sql_def split: sum.splits option.splits if_splits)
  then show ?thesis by (simp add: wake.order_refl)
qed

text \<open>
  A replay and its original belong to one subscription, so a deletion clears no reference of a
  receipt that stays.
\<close>

lemma delete_sql_rows:
  assumes "wake_ok d" and "delete_subscription_sql sub owner d = (n, d')"
  defines "hit \<equiv> \<exists>s \<in> set (wd_subscriptions d). cs_subscription_id s = sub \<and> cs_owner_id s = owner"
  shows "d' = \<lparr>wd_subscriptions =
      filter (\<lambda>s. \<not> (cs_subscription_id s = sub \<and> cs_owner_id s = owner)) (wd_subscriptions d),
    wd_receipts = filter (\<lambda>r. \<not> (hit \<and> wr_subscription_id r = sub)) (wd_receipts d)\<rparr>"
proof -
  let ?gone = "\<lambda>s. cs_subscription_id s = sub \<and> cs_owner_id s = owner"
  let ?kept = "filter (\<lambda>r. \<not> (hit \<and> wr_subscription_id r = sub)) (wd_receipts d)"
  let ?lost = "filter (\<lambda>r. hit \<and> wr_subscription_id r = sub) (wd_receipts d)"
  let ?clear = "\<lambda>r. case wr_replay_of r of None \<Rightarrow> r
    | Some q \<Rightarrow> if q \<in> set (map wr_receipt_id ?lost) then r\<lparr>wr_replay_of := None\<rparr> else r"
  have mem: "x \<in> set (map cs_subscription_id (filter ?gone (wd_subscriptions d))) \<longleftrightarrow> hit \<and> x = sub" for x
    by (auto simp: hit_def)
  have "?clear r = r" if r: "r \<in> set ?kept" for r
  proof (cases "wr_replay_of r")
    case (Some q)
    from r Some assms(1) obtain x where x: "x \<in> set (wd_receipts d)" "wr_receipt_id x = q"
      "wr_subscription_id x = wr_subscription_id r" unfolding wake_ok_def by auto
    have "q \<notin> set (map wr_receipt_id ?lost)"
    proof
      assume "q \<in> set (map wr_receipt_id ?lost)"
      then obtain y where y: "y \<in> set (wd_receipts d)" "wr_receipt_id y = q" "hit" "wr_subscription_id y = sub"
        by auto
      with x have "y = x" using assms(1) wrid.key_unique [of "wd_receipts d" y x] by (simp add: wake_ok_def)
      with y r x show False by simp
    qed
    with Some show ?thesis by simp
  qed simp
  then have clear: "map ?clear ?kept = ?kept" by (rule map_idI)
  from assms(2) have "d' = \<lparr>wd_subscriptions = filter (\<lambda>s. \<not> ?gone s) (wd_subscriptions d),
      wd_receipts = map ?clear ?kept\<rparr>"
    unfolding delete_subscription_sql_def sql_delete_def Let_def split_conv mem
    by (simp only: prod.inject)
  then show ?thesis by (simp only: clear)
qed

lemma delete_order:
  assumes "delete_subscription_sql sub owner d = (n, d')" and "sub \<in> Del"
  shows "wake_order Del d d'"
  unfolding wake_order_def
proof (intro impI)
  assume ok: "wake_ok d"
  note rows = delete_sql_rows [OF ok assms(1)]
  let ?gone = "\<lambda>s. cs_subscription_id s = sub \<and> cs_owner_id s = owner"
  have cov: "\<exists>s \<in> set (wd_subscriptions d'). covered_by r s" if "r \<in> set (wd_receipts d')" for r
  proof -
    from that have r: "r \<in> set (wd_receipts d)"
      "\<not> ((\<exists>s \<in> set (wd_subscriptions d). ?gone s) \<and> wr_subscription_id r = sub)" by (auto simp: rows)
    from r(1) ok obtain s where s: "s \<in> set (wd_subscriptions d)" "covered_by r s"
      unfolding wake_ok_def by blast
    with r(2) have "\<not> ?gone s" by (auto simp: covered_by_def)
    with s show ?thesis by (auto simp: rows)
  qed
  have refs: "\<exists>x \<in> set (wd_receipts d'). wr_receipt_id x = q \<and> wr_subscription_id x = wr_subscription_id r"
    if "r \<in> set (wd_receipts d')" "wr_replay_of r = Some q" for r q
  proof -
    from that ok obtain x where x: "x \<in> set (wd_receipts d)" "wr_receipt_id x = q"
      "wr_subscription_id x = wr_subscription_id r" unfolding wake_ok_def by (auto simp: rows)
    with that show ?thesis by (intro bexI [of _ x]) (auto simp: rows)
  qed
  have "subscriptions_ok (wd_subscriptions d')" "receipts_ok (wd_receipts d')"
    using csub.table_ok_delete [of "wd_subscriptions d" ?gone]
      wrid.table_ok_delete [of "wd_receipts d" "\<lambda>r. (\<exists>s \<in> set (wd_subscriptions d). ?gone s) \<and> wr_subscription_id r = sub"]
      ok
    unfolding rows sql_delete_def wake_ok_def by simp_all
  with cov refs have "wake_ok d'" by (simp add: wake_ok_def)
  with assms(2) show "wake_ok d' \<and>
      (\<forall>s \<in> set (wd_subscriptions d). cs_subscription_id s \<notin> Del \<longrightarrow>
         (\<exists>s' \<in> set (wd_subscriptions d'). same_terms s s')) \<and>
      (\<forall>r \<in> set (wd_receipts d). wr_subscription_id r \<notin> Del \<longrightarrow> r \<in> set (wd_receipts d'))"
    by (auto simp: rows same_terms_def)
qed

subsection \<open>The methods keep the order\<close>

lemma register_order: "tx_rel (wake_order {}) (register_subscription f o1 w wo so sow c sr cf ca sid)"
  unfolding register_subscription_def
  by (intro wake.rel_bind wake.rel_pure tx_relI)
    (auto simp: Let_def wake.order_refl intro: add_subscription_order split: sum.split prod.split)

lemma text_parameter_order: "tx_rel (wake_order Del) (text_parameter s)"
  by (simp add: text_parameter_def wake.rel_pure)

lemma revoke_subscription_order: "tx_rel (wake_order {}) (revoke_subscription owner sub at)"
  unfolding revoke_subscription_def
proof (intro wake.rel_bind wake.rel_pure wake.rel_option text_parameter_order)
  fix sub_id owner_id :: string and at' :: int
  show "tx_rel (wake_order {}) (tx_on wd_subscriptions (\<lambda>t d. d\<lparr>wd_subscriptions := t\<rparr>)
      (tx_stmt (sql_update subscription_ok subscription_conflict
        (\<lambda>x. cs_subscription_id x = sub_id \<and> cs_owner_id x = owner_id \<and> cs_revoked_at x = None)
        (\<lambda>x. x\<lparr>cs_revoked_at := Some at'\<rparr>))))"
    by (rule tx_relI)
      (auto simp: tx_on_def tx_stmt_def wake.order_refl intro: revoke_order split: sum.split prod.split)
qed

lemma delete_subscription_order:
  assumes "\<And>u. required_uuid sub = Inr u \<Longrightarrow> u \<in> Del"
  shows "tx_rel (wake_order Del) (delete_subscription owner sub)"
  unfolding delete_subscription_def
  by (intro wake.rel_bind [OF wake.rel_pure(3)] wake.rel_bind_lift wake.rel_bind wake.rel_pure
      text_parameter_order tx_relI)
    (auto split: prod.split intro: delete_order dest: assms)

interpretation reads: step_order "(=) :: wake_db \<Rightarrow> wake_db \<Rightarrow> bool"
  by unfold_locales auto

lemma lookup_reads:
  "tx_rel (=) (accept_lookup fresh owner sub key terminal revision at rid)"
  "tx_rel (=) (replay_lookup fresh owner original key at)"
  unfolding accept_lookup_def replay_lookup_def text_parameter_def
  by (intro reads.rel_bind reads.rel_pure reads.rel_option)+

lemma accept_lookup_success:
  assumes "accept_lookup fresh owner sub key terminal revision at rid d = (Inr found, d')"
  obtains u where "required_uuid sub = Inr u" "d' = d"
    "\<forall>r. found = Inl r \<longrightarrow> find_receipt u key owner d = Some r"
    "\<forall>r. found = Inr r \<longrightarrow> wr_subscription_id r = u \<and> wr_idempotency_key r = key \<and>
       wr_owner_id r = owner \<and> wr_replay_of r = None"
  using assms unfolding accept_lookup_def required_owner_def required_key_def text_parameter_def
  by (auto simp: tx_success split: if_splits)

lemma replay_lookup_success:
  assumes "replay_lookup fresh owner original key at d = (Inr (Inr r), d')"
  obtains x where "x \<in> set (wd_receipts d)" "d' = d" "wr_replay_of r = Some (wr_receipt_id x)"
    "required_uuid original = Inr (wr_receipt_id x)"
    "wr_subscription_id r = wr_subscription_id x" "wr_owner_id r = wr_owner_id x"
    "wr_observed_terminal r = wr_observed_terminal x" "wr_observed_revision r = wr_observed_revision x"
proof -
  from assms obtain x oid where "List.find (\<lambda>r. wr_receipt_id r = oid \<and> wr_owner_id r = owner)
      (wd_receipts d) = Some x" "d' = d" "wr_replay_of r = Some oid" "required_uuid original = Inr oid"
    "wr_subscription_id r = wr_subscription_id x" "wr_owner_id r = owner"
    "wr_observed_terminal r = wr_observed_terminal x" "wr_observed_revision r = wr_observed_revision x"
    unfolding replay_lookup_def required_owner_def required_key_def text_parameter_def
    by (auto simp: tx_success split: if_splits)
  then show ?thesis by (intro that [of x]) (auto dest: find_SomeD)
qed

lemma store_receipt_order:
  assumes "\<And>b e. stmt d = Inr (b, e) \<Longrightarrow> wake_order {} d e"
  shows "wake_order {} d (snd (store_receipt stmt r d))"
  unfolding store_receipt_def
proof (rule wake.bind_point)
  show "wake_order {} d (snd (tx_stmt stmt d))"
    using assms by (auto simp: tx_stmt_def wake.order_refl split: sum.split prod.split)
  show "wake_order {} t (snd ((if x then tx_return r else tx_bind (tx_read
      (find_receipt (wr_subscription_id r) (wr_idempotency_key r) (wr_owner_id r)))
      (\<lambda>raced. case raced of None \<Rightarrow> tx_raise (err RepositoryConflictError) | Some q \<Rightarrow> tx_return q)) t))"
    for x t
    by (auto simp: tx_simps wake.order_refl split: option.split)
qed

lemma accept_wake_order:
  assumes "wake_order W d (race d)"
  shows "wake_order W d (snd (accept_wake_receipt race fresh owner sub key terminal revision at rid d))"
proof -
  obtain found d1 where look: "accept_lookup fresh owner sub key terminal revision at rid d = (found, d1)"
    by fastforce
  have d1: "d1 = d" using tx_relD [OF lookup_reads(1) look] by simp
  have "wake_order W d (snd (store_receipt (accept_receipt_sql r) r (race d)))"
    if "found = Inr (Inr r)" for r
  proof -
    have "wr_replay_of r = None"
      using look that by (auto elim: accept_lookup_success)
    then have "wake_order {} (race d) (snd (store_receipt (accept_receipt_sql r) r (race d)))"
      by (intro store_receipt_order)
        (auto simp: accept_receipt_sql_def live_subscription_def covered_by_def wake.order_refl
          intro!: add_receipt_order split: if_splits)
    with assms show ?thesis by (blast intro: wake.order_trans wake_order_mono)
  qed
  with look d1 show ?thesis
    by (auto simp: accept_wake_receipt_def tx_bind_def tx_race_def tx_return_def wake.order_refl
        split: sum.split)
qed

lemma replay_wake_order:
  assumes "wake_order W d (race d)"
    and kept: "\<forall>r \<in> set (wd_receipts d). required_uuid original = Inr (wr_receipt_id r) \<longrightarrow> wr_subscription_id r \<notin> W"
  shows "wake_order W d (snd (replay_wake_receipt race fresh owner original key at d))"
proof -
  obtain found d1 where look: "replay_lookup fresh owner original key at d = (found, d1)" by fastforce
  have d1: "d1 = d" using tx_relD [OF lookup_reads(2) look] by simp
  have "wake_order W d (snd (store_receipt (insert_receipt_sql r) r (race d)))"
    if r: "found = Inr (Inr r)" for r
  proof -
    from look r obtain x where x: "x \<in> set (wd_receipts d)" "wr_replay_of r = Some (wr_receipt_id x)"
      "wr_subscription_id r = wr_subscription_id x" "wr_owner_id r = wr_owner_id x"
      "wr_observed_terminal r = wr_observed_terminal x" "wr_observed_revision r = wr_observed_revision x"
      and id: "required_uuid original = Inr (wr_receipt_id x)"
      by (auto elim: replay_lookup_success)
    have "wake_order W d (snd (store_receipt (insert_receipt_sql r) r (race d)))" if "\<not> wake_ok d"
      using that by (simp add: wake_order_def)
    moreover have "wake_order {} (race d) (snd (store_receipt (insert_receipt_sql r) r (race d)))" if "wake_ok d"
    proof (rule store_receipt_order, erule add_receipt_order)
      have x': "x \<in> set (wd_receipts (race d))" "wake_ok (race d)"
        using wake_order_rows [OF assms(1) that] x(1) kept id by auto
      then show "\<exists>s \<in> set (wd_subscriptions (race d)). covered_by r s"
        using x unfolding wake_ok_def covered_by_def by simp
      show "\<exists>y \<in> set (wd_receipts (race d)). wr_receipt_id y = q \<and> wr_subscription_id y = wr_subscription_id r"
        if "wr_replay_of r = Some q" for q
        using x x' that by auto
    qed
    ultimately show ?thesis using assms(1) by (blast intro: wake.order_trans wake_order_mono)
  qed
  with look d1 show ?thesis
    by (auto simp: replay_wake_receipt_def tx_bind_def tx_race_def tx_return_def wake.order_refl
        split: sum.split)
qed

subsection \<open>Runs\<close>

text \<open>
  A call of one method that deletes subscriptions of \<open>Del\<close> only; what is committed inside the
  window of an acceptance or a replay is itself a run of such calls, deletions included. Only the
  subscription of the receipt being replayed is assumed not to be deleted inside that window.
\<close>

inductive wake_step :: "string set \<Rightarrow> wake_db \<Rightarrow> wake_db \<Rightarrow> bool" where
  register: "register_subscription fresh owner waiter wowner source sowner condition revision rfence created sub d
    = (x, d') \<Longrightarrow> wake_step Del d d'"
| revoke: "revoke_subscription owner sub at d = (x, d') \<Longrightarrow> wake_step Del d d'"
| delete: "delete_subscription owner sub d = (n, d') \<Longrightarrow>
    (\<forall>u. required_uuid sub = Inr u \<longrightarrow> u \<in> Del) \<Longrightarrow> wake_step Del d d'"
| accept: "(wake_step W)\<^sup>*\<^sup>* d e \<Longrightarrow> W \<subseteq> Del \<Longrightarrow>
    accept_wake_receipt (\<lambda>_. e) fresh owner sub key terminal revision at rid d = (y, d') \<Longrightarrow> wake_step Del d d'"
| replay: "(wake_step W)\<^sup>*\<^sup>* d e \<Longrightarrow> W \<subseteq> Del \<Longrightarrow>
    (\<forall>r \<in> set (wd_receipts d). required_uuid original = Inr (wr_receipt_id r) \<longrightarrow> wr_subscription_id r \<notin> W) \<Longrightarrow>
    replay_wake_receipt (\<lambda>_. e) fresh owner original key at d = (y, d') \<Longrightarrow> wake_step Del d d'"

lemma wake_step_order: "wake_step Del d d' \<Longrightarrow> wake_order Del d d'"
proof (induction rule: wake_step.induct)
  case (delete owner sub d n d' Del)
  then show ?case using tx_relD [OF delete_subscription_order delete(1)] by blast
next
  case (accept W d e Del fresh owner sub key terminal revision at rid y d')
  have "wake_order W d e"
    using accept(1) by (induction rule: rtranclp_induct) (auto intro: wake.order_refl wake.order_trans)
  from accept_wake_order [where race = "\<lambda>_. e", OF this, of fresh owner sub key terminal revision at rid] accept(2,3)
  show ?case by (auto intro: wake_order_mono)
next
  case (replay W d e Del original fresh owner key at y d')
  have "wake_order W d e"
    using replay(1) by (induction rule: rtranclp_induct) (auto intro: wake.order_refl wake.order_trans)
  from replay_wake_order [where race = "\<lambda>_. e", OF this replay(3), of fresh owner key at] replay(2,4)
  show ?case by (auto intro: wake_order_mono)
qed (blast intro: wake_order_mono tx_relD [OF register_order] tx_relD [OF revoke_subscription_order])+

lemma wake_steps_order: "(wake_step Del)\<^sup>*\<^sup>* d e \<Longrightarrow> wake_order Del d e"
  by (rule wake.rel_run [of "wake_step Del", OF wake_step_order])

text \<open>The receipt a successful acceptance returns is a row of the table under its key.\<close>

lemma store_receipt_row:
  assumes "store_receipt (accept_receipt_sql r) r d = (Inr w, d')"
  shows "w \<in> set (wd_receipts d') \<and> wr_subscription_id w = wr_subscription_id r \<and>
    wr_idempotency_key w = wr_idempotency_key r \<and> wr_owner_id w = wr_owner_id r"
proof -
  from assms obtain b where b: "accept_receipt_sql r d = Inr (b, d')"
    and w: "if b then w = r else find_receipt (wr_subscription_id r) (wr_idempotency_key r) (wr_owner_id r) d'
      = Some w"
    unfolding store_receipt_def by (auto simp: tx_success split: if_splits)
  show ?thesis
  proof (cases b)
    case True
    with b w show ?thesis
      by (auto simp: accept_receipt_sql_def insert_receipt_sql_def sql_insert_or_skip_def
          split: sum.splits prod.splits option.splits if_splits)
  next
    case False
    with w show ?thesis by (auto dest: find_SomeD)
  qed
qed

lemma accept_returns_row:
  assumes "accept_wake_receipt race fresh owner sub key terminal revision at rid d = (Inr w, d')"
    and "required_uuid sub = Inr u"
  shows "w \<in> set (wd_receipts d') \<and> wr_subscription_id w = u \<and> wr_idempotency_key w = key \<and>
    wr_owner_id w = owner"
proof -
  from assms(1) obtain found d1 where
    look: "accept_lookup fresh owner sub key terminal revision at rid d = (Inr found, d1)"
    and rest: "(case found of Inl r \<Rightarrow> tx_return r
      | Inr r \<Rightarrow> tx_bind (tx_race race) (\<lambda>_. store_receipt (accept_receipt_sql r) r)) d1 = (Inr w, d')"
    unfolding accept_wake_receipt_def by (auto simp: tx_success)
  from look obtain "d1 = d" and row: "\<forall>r. found = Inl r \<longrightarrow> find_receipt u key owner d = Some r"
    "\<forall>r. found = Inr r \<longrightarrow> wr_subscription_id r = u \<and> wr_idempotency_key r = key \<and>
       wr_owner_id r = owner \<and> wr_replay_of r = None"
    using assms(2) by (elim accept_lookup_success) auto
  show ?thesis
  proof (cases found)
    case (Inl r)
    with rest row(1) \<open>d1 = d\<close> show ?thesis by (auto simp: tx_simps dest: find_SomeD)
  next
    case (Inr r)
    with rest \<open>d1 = d\<close> have "store_receipt (accept_receipt_sql r) r (race d) = (Inr w, d')"
      by (simp add: tx_bind_def tx_race_def)
    with row(2) Inr show ?thesis using store_receipt_row by blast
  qed
qed

subsection \<open>Properties\<close>

text \<open>
  C16. No wake without cause: over any run of registrations, revocations, deletions, acceptances and
  replays, with concurrent commits inside the windows of the last two (a replay's window is taken
  not to delete the subscription it is about), every stored receipt belongs
  to a stored subscription of the same owner whose terminal condition covers the observed end and
  whose revision bounds contain the observed revision, and no two receipts of a subscription share
  an idempotency key.
\<close>

theorem wake_receipts_covered:
  assumes "wake_ok d" and "(wake_step UNIV)\<^sup>*\<^sup>* d e" and "r \<in> set (wd_receipts e)"
  shows "(\<exists>s \<in> set (wd_subscriptions e). cs_subscription_id s = wr_subscription_id r \<and>
      cs_owner_id s = wr_owner_id r \<and> wake_covers (cs_terminal_condition s) (wr_observed_terminal r) \<and>
      cs_source_revision s \<le> wr_observed_revision r \<and>
      wr_observed_revision r \<le> cs_current_revision_fence s) \<and>
    filter (receipt_idempotent r) (wd_receipts e) = [r]"
proof -
  have ok: "wake_ok e" using wake_steps_order [OF assms(2)] assms(1) by (simp add: wake_order_def)
  have "receipt_idempotent r = (\<lambda>q. (wr_subscription_id q, wr_idempotency_key q) =
      (wr_subscription_id r, wr_idempotency_key r))"
    by (auto simp: receipt_idempotent_def)
  then have "filter (receipt_idempotent r) (wd_receipts e) = [r]"
    using wrkey.filter_key [of "wd_receipts e" r] ok assms(3) by (simp add: wake_ok_def)
  with ok assms(3) show ?thesis unfolding wake_ok_def covered_by_def by blast
qed

text \<open>
  C15. A wake is accepted once: after an acceptance returned a receipt, every later acceptance of
  the same owner and idempotency key for that subscription that returns at all returns the same
  receipt, whatever end, revision, time or identifier it brings and whatever else is committed in
  between and inside the windows of both calls, as long as the subscription is not deleted after
  the first call.
\<close>

theorem wake_accepted_once:
  assumes "wake_ok d" and "required_uuid sub = Inr u" and "required_uuid sub' = Inr u"
    and "(wake_step Del0)\<^sup>*\<^sup>* d (race d)"
    and "accept_wake_receipt race fresh owner sub key terminal revision at rid d = (Inr w, d1)"
    and "(wake_step Del)\<^sup>*\<^sup>* d1 d2" and "u \<notin> Del"
    and "(wake_step Del)\<^sup>*\<^sup>* d2 (race' d2)"
    and "accept_wake_receipt race' fresh' owner sub' key terminal' revision' at' rid' d2 = (Inr w', d3)"
  shows "w' = w \<and> w \<in> set (wd_receipts d3)"
proof -
  have d1: "wake_ok d1"
    using accept_wake_order [where race = race, OF wake_steps_order [OF assms(4)], of fresh owner sub key terminal revision at rid]
      assms(1,5) by (simp add: wake_order_def)
  have w: "w \<in> set (wd_receipts d1)" "wr_subscription_id w = u" "wr_idempotency_key w = key"
    using accept_returns_row [OF assms(5,2)] by auto
  have d2: "wake_ok d2" "w \<in> set (wd_receipts d2)"
    using wake_steps_order [OF assms(6)] d1 w assms(7) by (auto simp: wake_order_def)
  have "wake_order Del d2 d3"
    using accept_wake_order [where race = race', OF wake_steps_order [OF assms(8)], of fresh' owner sub' key terminal' revision' at' rid']
      assms(9) by simp
  from wake_order_rows [OF this d2(1)] d2(2) w(2) assms(7)
  have d3: "wake_ok d3" "w \<in> set (wd_receipts d3)" by auto
  have "w' \<in> set (wd_receipts d3)" "wr_subscription_id w' = u" "wr_idempotency_key w' = key"
    using accept_returns_row [OF assms(9,3)] by auto
  with w d3 show ?thesis
    using wrkey.key_unique [of "wd_receipts d3" w' w] by (simp add: wake_ok_def)
qed

subsection \<open>A sample run\<close>

definition sample_subscription :: "nat \<Rightarrow> wake_db \<Rightarrow> wake_db" where
  "sample_subscription n d = snd (register_subscription 0 ''ada'' (uuid_text 10) ''ada'' (uuid_text 11)
     ''ada'' ''any_terminal'' 1 5 100 (Some (uuid_text n)) d)"

definition sample_start :: wake_db where
  "sample_start = sample_subscription 7 \<lparr>wd_subscriptions = [], wd_receipts = []\<rparr>"

abbreviation sample_accept :: "wake_db \<Rightarrow> (plane_error + wake_receipt) \<times> wake_db" where
  "sample_accept \<equiv> accept_wake_receipt (sample_subscription 8) 20 ''ada'' (uuid_text 7) ''k''
     ''completed'' 3 200 None"

abbreviation sample_revoked :: wake_db where
  "sample_revoked \<equiv> snd (revoke_subscription ''ada'' (uuid_text 8) 150 (snd (sample_accept sample_start)))"

abbreviation sample_again :: "wake_db \<Rightarrow> (plane_error + wake_receipt) \<times> wake_db" where
  "sample_again \<equiv> accept_wake_receipt id 30 ''ada'' (hex_field 32 7) ''k'' ''failed'' 4 300 None"

abbreviation woken_receipt :: wake_receipt where
  "woken_receipt \<equiv> \<lparr>wr_receipt_id = uuid_text 20, wr_subscription_id = uuid_text 7,
     wr_owner_id = ''ada'', wr_idempotency_key = ''k'', wr_observed_terminal = ''completed'',
     wr_observed_revision = 3, wr_accepted_at = 200, wr_replay_of = None\<rparr>"

lemma sample_subscription_call: "wake_step Del d (sample_subscription n d)"
  unfolding sample_subscription_def by (rule wake_step.register) (rule surjective_pairing)

lemma sample_start_ok: "wake_ok sample_start"
  using wake_step_order [OF sample_subscription_call, of "{}" "\<lparr>wd_subscriptions = [], wd_receipts = []\<rparr>" 7]
  by (simp add: sample_start_def wake_order_def wake_ok_def table_ok_def)

lemma sample_uuids:
  "required_uuid (uuid_text 7) = Inr (uuid_text 7)" "required_uuid (hex_field 32 7) = Inr (uuid_text 7)"
  by code_simp+

lemma sample_accept_value: "fst (sample_accept sample_start) = Inr woken_receipt"
  by code_simp

lemma sample_again_returns: "\<not> isl (fst (sample_again sample_revoked))"
  by code_simp

lemma sample_accept_call: "wake_step Del sample_start (snd (sample_accept sample_start))"
proof (rule wake_step.accept)
  show "(wake_step Del)\<^sup>*\<^sup>* sample_start (sample_subscription 8 sample_start)"
    using sample_subscription_call by (rule r_into_rtranclp)
  show "accept_wake_receipt (\<lambda>_. sample_subscription 8 sample_start) 20 ''ada'' (uuid_text 7) ''k''
      ''completed'' 3 200 None sample_start = (Inr woken_receipt, snd (sample_accept sample_start))"
    by code_simp
qed simp

theorem wake_receipts_covered_witness:
  "wr_observed_revision woken_receipt = 3 \<and>
   filter (receipt_idempotent woken_receipt) (wd_receipts (snd (sample_accept sample_start))) = [woken_receipt]"
proof -
  have "(wake_step UNIV)\<^sup>*\<^sup>* sample_start (snd (sample_accept sample_start))"
    using sample_accept_call by (rule r_into_rtranclp)
  moreover have "woken_receipt \<in> set (wd_receipts (snd (sample_accept sample_start)))"
    by code_simp
  ultimately show ?thesis
    using wake_receipts_covered [OF sample_start_ok] by auto
qed

theorem wake_accepted_once_witness:
  "fst (sample_again sample_revoked) = Inr woken_receipt \<and>
   woken_receipt \<in> set (wd_receipts (snd (sample_again sample_revoked)))"
proof -
  from sample_again_returns obtain w' where w': "fst (sample_again sample_revoked) = Inr w'"
    by (cases "fst (sample_again sample_revoked)") auto
  have again: "sample_again sample_revoked = (Inr w', snd (sample_again sample_revoked))"
    using w' by (metis surjective_pairing)
  have first: "sample_accept sample_start = (Inr woken_receipt, snd (sample_accept sample_start))"
    using sample_accept_value by (metis surjective_pairing)
  have window: "(wake_step {})\<^sup>*\<^sup>* sample_start (sample_subscription 8 sample_start)"
    using sample_subscription_call by (rule r_into_rtranclp)
  have "wake_step {} (snd (sample_accept sample_start)) sample_revoked"
    by (rule wake_step.revoke) (rule surjective_pairing)
  then have run: "(wake_step {})\<^sup>*\<^sup>* (snd (sample_accept sample_start)) sample_revoked" by blast
  from w' show ?thesis
    using wake_accepted_once [OF sample_start_ok sample_uuids window first run _ _ again] by simp
qed

end
