(* ===== verification/Revocations.thy ===== *)
theory Revocations
  imports Domain
begin

text \<open>
  The queue of refresh tokens that wait for revocation: \<open>repositories/revocations.py\<close> and
  \<open>repositories/_issuing_identity.py\<close> over the table \<open>auth_revocation_queue\<close>.

  The identifier the sequence of the table draws for a new row is an argument of
  \<open>enqueue_revocation\<close>: transactions commit in another order than they draw. An administrator
  drains the queue in pages. The first page fixes the greatest identifier as the ceiling of the
  cycle, and each page continues after the cursor of the last one. Other calls commit between the
  pages.
\<close>

subsection \<open>Issuing identity\<close>

text \<open>\<open>unicodedata.category\<close> gives \<open>Cc\<close>; no code point below 256 is a surrogate.\<close>

definition control_char :: "char \<Rightarrow> bool" where
  "control_char c = (let n = of_char c :: nat in n < 32 \<or> 127 \<le> n \<and> n \<le> 159)"

definition issuing_value :: "nat \<Rightarrow> string option \<Rightarrow> bool" where
  "issuing_value maximum v =
     (case v of None \<Rightarrow> False
      | Some s \<Rightarrow> 1 \<le> length s \<and> length s \<le> maximum \<and> s = py_strip s \<and>
          \<not> (\<exists>c \<in> set s. control_char c))"

definition issuing_pair ::
  "string option \<Rightarrow> string option \<Rightarrow> (string option \<times> string option) res" where
  "issuing_pair issuer client_id =
     (if issuer = None \<and> client_id = None then Inr (None, None)
      else if issuing_value 2048 issuer \<and> issuing_value 256 client_id then Inr (issuer, client_id)
      else Inl (err RepositoryValidationError))"

subsection \<open>Rows\<close>

record revocation_row =
  rq_id :: int
  rq_user_id :: string
  rq_refresh_token_enc :: string
  rq_enqueued_at :: int
  rq_attempts :: "int option"
  rq_client_id :: "string option"
  rq_issuing_issuer :: "string option"

text \<open>\<open>btrim\<close> over the space characters the constraint lists, and its class of control characters.\<close>

definition trim_char :: "char \<Rightarrow> bool" where
  "trim_char c = ((of_char c :: nat) \<in> {32, 160})"

definition pg_btrim :: "string \<Rightarrow> string" where
  "pg_btrim s = rev (dropWhile trim_char (rev (dropWhile trim_char s)))"

definition listed_control :: "char \<Rightarrow> bool" where
  "listed_control c = (let n = of_char c :: nat in 1 \<le> n \<and> n \<le> 31 \<or> 127 \<le> n \<and> n \<le> 159)"

definition metadata_text_ok :: "nat \<Rightarrow> string \<Rightarrow> bool" where
  "metadata_text_ok maximum s =
     (1 \<le> length s \<and> length s \<le> maximum \<and> s = pg_btrim s \<and> \<not> (\<exists>c \<in> set s. listed_control c))"

definition issuing_metadata :: "revocation_row \<Rightarrow> bool" where
  "issuing_metadata r =
     (case rq_issuing_issuer r of None \<Rightarrow> True
      | Some issuer \<Rightarrow>
          (case rq_client_id r of None \<Rightarrow> False
           | Some client \<Rightarrow> metadata_text_ok 2048 issuer \<and> metadata_text_ok 256 client))"

definition revocation_row_ok :: "revocation_row \<Rightarrow> bool" where
  "revocation_row_ok r =
     (- MAX_INTEGER - 1 \<le> rq_id r \<and> rq_id r \<le> MAX_INTEGER \<and>
      pg_text (rq_user_id r) \<and> pg_text (rq_refresh_token_enc r) \<and>
      - MAX_BIGINT - 1 \<le> rq_enqueued_at r \<and> rq_enqueued_at r \<le> MAX_BIGINT \<and>
      (\<forall>n \<in> set_option (rq_attempts r). - MAX_INTEGER - 1 \<le> n \<and> n \<le> MAX_INTEGER) \<and>
      (\<forall>s \<in> set_option (rq_client_id r) \<union> set_option (rq_issuing_issuer r). pg_text s) \<and>
      issuing_metadata r)"

definition revocation_conflict :: "revocation_row \<Rightarrow> revocation_row \<Rightarrow> bool" where
  "revocation_conflict r s = (rq_id r = rq_id s)"

subsection \<open>Records, cursors and pages\<close>

record revocation_record =
  qr_queue_id :: int
  qr_owner_id :: string
  qr_refresh_token_ciphertext :: string
  qr_client_id :: "string option"
  qr_enqueued_at :: int
  qr_attempts :: int
  qr_issuing_issuer :: "string option"

record revocation_cursor =
  rc_enqueued_at :: int
  rc_queue_id :: int

record revocation_page =
  rp_records :: "revocation_record list"
  rp_next_cursor :: "revocation_cursor option"
  rp_ceiling :: "int option"

definition page_integer :: "int \<Rightarrow> int \<Rightarrow> int \<Rightarrow> int res" where
  "page_integer minimum maximum value =
     (if minimum \<le> value \<and> value \<le> maximum then Inr value else Inl (err RepositoryValidationError))"

definition make_revocation_cursor :: "int \<Rightarrow> int \<Rightarrow> revocation_cursor res" where
  "make_revocation_cursor enqueued_at queue_id =
     res_bind (page_integer 0 MAX_BIGINT enqueued_at) (\<lambda>_.
     res_bind (page_integer 1 MAX_BIGINT queue_id) (\<lambda>_.
     Inr \<lparr>rc_enqueued_at = enqueued_at, rc_queue_id = queue_id\<rparr>))"

definition revocation_record_of :: "revocation_row \<Rightarrow> revocation_record res" where
  "revocation_record_of r =
     (if rq_issuing_issuer r \<noteq> None \<and> isl (issuing_pair (rq_issuing_issuer r) (rq_client_id r))
      then Inl (err RepositoryDataError)
      else Inr \<lparr>qr_queue_id = rq_id r, qr_owner_id = rq_user_id r,
       qr_refresh_token_ciphertext = rq_refresh_token_enc r, qr_client_id = rq_client_id r,
       qr_enqueued_at = rq_enqueued_at r,
       qr_attempts = (case rq_attempts r of None \<Rightarrow> 0 | Some n \<Rightarrow> n),
       qr_issuing_issuer = rq_issuing_issuer r\<rparr>)"

definition persisted_queue_id :: "int \<Rightarrow> int res" where
  "persisted_queue_id value =
     res_bind (non_negative_int value) (\<lambda>queue_id.
     if queue_id = 0 then Inl (err RepositoryNotFoundError) else Inr queue_id)"

subsection \<open>Operations\<close>

abbreviation revocation_key :: "revocation_row \<Rightarrow> int \<times> int" where
  "revocation_key r \<equiv> (rq_enqueued_at r, rq_id r)"

definition enqueue_revocation ::
  "int \<Rightarrow> string \<Rightarrow> string \<Rightarrow> int \<Rightarrow> string option \<Rightarrow> string option
     \<Rightarrow> (revocation_row list, revocation_record) tx" where
  "enqueue_revocation serial owner_id refresh_token_ciphertext enqueued_at client_id issuing_issuer =
     tx_bind (tx_lift (required_id 512 owner_id)) (\<lambda>owner.
     tx_bind (tx_lift (bounded_text 131072 False refresh_token_ciphertext)) (\<lambda>ciphertext.
     tx_bind (tx_lift (non_negative_int enqueued_at)) (\<lambda>timestamp.
     tx_bind (tx_lift (case issuing_issuer of
         Some _ \<Rightarrow> res_bind (issuing_pair issuing_issuer client_id) (\<lambda>(_, client). Inr client)
       | None \<Rightarrow> (case client_id of None \<Rightarrow> Inr None
                  | Some c \<Rightarrow> res_bind (required_id 512 c) (\<lambda>c. Inr (Some c))))) (\<lambda>client.
     tx_bind (tx_stmt (sql_insert revocation_row_ok revocation_conflict
       \<lparr>rq_id = serial, rq_user_id = owner, rq_refresh_token_enc = ciphertext,
         rq_enqueued_at = timestamp, rq_attempts = Some 0, rq_client_id = client,
         rq_issuing_issuer = issuing_issuer\<rparr>)) (\<lambda>row.
     tx_lift (revocation_record_of row))))))"

definition pending_for_owner :: "string \<Rightarrow> int \<Rightarrow> (revocation_row list, revocation_record list) tx" where
  "pending_for_owner owner_id limit =
     tx_bind (tx_lift (required_id 512 owner_id)) (\<lambda>owner.
     tx_bind (tx_lift (bounded_limit 200 limit)) (\<lambda>n.
     tx_bind (text_parameter owner) (\<lambda>_.
     tx_bind (tx_read (sql_page (\<lambda>r. rq_user_id r = owner) revocation_key (nat n))) (\<lambda>rows.
     tx_lift (traverse revocation_record_of rows)))))"

definition pending_for_administration :: "int \<Rightarrow> (revocation_row list, revocation_record list) tx" where
  "pending_for_administration limit =
     tx_bind (tx_lift (bounded_limit 200 limit)) (\<lambda>n.
     tx_bind (tx_read (sql_page (\<lambda>r. True) revocation_key (nat n))) (\<lambda>rows.
     tx_lift (traverse revocation_record_of rows)))"

text \<open>The statement of a page: the ceiling on every row, and a row of NULLs when there is no record.\<close>

definition cycle_ceiling :: "int option \<Rightarrow> revocation_row list \<Rightarrow> int option" where
  "cycle_ceiling ceiling t =
     (case ceiling of Some c \<Rightarrow> Some c
      | None \<Rightarrow> map_option rq_id (first_row (sql_page_desc (\<lambda>r. True) rq_id 1 t)))"

definition past_cursor :: "revocation_cursor option \<Rightarrow> int \<times> int \<Rightarrow> bool" where
  "past_cursor after k =
     (case after of None \<Rightarrow> True | Some c \<Rightarrow> (rc_enqueued_at c, rc_queue_id c) < k)"

definition in_cycle :: "int option \<Rightarrow> revocation_cursor option \<Rightarrow> revocation_row \<Rightarrow> bool" where
  "in_cycle bound after r =
     ((case bound of None \<Rightarrow> False | Some c \<Rightarrow> rq_id r \<le> c) \<and> past_cursor after (revocation_key r))"

definition cycle_rows ::
  "int option \<Rightarrow> revocation_cursor option \<Rightarrow> nat \<Rightarrow> revocation_row list
     \<Rightarrow> (revocation_row option \<times> int option) list" where
  "cycle_rows ceiling after n t =
     (let bound = cycle_ceiling ceiling t;
          page = sql_page (in_cycle bound after) revocation_key n t
      in if page = [] then [(None, bound)] else map (\<lambda>r. (Some r, bound)) page)"

text \<open>The loop over the rows; \<open>count\<close> is their number, \<open>previous\<close> the key of the row before.\<close>

fun scan_cycle ::
  "int option \<Rightarrow> nat \<Rightarrow> (int \<times> int) option \<Rightarrow> (revocation_row option \<times> int option) list
     \<Rightarrow> revocation_record list res" where
  "scan_cycle captured count previous [] = Inr []"
| "scan_cycle captured count previous ((x, ceiling) # rows) =
     (if ceiling \<noteq> captured then Inl (err RepositoryDataError)
      else case x of
        None \<Rightarrow> if count \<noteq> 1 then Inl (err RepositoryDataError) else Inr []
      | Some r \<Rightarrow>
          if isl (page_integer 0 MAX_BIGINT (rq_enqueued_at r)) \<or> isl (page_integer 1 MAX_BIGINT (rq_id r))
          then Inl (err RepositoryDataError)
          else if (case captured of None \<Rightarrow> True | Some c \<Rightarrow> c < rq_id r) \<or>
              (case previous of None \<Rightarrow> False | Some p \<Rightarrow> revocation_key r \<le> p)
          then Inl (err RepositoryDataError)
          else res_bind (revocation_record_of r) (\<lambda>q.
            res_bind (scan_cycle captured count (Some (revocation_key r)) rows) (\<lambda>qs. Inr (q # qs))))"

definition checked_cycle ::
  "nat \<Rightarrow> revocation_cursor option \<Rightarrow> int option \<Rightarrow> (revocation_row option \<times> int option) list
     \<Rightarrow> (revocation_record list \<times> int option) res" where
  "checked_cycle page_size after ceiling rows =
     (case rows of [] \<Rightarrow> Inl (err RepositoryDataError)
      | (_, captured) # _ \<Rightarrow>
          if page_size + 1 < length rows then Inl (err RepositoryDataError)
          else if (case captured of None \<Rightarrow> False | Some c \<Rightarrow> isl (page_integer 1 MAX_BIGINT c))
          then Inl (err RepositoryDataError)
          else if ceiling \<noteq> None \<and> captured \<noteq> ceiling then Inl (err RepositoryDataError)
          else res_bind (scan_cycle captured (length rows)
              (map_option (\<lambda>c. (rc_enqueued_at c, rc_queue_id c)) after) rows) (\<lambda>records.
            Inr (records, captured)))"

definition page_for_administration ::
  "int \<Rightarrow> revocation_cursor option \<Rightarrow> int option \<Rightarrow> (revocation_row list, revocation_page) tx" where
  "page_for_administration limit after ceiling =
     tx_bind (tx_lift (page_integer 1 200 limit)) (\<lambda>page_size.
     tx_bind (tx_lift (case ceiling of None \<Rightarrow> Inr 0 | Some c \<Rightarrow> page_integer 1 MAX_BIGINT c)) (\<lambda>_.
     tx_bind (tx_lift (case after of None \<Rightarrow> Inr ()
       | Some k \<Rightarrow> res_bind (make_revocation_cursor (rc_enqueued_at k) (rc_queue_id k)) (\<lambda>_.
           case ceiling of None \<Rightarrow> Inl (err RepositoryValidationError)
           | Some c \<Rightarrow> if c < rc_queue_id k then Inl (err RepositoryValidationError) else Inr ()))) (\<lambda>_.
     tx_bind (tx_read (cycle_rows ceiling after (nat page_size + 1))) (\<lambda>rows.
     tx_bind (tx_lift (checked_cycle (nat page_size) after ceiling rows)) (\<lambda>(records, captured).
     let selected = take (nat page_size) records in
     if nat page_size < length records
     then tx_bind (tx_lift (make_revocation_cursor (qr_enqueued_at (last selected))
            (qr_queue_id (last selected)))) (\<lambda>cursor.
          tx_return \<lparr>rp_records = selected, rp_next_cursor = Some cursor, rp_ceiling = captured\<rparr>)
     else tx_return \<lparr>rp_records = selected, rp_next_cursor = None, rp_ceiling = captured\<rparr>)))))"

definition resolve_revocation :: "string \<Rightarrow> int \<Rightarrow> (revocation_row list, bool) tx" where
  "resolve_revocation owner_id queue_id =
     tx_bind (tx_lift (required_id 512 owner_id)) (\<lambda>owner.
     tx_bind (tx_lift (persisted_queue_id queue_id)) (\<lambda>identifier.
     tx_bind (text_parameter owner) (\<lambda>_ t.
     case sql_delete (\<lambda>r. rq_id r = identifier \<and> rq_user_id r = owner) t of (gone, t') \<Rightarrow>
       (Inr (length gone = 1), t'))))"

definition bump_attempt :: "string \<Rightarrow> int \<Rightarrow> int \<Rightarrow> (revocation_row list, revocation_record) tx" where
  "bump_attempt owner_id queue_id expected_attempts =
     tx_bind (tx_lift (required_id 512 owner_id)) (\<lambda>owner.
     tx_bind (tx_lift (persisted_queue_id queue_id)) (\<lambda>identifier.
     tx_bind (tx_lift (non_negative_int expected_attempts)) (\<lambda>expected.
     tx_bind (text_parameter owner) (\<lambda>_.
     tx_bind (tx_stmt (sql_update revocation_row_ok revocation_conflict
         (\<lambda>r. rq_id r = identifier \<and> rq_user_id r = owner \<and> rq_attempts r = Some expected)
         (\<lambda>r. r\<lparr>rq_attempts := map_option (\<lambda>n. n + 1) (rq_attempts r)\<rparr>))) (\<lambda>rows.
     case rows of [r] \<Rightarrow> tx_lift (revocation_record_of r)
     | _ \<Rightarrow> tx_raise (err RepositoryNotFoundError))))))"

subsection \<open>Every stored row is a valid record\<close>

lemma of_char_zero: "(of_char c :: nat) = 0 \<longleftrightarrow> c = CHR 0x00"
proof -
  have "(of_char c :: nat) = of_char (CHR 0x00) \<longleftrightarrow> c = CHR 0x00" by (rule of_char_eq_iff)
  then show ?thesis by simp
qed

lemma trim_char_space: "\<not> listed_control c \<Longrightarrow> c \<noteq> CHR 0x00 \<Longrightarrow> trim_char c \<longleftrightarrow> py_space c"
proof -
  assume *: "\<not> listed_control c" "c \<noteq> CHR 0x00"
  from *(2) have "(of_char c :: nat) \<noteq> 0" by (simp add: of_char_zero)
  with *(1) show ?thesis by (auto simp: listed_control_def trim_char_def py_space_def Let_def)
qed

lemma pg_btrim_strip:
  assumes "\<And>c. c \<in> set s \<Longrightarrow> trim_char c \<longleftrightarrow> py_space c"
  shows "pg_btrim s = py_strip s"
proof -
  have *: "dropWhile trim_char u = dropWhile py_space u" if "set u \<subseteq> set s" for u
    using that assms by (intro dropWhile_cong) auto
  moreover have "set (rev (dropWhile py_space s)) \<subseteq> set s"
    by (auto dest: set_dropWhileD)
  ultimately show ?thesis by (simp add: pg_btrim_def py_strip_def)
qed

text \<open>The constraint of the table admits the texts the constructor admits.\<close>

lemma metadata_text_iff:
  assumes "pg_text s"
  shows "metadata_text_ok maximum s \<longleftrightarrow> issuing_value maximum (Some s)"
proof -
  have ctrl: "control_char c \<longleftrightarrow> listed_control c" if "c \<in> set s" for c
  proof -
    from assms that have "c \<noteq> CHR 0x00" by (auto simp: pg_text_def)
    then have "(of_char c :: nat) \<noteq> 0" by (simp add: of_char_zero)
    then show ?thesis by (auto simp: control_char_def listed_control_def Let_def)
  qed
  show ?thesis
  proof (cases "\<exists>c \<in> set s. listed_control c")
    case True
    then show ?thesis using ctrl by (auto simp: metadata_text_ok_def issuing_value_def)
  next
    case False
    then have "pg_btrim s = py_strip s"
      using assms by (intro pg_btrim_strip trim_char_space) (auto simp: pg_text_def)
    then show ?thesis using False ctrl by (auto simp: metadata_text_ok_def issuing_value_def)
  qed
qed

definition revocation_view :: "revocation_row \<Rightarrow> revocation_record" where
  "revocation_view r = \<lparr>qr_queue_id = rq_id r, qr_owner_id = rq_user_id r,
     qr_refresh_token_ciphertext = rq_refresh_token_enc r, qr_client_id = rq_client_id r,
     qr_enqueued_at = rq_enqueued_at r, qr_attempts = (case rq_attempts r of None \<Rightarrow> 0 | Some n \<Rightarrow> n),
     qr_issuing_issuer = rq_issuing_issuer r\<rparr>"

lemma revocation_view_simps [simp]:
  "qr_queue_id (revocation_view r) = rq_id r" "qr_enqueued_at (revocation_view r) = rq_enqueued_at r"
  by (simp_all add: revocation_view_def)

lemma stored_record: "revocation_row_ok r \<Longrightarrow> revocation_record_of r = Inr (revocation_view r)"
  by (auto simp: revocation_row_ok_def issuing_metadata_def revocation_record_of_def issuing_pair_def
      revocation_view_def metadata_text_iff split: option.splits)

subsection \<open>What other calls do to the queue\<close>

abbreviation revocation_table :: "revocation_row list \<Rightarrow> bool" where
  "revocation_table \<equiv> table_ok revocation_row_ok revocation_conflict"

interpretation revq: keyed_table revocation_row_ok revocation_conflict rq_id
  by unfold_locales (auto simp: revocation_conflict_def)

text \<open>The constraints, and what every row written by \<open>enqueue_revocation\<close> satisfies beyond them.\<close>

definition queue_ok :: "revocation_row list \<Rightarrow> bool" where
  "queue_ok t \<longleftrightarrow> revocation_table t \<and> (\<forall>r \<in> set t. 1 \<le> rq_id r \<and> 0 \<le> rq_enqueued_at r)"

text \<open>A queue with the identifiers drawn so far; the sequence never draws one twice.\<close>

inductive queue_step :: "revocation_row list \<times> int set \<Rightarrow> revocation_row list \<times> int set \<Rightarrow> bool" where
  enqueue: "serial \<notin> D \<Longrightarrow> 1 \<le> serial \<Longrightarrow>
    enqueue_revocation serial owner ciphertext at client issuer t = (x, t') \<Longrightarrow>
    queue_step (t, D) (t', insert serial D)"
| resolve: "resolve_revocation owner i t = (y, t') \<Longrightarrow> queue_step (t, D) (t', D)"
| bump: "bump_attempt owner i n t = (x, t') \<Longrightarrow> queue_step (t, D) (t', D)"

definition queue_order :: "revocation_row list \<times> int set \<Rightarrow> revocation_row list \<times> int set \<Rightarrow> bool" where
  "queue_order q q' \<longleftrightarrow>
     (queue_ok (fst q) \<and> rq_id ` set (fst q) \<subseteq> snd q \<longrightarrow>
        queue_ok (fst q') \<and> rq_id ` set (fst q') \<subseteq> snd q' \<and> snd q \<subseteq> snd q' \<and>
        (\<forall>r' \<in> set (fst q'). rq_id r' \<in> snd q \<longrightarrow> revocation_key r' \<in> revocation_key ` set (fst q)))"

interpretation queue: step_order queue_order
proof
  show "queue_order q q" for q by (auto simp: queue_order_def)
  show "queue_order p r" if pq: "queue_order p q" and qr: "queue_order q r" for p q r
    unfolding queue_order_def
  proof (intro impI conjI ballI)
    assume p: "queue_ok (fst p) \<and> rq_id ` set (fst p) \<subseteq> snd p"
    with pq have q: "queue_ok (fst q)" "rq_id ` set (fst q) \<subseteq> snd q" "snd p \<subseteq> snd q"
      and old: "\<forall>r' \<in> set (fst q). rq_id r' \<in> snd p \<longrightarrow> revocation_key r' \<in> revocation_key ` set (fst p)"
      by (simp_all add: queue_order_def)
    with qr have r: "queue_ok (fst r)" "rq_id ` set (fst r) \<subseteq> snd r" "snd q \<subseteq> snd r"
      and old': "\<forall>r' \<in> set (fst r). rq_id r' \<in> snd q \<longrightarrow> revocation_key r' \<in> revocation_key ` set (fst q)"
      by (simp_all add: queue_order_def)
    from r(1,2) q(3) r(3) show "queue_ok (fst r)" "rq_id ` set (fst r) \<subseteq> snd r" "snd p \<subseteq> snd r" by auto
    fix x assume x: "x \<in> set (fst r)" "rq_id x \<in> snd p"
    with q(3) old' obtain y where "y \<in> set (fst q)" "revocation_key y = revocation_key x" by fastforce
    then have "rq_id y \<in> snd p" using x(2) by simp
    with old \<open>y \<in> set (fst q)\<close> have "revocation_key y \<in> revocation_key ` set (fst p)" by blast
    with \<open>revocation_key y = revocation_key x\<close> show "revocation_key x \<in> revocation_key ` set (fst p)" by simp
  qed
qed

lemma enqueue_order:
  assumes "enqueue_revocation serial owner ciphertext at client issuer t = (x, t')"
    and "serial \<notin> D" "1 \<le> serial"
  shows "queue_order (t, D) (t', insert serial D)"
proof (cases "t' = t")
  case True
  then show ?thesis by (auto simp: queue_order_def)
next
  case False
  obtain r y where ins: "sql_insert revocation_row_ok revocation_conflict r t = Inr (y, t')"
    and r: "rq_id r = serial" "0 \<le> rq_enqueued_at r"
  proof -
    from assms(1) False show ?thesis
      unfolding enqueue_revocation_def tx_bind_def tx_lift_def tx_stmt_def non_negative_int_def
      by (auto split: sum.splits prod.splits if_splits intro!: that)
  qed
  from ins have t': "t' = t @ [r]" by (auto simp: sql_insert_def split: if_splits)
  have "revocation_table t'" if "revocation_table t"
    using revq.table_ok_insert [OF that ins] by blast
  with t' r assms(2,3) show ?thesis by (auto simp: queue_order_def queue_ok_def)
qed

lemma resolve_order:
  assumes "resolve_revocation owner i t = (x, t')"
  shows "queue_order (t, D) (t', D)"
proof -
  from assms obtain w where "t' = filter w t"
    unfolding resolve_revocation_def text_parameter_def tx_bind_def tx_lift_def tx_require_def sql_delete_def
    by (auto split: sum.splits if_splits intro: filter_True [symmetric])
  then show ?thesis
    by (auto simp: queue_order_def queue_ok_def table_ok_def conflict_free_filter)
qed

lemma bump_order:
  assumes "bump_attempt owner i n t = (x, t')"
  shows "queue_order (t, D) (t', D)"
proof (cases "t' = t")
  case True
  then show ?thesis by (auto simp: queue_order_def)
next
  case False
  obtain w rows where upd: "sql_update revocation_row_ok revocation_conflict w
      (\<lambda>r. r\<lparr>rq_attempts := map_option (\<lambda>n. n + 1) (rq_attempts r)\<rparr>) t = Inr (rows, t')"
  proof -
    from assms False show ?thesis
      unfolding bump_attempt_def tx_bind_def tx_lift_def tx_stmt_def text_parameter_def tx_require_def tx_raise_def
      by (auto split: sum.splits prod.splits if_splits list.splits intro!: that)
  qed
  let ?f = "\<lambda>r. if w r then r\<lparr>rq_attempts := map_option (\<lambda>n. n + 1) (rq_attempts r)\<rparr> else r"
  from upd have t': "t' = map ?f t" by (simp add: sql_update_def Let_def split: if_splits)
  have same: "rq_id (?f r) = rq_id r" "rq_enqueued_at (?f r) = rq_enqueued_at r" for r by simp_all
  have "revocation_table t'" if "revocation_table t" using revq.table_ok_update [OF that upd] .
  then show ?thesis
    unfolding queue_order_def queue_ok_def fst_conv snd_conv
    by (simp only: t' set_map image_image ball_simps same) blast
qed

lemma queue_step_order: "queue_step q q' \<Longrightarrow> queue_order q q'"
  by (induction rule: queue_step.induct) (blast intro: enqueue_order resolve_order bump_order)+

lemma queue_run_order: "queue_step\<^sup>*\<^sup>* q q' \<Longrightarrow> queue_order q q'"
  by (rule queue.rel_run [of queue_step, OF queue_step_order])

subsection \<open>A page of the cycle\<close>

definition rest_of_cycle :: "int \<Rightarrow> revocation_cursor option \<Rightarrow> revocation_row list \<Rightarrow> revocation_row list" where
  "rest_of_cycle m after t = sort_key revocation_key (filter (in_cycle (Some m) after) t)"

definition token_cursor :: "revocation_row \<Rightarrow> revocation_cursor" where
  "token_cursor r = \<lparr>rc_enqueued_at = rq_enqueued_at r, rc_queue_id = rq_id r\<rparr>"

lemma rest_member:
  "r \<in> set (rest_of_cycle m after t) \<longleftrightarrow> r \<in> set t \<and> rq_id r \<le> m \<and> past_cursor after (revocation_key r)"
  by (auto simp: rest_of_cycle_def in_cycle_def)

lemma rest_strict:
  assumes "queue_ok t"
  shows "sorted_wrt (<) (map revocation_key (rest_of_cycle m after t))"
proof -
  have "distinct (map rq_id t)" using revq.distinct_rows assms by (simp add: queue_ok_def)
  then have "distinct (map revocation_key (filter w t))" for w
    by (auto simp: distinct_map inj_on_def)
  then have "distinct (map revocation_key (rest_of_cycle m after t))"
    unfolding rest_of_cycle_def by (simp only: distinct_map distinct_sort set_sort)
  moreover have "sorted (map revocation_key (rest_of_cycle m after t))"
    by (simp add: rest_of_cycle_def)
  ultimately show ?thesis by (simp only: strict_sorted_iff)
qed

definition page_row_ok :: "int \<Rightarrow> revocation_row \<Rightarrow> bool" where
  "page_row_ok m r \<longleftrightarrow> revocation_row_ok r \<and> 1 \<le> rq_id r \<and> rq_id r \<le> m \<and> 0 \<le> rq_enqueued_at r"

lemma page_row_bounds:
  "page_row_ok m r \<Longrightarrow> rq_id r \<le> MAX_BIGINT \<and> rq_enqueued_at r \<le> MAX_BIGINT"
  by (auto simp: page_row_ok_def revocation_row_ok_def MAX_INTEGER_def MAX_BIGINT_def)

lemma rest_rows:
  assumes "queue_ok t" and "r \<in> set (rest_of_cycle m after t)"
  shows "page_row_ok m r"
  using assms by (auto simp: rest_member queue_ok_def table_ok_def page_row_ok_def)

lemma scan_success:
  assumes "\<forall>r \<in> set rows. page_row_ok m r" and "sorted_wrt (<) (map revocation_key rows)"
    and "\<forall>p \<in> set_option previous. \<forall>r \<in> set rows. p < revocation_key r"
  shows "scan_cycle (Some m) count previous (map (\<lambda>r. (Some r, Some m)) rows) = Inr (map revocation_view rows)"
  using assms
proof (induction rows arbitrary: previous)
  case (Cons r rows)
  have r: "page_row_ok m r" using Cons.prems(1) by simp
  then have "revocation_record_of r = Inr (revocation_view r)"
    by (simp add: page_row_ok_def stored_record)
  moreover have "\<not> isl (page_integer 0 MAX_BIGINT (rq_enqueued_at r))" "\<not> isl (page_integer 1 MAX_BIGINT (rq_id r))"
    "\<not> m < rq_id r"
    using r page_row_bounds [OF r] by (simp_all add: page_integer_def page_row_ok_def)
  moreover have "\<not> (case previous of None \<Rightarrow> False | Some p \<Rightarrow> revocation_key r \<le> p)"
    using Cons.prems(3) by (auto split: option.split)
  moreover have "scan_cycle (Some m) count (Some (revocation_key r)) (map (\<lambda>r. (Some r, Some m)) rows) =
      Inr (map revocation_view rows)"
    using Cons.prems by (intro Cons.IH) auto
  ultimately show ?case by simp
qed simp

text \<open>The cursor and ceiling a client may continue with.\<close>

definition cycle_position :: "int \<Rightarrow> revocation_cursor option \<Rightarrow> int option \<Rightarrow> revocation_row list \<Rightarrow> bool" where
  "cycle_position m after ceiling t \<longleftrightarrow>
     cycle_ceiling ceiling t = Some m \<and> 1 \<le> m \<and> m \<le> MAX_BIGINT \<and>
     (\<forall>k \<in> set_option after. ceiling = Some m \<and> 0 \<le> rc_enqueued_at k \<and>
        rc_enqueued_at k \<le> MAX_BIGINT \<and> 1 \<le> rc_queue_id k \<and> rc_queue_id k \<le> m)"

lemma checked_success:
  assumes "queue_ok t" and pos: "cycle_position m after ceiling t"
  shows "checked_cycle n after ceiling (cycle_rows ceiling after (Suc n) t) =
    Inr (map revocation_view (take (Suc n) (rest_of_cycle m after t)), Some m)"
proof -
  let ?page = "take (Suc n) (rest_of_cycle m after t)"
  have rows: "cycle_rows ceiling after (Suc n) t =
      (if ?page = [] then [(None, Some m)] else map (\<lambda>r. (Some r, Some m)) ?page)"
    using pos by (simp add: cycle_position_def cycle_rows_def sql_page_def rest_of_cycle_def Let_def)
  have ok: "\<not> isl (page_integer 1 MAX_BIGINT m)" "ceiling = None \<or> ceiling = Some m"
    using pos by (auto simp: cycle_position_def page_integer_def cycle_ceiling_def split: option.splits)
  show ?thesis
  proof (cases "?page = []")
    case True
    with ok show ?thesis by (auto simp: rows checked_cycle_def)
  next
    case False
    have mem: "r \<in> set ?page \<Longrightarrow> r \<in> set (rest_of_cycle m after t)" for r by (rule in_set_takeD)
    have "scan_cycle (Some m) (length ?page) (map_option (\<lambda>c. (rc_enqueued_at c, rc_queue_id c)) after)
        (map (\<lambda>r. (Some r, Some m)) ?page) = Inr (map revocation_view ?page)"
    proof (rule scan_success)
      show "\<forall>r \<in> set ?page. page_row_ok m r" using mem rest_rows [OF assms(1)] by blast
      show "sorted_wrt (<) (map revocation_key ?page)"
        using rest_strict [OF assms(1), of m after] by (simp add: take_map [symmetric] sorted_wrt_take)
      show "\<forall>p \<in> set_option (map_option (\<lambda>c. (rc_enqueued_at c, rc_queue_id c)) after).
          \<forall>r \<in> set ?page. p < revocation_key r"
        using mem unfolding rest_member past_cursor_def by (cases after) force+
    qed
    moreover obtain r rs where "?page = r # rs" using False by (cases ?page) auto
    moreover have "length ?page \<le> Suc n" by simp
    ultimately show ?thesis using ok unfolding rows checked_cycle_def by (auto simp del: length_take)
  qed
qed

lemma page_success:
  assumes "queue_ok t" and pos: "cycle_position m after ceiling t" and n: "1 \<le> n" "n \<le> 200"
  defines "L \<equiv> rest_of_cycle m after t"
  shows "page_for_administration n after ceiling t =
    (Inr \<lparr>rp_records = map revocation_view (take (nat n) L),
       rp_next_cursor = (if nat n < length L then Some (token_cursor (last (take (nat n) L))) else None),
       rp_ceiling = Some m\<rparr>, t)"
proof -
  have size: "page_integer 1 200 n = Inr n" using n by (simp add: page_integer_def)
  obtain x where top: "(case ceiling of None \<Rightarrow> Inr 0 | Some c \<Rightarrow> page_integer 1 MAX_BIGINT c) = Inr x"
    using pos by (cases ceiling) (auto simp: page_integer_def cycle_position_def cycle_ceiling_def)
  have cursor: "(case after of None \<Rightarrow> Inr ()
       | Some k \<Rightarrow> res_bind (make_revocation_cursor (rc_enqueued_at k) (rc_queue_id k)) (\<lambda>_.
           case ceiling of None \<Rightarrow> Inl (err RepositoryValidationError)
           | Some c \<Rightarrow> if c < rc_queue_id k then Inl (err RepositoryValidationError) else Inr ())) = Inr ()"
    using pos by (auto simp: page_integer_def make_revocation_cursor_def cycle_position_def split: option.splits)
  have last: "make_revocation_cursor (rq_enqueued_at r) (rq_id r) = Inr (token_cursor r)" if "r \<in> set L" for r
    using rest_rows [OF assms(1), of r m after] that page_row_bounds [of m r]
    by (auto simp: L_def make_revocation_cursor_def page_integer_def token_cursor_def page_row_ok_def)
  note checked = checked_success [OF assms(1) pos, of "nat n", folded L_def]
  show ?thesis
  proof (cases "nat n < length L")
    case True
    then have ne: "take (nat n) L \<noteq> []" using n by auto
    then have "last (take (nat n) L) \<in> set L" by (meson in_set_takeD last_in_set)
    note cur = last [OF this]
    show ?thesis
      using True ne cur unfolding page_for_administration_def
      by (simp add: size top cursor tx_simps checked take_map last_map min_def)
  next
    case False
    then show ?thesis
      unfolding page_for_administration_def
      by (simp add: size top cursor tx_simps checked take_map)
  qed
qed

subsection \<open>A whole cycle\<close>

text \<open>
  A client that follows the cursors under the ceiling of its first page, for at most \<open>fuel\<close>
  pages; it reads page \<open>i\<close> when the queue is \<open>T i\<close>.
\<close>

fun drain_cycle ::
  "nat \<Rightarrow> (nat \<Rightarrow> revocation_row list) \<Rightarrow> int \<Rightarrow> nat \<Rightarrow> revocation_cursor option \<Rightarrow> int option
     \<Rightarrow> revocation_record list list option" where
  "drain_cycle 0 T n i after ceiling = None"
| "drain_cycle (Suc fuel) T n i after ceiling =
     (case page_for_administration n after ceiling (T i) of
        (Inl _, _) \<Rightarrow> None
      | (Inr page, _) \<Rightarrow>
          (case rp_next_cursor page of None \<Rightarrow> Some [rp_records page]
           | Some cursor \<Rightarrow> map_option ((#) (rp_records page))
               (drain_cycle fuel T n (Suc i) (Some cursor) (rp_ceiling page))))"

abbreviation record_key :: "revocation_record \<Rightarrow> int \<times> int" where
  "record_key q \<equiv> (qr_enqueued_at q, qr_queue_id q)"

text \<open>
  What the pages read from position \<open>i\<close> on hold: records in strict order, no identifier of
  \<open>V\<close> and none twice, each a row of the queue it was read from, and every row that stays.
\<close>

definition cycle_pages ::
  "(nat \<Rightarrow> revocation_row list) \<Rightarrow> int \<Rightarrow> revocation_cursor option \<Rightarrow> int set \<Rightarrow> nat
     \<Rightarrow> revocation_record list list \<Rightarrow> bool" where
  "cycle_pages T m after V i pages \<longleftrightarrow>
     pages \<noteq> [] \<and> sorted_wrt (<) (map record_key (concat pages)) \<and>
     (\<forall>q \<in> set (concat pages). past_cursor after (record_key q)) \<and>
     distinct (map qr_queue_id (concat pages)) \<and>
     qr_queue_id ` set (concat pages) \<subseteq> {1..m} - V \<and>
     (\<forall>p < length pages. set (pages ! p) \<subseteq> revocation_view ` set (T (i + p))) \<and>
     (\<forall>r \<in> set (T i). rq_id r \<le> m \<longrightarrow> past_cursor after (revocation_key r) \<longrightarrow>
        (\<forall>p < length pages. rq_id r \<in> rq_id ` set (T (i + p))) \<longrightarrow>
        rq_id r \<in> qr_queue_id ` set (concat pages))"

text \<open>The queue at any time: valid, and an identifier keeps its time.\<close>

definition queue_history :: "(nat \<Rightarrow> revocation_row list) \<Rightarrow> bool" where
  "queue_history T \<longleftrightarrow> (\<forall>j. queue_ok (T j)) \<and>
     (\<forall>j k. \<forall>r \<in> set (T j). \<forall>x \<in> set (T k). rq_id r = rq_id x \<longrightarrow> rq_enqueued_at r = rq_enqueued_at x)"

text \<open>The identifiers of \<open>V\<close> lie behind the cursor in every state.\<close>

definition passed_ids :: "(nat \<Rightarrow> revocation_row list) \<Rightarrow> revocation_cursor option \<Rightarrow> int set \<Rightarrow> bool" where
  "passed_ids T after V \<longleftrightarrow>
     (\<forall>j. \<forall>r \<in> set (T j). rq_id r \<in> V \<longrightarrow> \<not> past_cursor after (revocation_key r))"

lemma page_ids:
  assumes "queue_ok t"
  shows "distinct (map rq_id (rest_of_cycle m after t))"
proof -
  have "distinct (map rq_id t)" using revq.distinct_rows assms by (simp add: queue_ok_def)
  then show ?thesis
    by (auto simp: rest_of_cycle_def distinct_map inj_on_def)
qed

lemma record_keys: "map record_key (map revocation_view L) = map revocation_key L"
  "map qr_queue_id (map revocation_view L) = map rq_id L"
  by simp_all

lemma cycle_last:
  assumes ok: "queue_ok (T i)" and V: "passed_ids T after V"
  shows "cycle_pages T m after V i [map revocation_view (rest_of_cycle m after (T i))]"
proof -
  let ?L = "rest_of_cycle m after (T i)"
  have "set ?L \<subseteq> set (T i)" by (auto simp: rest_member)
  moreover have "rq_id r \<in> {1..m} - V" "past_cursor after (revocation_key r)" if "r \<in> set ?L" for r
    using that V rest_rows [OF ok that] by (auto simp: rest_member page_row_ok_def passed_ids_def)
  ultimately show ?thesis
    using rest_strict [OF ok, of m after] page_ids [OF ok, of m after]
    unfolding cycle_pages_def concat.simps append_Nil2 record_keys
    by (auto simp: rest_member image_image)
qed

lemma sorted_take_last:
  fixes k :: "'r \<Rightarrow> 'k::linorder"
  assumes "sorted_wrt (<) (map k L)" and "take n L \<noteq> []"
  shows "r \<in> set (take n L) \<Longrightarrow> k r \<le> k (last (take n L))"
    and "r \<in> set (drop n L) \<Longrightarrow> k (last (take n L)) < k r"
proof -
  from assms(2) have A: "take n L = butlast (take n L) @ [last (take n L)]" by simp
  have "sorted_wrt (<) (map k (take n L @ drop n L))" using assms(1) by simp
  then have *: "sorted_wrt (<) (map k (butlast (take n L) @ [last (take n L)] @ drop n L))"
    using A by (metis append.assoc)
  show "k r \<le> k (last (take n L))" if "r \<in> set (take n L)"
  proof -
    from that A have "r \<in> set (butlast (take n L) @ [last (take n L)])" by simp
    with * show ?thesis by (auto simp: sorted_wrt_append simp del: append_butlast_last_id)
  qed
  show "k (last (take n L)) < k r" if "r \<in> set (drop n L)"
    using that * by (simp add: sorted_wrt_append)
qed

lemma past_token_cursor: "past_cursor (Some (token_cursor z)) k \<longleftrightarrow> revocation_key z < k"
  by (simp add: past_cursor_def token_cursor_def)

lemma past_cursor_mono: "past_cursor after k \<Longrightarrow> k \<le> k' \<Longrightarrow> past_cursor after k'"
  by (auto simp: past_cursor_def split: option.splits)

text \<open>The coverage part of a page that is not the last.\<close>

lemma cycle_more_covers:
  assumes hist: "queue_history T"
    and A: "A = take n (rest_of_cycle m after (T i))" "A \<noteq> []"
    and rest: "cycle_pages T m (Some (token_cursor (last A))) W (Suc i) pages"
    and r: "r \<in> set (T i)" "rq_id r \<le> m" "past_cursor after (revocation_key r)"
    and stays: "\<And>p. p < Suc (length pages) \<Longrightarrow> rq_id r \<in> rq_id ` set (T (i + p))"
  shows "rq_id r \<in> rq_id ` set A \<or> rq_id r \<in> qr_queue_id ` set (concat pages)"
proof (cases "r \<in> set A")
  case False
  let ?L = "rest_of_cycle m after (T i)"
  have ok: "queue_ok (T i)" using hist by (simp add: queue_history_def)
  have "r \<in> set (take n ?L @ drop n ?L)" using r by (simp add: rest_member)
  with False have "r \<in> set (drop n ?L)" unfolding A(1) set_append by blast
  then have less: "revocation_key (last A) < revocation_key r"
    using sorted_take_last(2) [OF rest_strict [OF ok, of m after], of n, folded A(1), OF A(2)] by blast
  have "0 < length pages" using rest by (simp add: cycle_pages_def)
  with stays [of 1] obtain x where x: "x \<in> set (T (Suc i))" "rq_id x = rq_id r" by fastforce
  with hist r(1) have "rq_enqueued_at x = rq_enqueued_at r" unfolding queue_history_def by blast
  with x less have "past_cursor (Some (token_cursor (last A))) (revocation_key x)"
    by (simp add: past_token_cursor)
  moreover have "\<forall>p < length pages. rq_id x \<in> rq_id ` set (T (Suc i + p))"
    using stays x(2) by (metis Suc_less_eq add_Suc add_Suc_right)
  moreover have "rq_id x \<le> m" using x(2) r(2) by simp
  ultimately have "rq_id x \<in> qr_queue_id ` set (concat pages)"
    using rest x(1) unfolding cycle_pages_def by blast
  with x(2) show ?thesis by simp
qed simp

lemma cycle_more:
  assumes hist: "queue_history T"
    and V: "passed_ids T after V"
    and A: "A = take n (rest_of_cycle m after (T i))" "A \<noteq> []"
    and rest: "cycle_pages T m (Some (token_cursor (last A))) (V \<union> rq_id ` set A) (Suc i) pages"
  shows "cycle_pages T m after V i (map revocation_view A # pages)"
proof -
  let ?L = "rest_of_cycle m after (T i)" and ?C = "concat pages"
  have ok: "queue_ok (T i)" using hist by (simp add: queue_history_def)
  have mem: "r \<in> set ?L" if "r \<in> set A" for r using that A(1) by (auto dest: in_set_takeD)
  have row: "rq_id r \<in> {1..m} - V" "past_cursor after (revocation_key r)" "r \<in> set (T i)" if "r \<in> set A" for r
    using mem [OF that] V rest_rows [OF ok mem [OF that]]
    by (auto simp: rest_member page_row_ok_def passed_ids_def)
  note parts = rest [unfolded cycle_pages_def]
  from parts have C: "sorted_wrt (<) (map record_key ?C)" "distinct (map qr_queue_id ?C)"
    "qr_queue_id ` set ?C \<subseteq> {1..m} - (V \<union> rq_id ` set A)" by simp_all
  from parts have from_table: "\<forall>p < length pages. set (pages ! p) \<subseteq> revocation_view ` set (T (Suc i + p))"
    by simp
  from parts have "\<forall>q \<in> set ?C. past_cursor (Some (token_cursor (last A))) (record_key q)" by simp
  then have later: "revocation_key (last A) < record_key q" if "q \<in> set ?C" for q
    using that unfolding past_token_cursor by (rule bspec)
  have before: "revocation_key r < record_key q" if "r \<in> set A" "q \<in> set ?C" for r q
    using sorted_take_last(1) [OF rest_strict [OF ok, of m after], of n, folded A(1), OF A(2) that(1)]
      later [OF that(2)] by (rule order.strict_trans1)
  have page: "sorted_wrt (<) (map revocation_key A)" "distinct (map rq_id A)"
    using rest_strict [OF ok, of m after] page_ids [OF ok, of m after]
    unfolding A(1) by (simp_all add: take_map [symmetric] sorted_wrt_take)
  have "\<forall>x \<in> revocation_key ` set A. \<forall>y \<in> record_key ` set ?C. x < y"
    by (intro ballI; elim imageE; simp only: before)
  with page(1) C(1) have "sorted_wrt (<) (map record_key (map revocation_view A @ ?C))"
    unfolding map_append record_keys sorted_wrt_append set_map by (intro conjI)
  moreover have "rq_id ` set A \<inter> qr_queue_id ` set ?C = {}" using C(3) by blast
  with page(2) C(2) have "distinct (map qr_queue_id (map revocation_view A @ ?C))"
    unfolding map_append record_keys distinct_append set_map by (intro conjI)
  moreover have "qr_queue_id ` set (map revocation_view A @ ?C) \<subseteq> {1..m} - V"
    using C(3) row(1) unfolding set_append image_Un set_map image_image revocation_view_simps by blast
  moreover have "\<forall>q \<in> set (map revocation_view A @ ?C). past_cursor after (record_key q)"
  proof -
    have "past_cursor after (record_key q)" if "q \<in> set ?C" for q
      using row(2) [OF last_in_set [OF A(2)]] less_imp_le [OF later [OF that]] by (rule past_cursor_mono)
    with row(2) show ?thesis by auto
  qed
  moreover have "set ((map revocation_view A # pages) ! p) \<subseteq> revocation_view ` set (T (i + p))"
    if "p < length (map revocation_view A # pages)" for p
    using that from_table row(3) by (cases p) auto
  ultimately show ?thesis
    using cycle_more_covers [OF hist A rest]
    unfolding cycle_pages_def concat.simps by (simp add: image_Un image_image)
qed

text \<open>After a page that is not the last the client stands at a later position.\<close>

lemma cycle_advance:
  assumes hist: "queue_history T" and pos: "cycle_position m after ceiling (T i)" and V: "V \<subseteq> {1..m}"
    and past: "passed_ids T after V"
    and A: "A = take n (rest_of_cycle m after (T i))" "A \<noteq> []"
  defines "k \<equiv> token_cursor (last A)" and "W \<equiv> V \<union> rq_id ` set A"
  shows "cycle_position m (Some k) (Some m) (T (Suc i))" and "W \<subseteq> {1..m}" and "card V < card W"
    and "passed_ids T (Some k) W"
proof -
  have ok: "queue_ok (T i)" using hist by (simp add: queue_history_def)
  have mem: "r \<in> set (rest_of_cycle m after (T i))" if "r \<in> set A" for r
    using that unfolding A(1) by (rule in_set_takeD)
  have row: "page_row_ok m r" "past_cursor after (revocation_key r)" "r \<in> set (T i)" if "r \<in> set A" for r
    using rest_rows [OF ok mem [OF that]] mem [OF that] by (auto simp: rest_member)
  note z = last_in_set [OF A(2)]
  show "cycle_position m (Some k) (Some m) (T (Suc i))"
    using pos row(1) [OF z] page_row_bounds [OF row(1) [OF z]]
    by (simp add: k_def cycle_position_def cycle_ceiling_def token_cursor_def page_row_ok_def)
  show W: "W \<subseteq> {1..m}" using V row(1) by (auto simp: W_def page_row_ok_def)
  have "rq_id (last A) \<notin> V" using past row(2,3) [OF z] unfolding passed_ids_def by blast
  then have "V \<subset> W" using z unfolding W_def by blast
  then show "card V < card W" using W by (intro psubset_card_mono) (auto intro: finite_subset)
  have "\<not> past_cursor (Some k) (revocation_key r)" if r: "r \<in> set (T j)" "rq_id r \<in> W" for j r
  proof (cases "rq_id r \<in> V")
    case True
    with past r(1) have "\<not> past_cursor after (revocation_key r)" unfolding passed_ids_def by blast
    then show ?thesis
      using past_cursor_mono [OF row(2) [OF z]] less_imp_le unfolding k_def past_token_cursor by blast
  next
    case False
    with r(2) obtain x where x: "x \<in> set A" "rq_id x = rq_id r" by (auto simp: W_def)
    have "rq_enqueued_at x = rq_enqueued_at r"
      using hist row(3) [OF x(1)] r(1) x(2) unfolding queue_history_def by blast
    moreover have "revocation_key x \<le> revocation_key (last A)"
      using sorted_take_last(1) [OF rest_strict [OF ok, of m after], of n, folded A(1), OF A(2) x(1)] .
    ultimately show ?thesis using x(2) unfolding k_def past_token_cursor by auto
  qed
  then show "passed_ids T (Some k) W" by (simp add: passed_ids_def)
qed

lemma drain_from:
  assumes hist: "queue_history T" and n: "1 \<le> n" "n \<le> 200"
  shows "cycle_position m after ceiling (T i) \<Longrightarrow> V \<subseteq> {1..m} \<Longrightarrow> nat m < fuel + card V \<Longrightarrow>
    passed_ids T after V \<Longrightarrow>
    \<exists>pages. drain_cycle fuel T n i after ceiling = Some pages \<and> cycle_pages T m after V i pages"
proof (induction fuel arbitrary: i after ceiling V)
  case 0
  have "card V \<le> card {1..m}" using 0(2) by (intro card_mono) auto
  with 0(3) show ?case by simp
next
  case (Suc fuel)
  let ?L = "rest_of_cycle m after (T i)" and ?A = "take (nat n) (rest_of_cycle m after (T i))"
  have ok: "queue_ok (T i)" using hist by (simp add: queue_history_def)
  note page = page_success [OF ok Suc.prems(1) n]
  show ?case
  proof (cases "nat n < length ?L")
    case False
    with page have "drain_cycle (Suc fuel) T n i after ceiling = Some [map revocation_view ?L]" by simp
    moreover have "cycle_pages T m after V i [map revocation_view ?L]"
      using ok Suc.prems(4) by (rule cycle_last)
    ultimately show ?thesis by blast
  next
    case True
    then have ne: "?A \<noteq> []" using n by auto
    note later = cycle_advance [OF hist Suc.prems(1,2,4) refl ne]
    have "nat m < fuel + card (V \<union> rq_id ` set ?A)" using later(3) Suc.prems(3) by simp
    from Suc.IH [OF later(1,2) this later(4)] obtain pages where
      pages: "drain_cycle fuel T n (Suc i) (Some (token_cursor (last ?A))) (Some m) = Some pages"
      "cycle_pages T m (Some (token_cursor (last ?A))) (V \<union> rq_id ` set ?A) (Suc i) pages"
      by blast
    have "drain_cycle (Suc fuel) T n i after ceiling = Some (map revocation_view ?A # pages)"
      using page True pages(1) by simp
    with cycle_more [OF hist Suc.prems(4) refl ne pages(2)] show ?thesis by blast
  qed
qed

lemma queue_runs_history:
  assumes "queue_ok (T 0)" and "rq_id ` set (T 0) \<subseteq> D 0"
    and run: "\<And>i. queue_step\<^sup>*\<^sup>* (T i, D i) (T (Suc i), D (Suc i))"
  shows "queue_history T"
proof -
  have runs: "queue_step\<^sup>*\<^sup>* (T j, D j) (T k, D k)" if "j \<le> k" for j k
    using that
  proof (induction k rule: dec_induct)
    case (step k)
    show ?case by (rule rtranclp_trans [OF step.IH run])
  qed simp
  have ok: "queue_ok (T k)" "rq_id ` set (T k) \<subseteq> D k" for k
    using queue_run_order [OF runs [of 0 k]] assms(1,2) unfolding queue_order_def fst_conv snd_conv by blast+
  have same: "rq_enqueued_at x = rq_enqueued_at r"
    if le: "j \<le> k" and rx: "r \<in> set (T j)" "x \<in> set (T k)" "rq_id r = rq_id x" for j k r x
  proof -
    have "\<forall>r' \<in> set (T k). rq_id r' \<in> D j \<longrightarrow> revocation_key r' \<in> revocation_key ` set (T j)"
      using queue_run_order [OF runs [OF le]] ok [of j] unfolding queue_order_def fst_conv snd_conv by blast
    moreover have "rq_id x \<in> D j" using ok(2) [of j] rx(1) unfolding rx(3) [symmetric] by blast
    ultimately have "revocation_key x \<in> revocation_key ` set (T j)" using rx(2) by blast
    then obtain y where y: "y \<in> set (T j)" "revocation_key x = revocation_key y" by (rule imageE)
    then have "y = r"
      using revq.key_unique [of "T j" y r] ok(1) [of j] rx by (simp add: queue_ok_def)
    with y(2) show ?thesis by simp
  qed
  have "rq_enqueued_at r = rq_enqueued_at x"
    if "r \<in> set (T j)" "x \<in> set (T k)" "rq_id r = rq_id x" for j k r x
  proof (cases "j \<le> k")
    case True
    from same [OF this that] show ?thesis by simp
  next
    case False
    then have "k \<le> j" by simp
    from same [OF this that(2,1) that(3) [symmetric]] show ?thesis .
  qed
  with ok(1) show ?thesis unfolding queue_history_def by blast
qed

lemma cycle_ceiling_first:
  assumes "t \<noteq> []"
  shows "\<exists>r \<in> set t. cycle_ceiling None t = Some (rq_id r) \<and> (\<forall>x \<in> set t. rq_id x \<le> rq_id r)"
proof -
  have "sort_key rq_id t \<noteq> []" using assms by (metis length_0_conv length_sort)
  then obtain ys z where s: "sort_key rq_id t = ys @ [z]" by (metis rev_exhaust)
  have mem: "x \<in> set t \<longleftrightarrow> x \<in> set (ys @ [z])" for x using s by (metis set_sort)
  have "z \<in> set t" by (simp add: mem)
  moreover have "cycle_ceiling None t = Some (rq_id z)"
    by (simp add: cycle_ceiling_def sql_page_desc_def s)
  moreover have "rq_id x \<le> rq_id z" if "x \<in> set t" for x
  proof -
    have "sorted (map rq_id (ys @ [z]))" using s by (metis sorted_sort_key)
    with that show ?thesis by (auto simp: mem sorted_append)
  qed
  ultimately show ?thesis by blast
qed

lemma drain_empty:
  "1 \<le> n \<Longrightarrow> n \<le> 200 \<Longrightarrow> T 0 = [] \<Longrightarrow> drain_cycle (Suc fuel) T n 0 None None = Some [[]]"
  by (simp add: page_for_administration_def page_integer_def tx_simps cycle_rows_def cycle_ceiling_def
      sql_page_desc_def sql_page_def checked_cycle_def)

text \<open>
  C14. A drain cycle ends and covers the queue it started from. While tokens are enqueued, resolved
  and retried between the pages, a client that follows the cursors under the ceiling of its first page
  gets its last page after at most as many further pages as the greatest identifier. It sees the
  records in strict order of time and identifier, none twice and none above the greatest identifier
  of the first page's queue, each as it is stored when its page is read. It sees every token that
  the queue holds when the first page is read and that is not resolved before the cycle ends. A token that
  another transaction commits later is left to the next cycle unless it falls under the ceiling and
  after the cursor.
\<close>

theorem drain_cycle_complete:
  assumes "queue_ok (T 0)" and "rq_id ` set (T 0) \<subseteq> D 0"
    and "\<forall>i. queue_step\<^sup>*\<^sup>* (T i, D i) (T (Suc i), D (Suc i))"
    and n: "1 \<le> n" "n \<le> 200" and top: "\<forall>r \<in> set (T 0). rq_id r \<le> int fuel"
  shows "\<exists>pages. drain_cycle (Suc fuel) T n 0 None None = Some pages \<and>
    sorted_wrt (<) (map record_key (concat pages)) \<and> distinct (map qr_queue_id (concat pages)) \<and>
    (\<forall>q \<in> set (concat pages). \<exists>r \<in> set (T 0). qr_queue_id q \<le> rq_id r) \<and>
    (\<forall>p < length pages. \<forall>q \<in> set (pages ! p). \<exists>r \<in> set (T p). revocation_record_of r = Inr q) \<and>
    (\<forall>r \<in> set (T 0). (\<forall>p < length pages. rq_id r \<in> rq_id ` set (T p)) \<longrightarrow>
       rq_id r \<in> qr_queue_id ` set (concat pages))"
proof (cases "T 0 = []")
  case True
  with drain_empty [OF n, of T] show ?thesis by simp
next
  case False
  have hist: "queue_history T" by (rule queue_runs_history [of T D, OF assms(1,2) spec [OF assms(3)]])
  then have ok: "queue_ok (T j)" for j by (simp add: queue_history_def)
  from cycle_ceiling_first [OF False] obtain z where z: "z \<in> set (T 0)"
    and m: "cycle_ceiling None (T 0) = Some (rq_id z)" "\<forall>x \<in> set (T 0). rq_id x \<le> rq_id z" by blast
  have "page_row_ok (rq_id z) z" using ok [of 0] z by (auto simp: queue_ok_def table_ok_def page_row_ok_def)
  with m(1) have pos: "cycle_position (rq_id z) None None (T 0)"
    using page_row_bounds [of "rq_id z" z] by (simp add: cycle_position_def page_row_ok_def)
  have "nat (rq_id z) < Suc fuel + card ({} :: int set)" using top z by fastforce
  then obtain pages where drain: "drain_cycle (Suc fuel) T n 0 None None = Some pages"
    and pages: "cycle_pages T (rq_id z) None {} 0 pages"
    using drain_from [OF hist n pos empty_subsetI] unfolding passed_ids_def by blast
  note parts = pages [unfolded cycle_pages_def add_0]
  have row: "revocation_record_of r = Inr (revocation_view r)" if "r \<in> set (T j)" for r j
    using ok [of j] that by (simp add: queue_ok_def table_ok_def stored_record)
  have ids: "\<exists>r \<in> set (T 0). qr_queue_id q \<le> rq_id r" if "q \<in> set (concat pages)" for q
  proof -
    have "qr_queue_id q \<in> {1..rq_id z}" using parts that by blast
    with z show ?thesis by (intro bexI [of _ z]) simp_all
  qed
  have stored: "\<exists>r \<in> set (T p). revocation_record_of r = Inr q" if "p < length pages" "q \<in> set (pages ! p)" for p q
  proof -
    have "q \<in> revocation_view ` set (T p)" using parts that by blast
    with row show ?thesis by auto
  qed
  have covers: "rq_id r \<in> qr_queue_id ` set (concat pages)"
    if r: "r \<in> set (T 0)" "\<forall>p < length pages. rq_id r \<in> rq_id ` set (T p)" for r
  proof -
    have "past_cursor None (revocation_key r)" by (simp add: past_cursor_def)
    with parts r m(2) show ?thesis by blast
  qed
  have order: "sorted_wrt (<) (map record_key (concat pages))" "distinct (map qr_queue_id (concat pages))"
    using parts by blast+
  show ?thesis
    by (intro exI [of _ pages] conjI ballI allI impI; (rule drain order ids stored covers; assumption?))
qed

subsection \<open>A sample cycle\<close>

definition sample_token :: "int \<Rightarrow> int \<Rightarrow> revocation_row" where
  "sample_token i at = \<lparr>rq_id = i, rq_user_id = ''ada'', rq_refresh_token_enc = ''x'', rq_enqueued_at = at,
     rq_attempts = Some 0, rq_client_id = Some ''cli'', rq_issuing_issuer = Some ''https://idp''\<rparr>"

text \<open>After the first page token 2 is resolved and token 4 is enqueued.\<close>

definition sample_queue :: "nat \<Rightarrow> revocation_row list" where
  "sample_queue i = (if i = 0 then [sample_token 1 30, sample_token 2 20, sample_token 3 10]
     else [sample_token 1 30, sample_token 3 10, sample_token 4 40])"

definition sample_drawn :: "nat \<Rightarrow> int set" where
  "sample_drawn i = (if i = 0 then {1, 2, 3} else {1, 2, 3, 4})"

lemma sample_text: "bounded_text 131072 False ''x'' = Inr ''x''"
  by (simp add: py_strip_empty_iff py_space_def)

lemma sample_queue_run: "queue_step\<^sup>*\<^sup>* (sample_queue i, sample_drawn i) (sample_queue (Suc i), sample_drawn (Suc i))"
proof (cases i)
  case 0
  let ?mid = "[sample_token 1 30, sample_token 3 10]"
  have "resolve_revocation ''ada'' 2 (sample_queue 0) = (Inr True, ?mid)" by code_simp
  then have "queue_step (sample_queue 0, sample_drawn 0) (?mid, sample_drawn 0)" by (rule queue_step.resolve)
  moreover have "enqueue_revocation 4 ''ada'' ''x'' 40 (Some ''cli'') (Some ''https://idp'') ?mid =
      (Inr (revocation_view (sample_token 4 40)), sample_queue 1)"
    unfolding enqueue_revocation_def sample_text by code_simp
  then have "queue_step (?mid, sample_drawn 0) (sample_queue 1, insert 4 (sample_drawn 0))"
    by (intro queue_step.enqueue) (simp_all add: sample_drawn_def)
  moreover have "insert 4 (sample_drawn 0) = sample_drawn 1" by (auto simp: sample_drawn_def)
  ultimately show ?thesis unfolding 0 One_nat_def [symmetric]
    using converse_rtranclp_into_rtranclp [of queue_step, OF _ r_into_rtranclp] by metis
qed (simp add: sample_queue_def sample_drawn_def)

lemma sample_queue_ok: "queue_ok (sample_queue 0)"
proof -
  have "list_all revocation_row_ok (sample_queue 0)" by code_simp
  then show ?thesis
    by (auto simp: queue_ok_def table_ok_def sample_queue_def sample_token_def revocation_conflict_def)
qed

theorem drain_cycle_complete_witness:
  "\<exists>pages. drain_cycle (Suc 3) sample_queue 2 0 None None = Some pages \<and>
     map (map qr_queue_id) pages = [[3, 2], [1]] \<and> distinct (map qr_queue_id (concat pages))"
proof -
  have "map_option (map (map qr_queue_id)) (drain_cycle (Suc 3) sample_queue 2 0 None None) =
      Some [[3, 2], [1]]" by code_simp
  moreover have "rq_id ` set (sample_queue 0) \<subseteq> sample_drawn 0"
    "\<forall>r \<in> set (sample_queue 0). rq_id r \<le> int 3"
    by (simp_all add: sample_queue_def sample_drawn_def sample_token_def)
  ultimately show ?thesis
    using drain_cycle_complete [of sample_queue sample_drawn 2 3, OF sample_queue_ok] sample_queue_run by auto
qed

end
