(* ===== verification/OfflineGrants.thy ===== *)
theory OfflineGrants
  imports Uuid
begin

text \<open>
  Encrypted offline refresh-token grants and their finite admission allowance:
  \<open>repositories/offline_grants.py\<close> over the table \<open>user_offline_grant\<close> of
  \<open>database/legacy_baseline_066.py\<close> and \<open>database/framework_credential_schema.py\<close>.

  \<open>assert_current_grant\<close> also takes the owner's advisory lock, reads the owner's state in a table of
  the blob store and the clock of the server; whether the lock is acquired, whether the state row
  is locked by another transaction, the state and the time are arguments.
\<close>

subsection \<open>Rows and records\<close>

type_synonym ciphertext = "8 word list"

record grant_row =
  gr_id :: string
  gr_user_id :: string
  gr_agent_id :: "string option"
  gr_refresh_token_enc :: ciphertext
  gr_issued_at :: int
  gr_expires_at :: int
  gr_revoked_at :: "int option"
  gr_created_at :: "int option"
  gr_updated_at :: "int option"
  gr_max_admissions :: "int option"
  gr_consumed_admissions :: "int option"

definition bigint_column :: "int \<Rightarrow> bool" where
  "bigint_column n = (- MAX_BIGINT - 1 \<le> n \<and> n \<le> MAX_BIGINT)"

definition grant_allowance :: "grant_row \<Rightarrow> bool" where
  "grant_allowance r =
     (case gr_max_admissions r of None \<Rightarrow> True
      | Some m \<Rightarrow> (case gr_consumed_admissions r of None \<Rightarrow> False | Some c \<Rightarrow> c \<le> m))"

definition grant_row_ok :: "grant_row \<Rightarrow> bool" where
  "grant_row_ok r =
     (pg_text (gr_user_id r) \<and> (\<forall>a \<in> set_option (gr_agent_id r). pg_text a) \<and>
      bigint_column (gr_issued_at r) \<and> bigint_column (gr_expires_at r) \<and>
      (\<forall>n \<in> set_option (gr_revoked_at r). bigint_column n) \<and>
      (\<forall>n \<in> set_option (gr_created_at r). bigint_column n) \<and>
      (\<forall>n \<in> set_option (gr_updated_at r). bigint_column n) \<and>
      (\<forall>n \<in> set_option (gr_max_admissions r). 1 \<le> n \<and> n \<le> 10000) \<and>
      (\<forall>n \<in> set_option (gr_consumed_admissions r). 0 \<le> n \<and> n \<le> MAX_INTEGER) \<and>
      grant_allowance r)"

definition grant_conflict :: "grant_row \<Rightarrow> grant_row \<Rightarrow> bool" where
  "grant_conflict r s = (gr_id r = gr_id s)"

record offline_grant =
  og_grant_id :: string
  og_owner_id :: string
  og_agent_id :: "string option"
  og_encrypted_refresh_token :: ciphertext
  og_issued_at :: int
  og_expires_at :: int
  og_revoked_at :: "int option"
  og_created_at :: "int option"
  og_updated_at :: "int option"
  og_max_admissions :: "int option"
  og_consumed_admissions :: "int option"

definition grant_active :: "offline_grant \<Rightarrow> bool" where
  "grant_active g = (og_revoked_at g = None)"

definition admissions_remaining :: "offline_grant \<Rightarrow> int option" where
  "admissions_remaining g =
     (case og_max_admissions g of None \<Rightarrow> None
      | Some m \<Rightarrow> Some (m - (case og_consumed_admissions g of None \<Rightarrow> 0 | Some c \<Rightarrow> c)))"

record grant_reference =
  gf_grant_id :: string
  gf_owner_id :: string
  gf_agent_id :: "string option"
  gf_issued_at :: int
  gf_expires_at :: int

datatype revocation_state = GRANT_REVOKED | ALREADY_REVOKED | GRANT_MISSING

subsection \<open>Argument and row checks\<close>

definition grant_uuid_text :: "string \<Rightarrow> string res" where
  "grant_uuid_text s = (case py_uuid s of None \<Rightarrow> Inl (err RepositoryValidationError) | Some u \<Rightarrow> Inr u)"

definition optional_id :: "string option \<Rightarrow> string option res" where
  "optional_id v = (case v of None \<Rightarrow> Inr None | Some s \<Rightarrow> res_bind (required_id 512 s) (\<lambda>s. Inr (Some s)))"

definition optional_admission_limit :: "int option \<Rightarrow> int option res" where
  "optional_admission_limit v =
     (case v of None \<Rightarrow> Inr None
      | Some n \<Rightarrow> if 1 \<le> n \<and> n \<le> 10000 then Inr (Some n) else Inl (err RepositoryValidationError))"

definition opaque_bytes :: "ciphertext \<Rightarrow> ciphertext res" where
  "opaque_bytes b =
     (if b = [] then Inl (err RepositoryValidationError)
      else if 1000000 < int (length b) then Inl (err RepositoryValidationError)
      else Inr b)"

definition stored_int :: "int \<Rightarrow> int res" where
  "stored_int n = (case non_negative_int n of Inl _ \<Rightarrow> Inl (err RepositoryDataError) | Inr m \<Rightarrow> Inr m)"

definition optional_stored_int :: "int option \<Rightarrow> int option res" where
  "optional_stored_int v = (case v of None \<Rightarrow> Inr None | Some n \<Rightarrow> res_bind (stored_int n) (\<lambda>n. Inr (Some n)))"

definition stored_uuid :: "string \<Rightarrow> string res" where
  "stored_uuid s = (case grant_uuid_text s of Inl _ \<Rightarrow> Inl (err RepositoryDataError) | Inr u \<Rightarrow> Inr u)"

definition allowance_inconsistent :: "int option \<Rightarrow> int option \<Rightarrow> bool" where
  "allowance_inconsistent m c =
     ((m = None) \<noteq> (c = None) \<or>
      (case m of None \<Rightarrow> False | Some limit \<Rightarrow> (case c of None \<Rightarrow> False | Some used \<Rightarrow> limit < used)))"

definition grant_of :: "grant_row \<Rightarrow> offline_grant res" where
  "grant_of r =
     res_bind (stored_int (gr_issued_at r)) (\<lambda>issued_at.
     res_bind (stored_int (gr_expires_at r)) (\<lambda>expires_at.
     if expires_at \<le> issued_at then Inl (err RepositoryDataError)
     else case opaque_bytes (gr_refresh_token_enc r) of
       Inl _ \<Rightarrow> Inl (err RepositoryDataError)
     | Inr ciphertext \<Rightarrow>
       res_bind (optional_stored_int (gr_max_admissions r)) (\<lambda>max_admissions.
       res_bind (optional_stored_int (gr_consumed_admissions r)) (\<lambda>consumed_admissions.
       if allowance_inconsistent max_admissions consumed_admissions then Inl (err RepositoryDataError)
       else
         res_bind (stored_uuid (gr_id r)) (\<lambda>grant_id.
         res_bind (optional_stored_int (gr_revoked_at r)) (\<lambda>revoked_at.
         res_bind (optional_stored_int (gr_created_at r)) (\<lambda>created_at.
         res_bind (optional_stored_int (gr_updated_at r)) (\<lambda>updated_at.
         Inr \<lparr>og_grant_id = grant_id, og_owner_id = gr_user_id r, og_agent_id = gr_agent_id r,
           og_encrypted_refresh_token = ciphertext, og_issued_at = issued_at, og_expires_at = expires_at,
           og_revoked_at = revoked_at, og_created_at = created_at, og_updated_at = updated_at,
           og_max_admissions = max_admissions, og_consumed_admissions = consumed_admissions\<rparr>))))))))"

definition reference_of :: "grant_row \<Rightarrow> grant_reference res" where
  "reference_of r =
     res_bind (stored_int (gr_issued_at r)) (\<lambda>issued_at.
     res_bind (stored_int (gr_expires_at r)) (\<lambda>expires_at.
     if expires_at \<le> issued_at then Inl (err RepositoryDataError)
     else res_bind (stored_uuid (gr_id r)) (\<lambda>grant_id.
       Inr \<lparr>gf_grant_id = grant_id, gf_owner_id = gr_user_id r, gf_agent_id = gr_agent_id r,
         gf_issued_at = issued_at, gf_expires_at = expires_at\<rparr>)))"

definition optional_grant :: "grant_row option \<Rightarrow> offline_grant option res" where
  "optional_grant row = (case row of None \<Rightarrow> Inr None | Some r \<Rightarrow> res_bind (grant_of r) (\<lambda>g. Inr (Some g)))"

subsection \<open>Operations\<close>

abbreviation find_grant :: "string \<Rightarrow> string \<Rightarrow> grant_row list \<Rightarrow> grant_row option" where
  "find_grant grant owner t \<equiv> List.find (\<lambda>r. gr_id r = grant \<and> gr_user_id r = owner) t"

definition create_grant ::
  "string \<Rightarrow> string \<Rightarrow> string option \<Rightarrow> ciphertext \<Rightarrow> int \<Rightarrow> int \<Rightarrow> int option
     \<Rightarrow> (grant_row list, offline_grant) tx" where
  "create_grant grant_id owner_id agent_id encrypted_refresh_token issued_at expires_at max_admissions =
     tx_bind (tx_lift (grant_uuid_text grant_id)) (\<lambda>grant.
     tx_bind (tx_lift (required_id 512 owner_id)) (\<lambda>owner.
     tx_bind (tx_lift (optional_id agent_id)) (\<lambda>agent.
     tx_bind (tx_lift (opaque_bytes encrypted_refresh_token)) (\<lambda>ciphertext.
     tx_bind (tx_lift (non_negative_int issued_at)) (\<lambda>issued.
     tx_bind (tx_lift (non_negative_int expires_at)) (\<lambda>expires.
     tx_bind (tx_require (issued < expires) (err RepositoryValidationError)) (\<lambda>_.
     tx_bind (tx_lift (optional_admission_limit max_admissions)) (\<lambda>limit.
     tx_bind (tx_stmt (sql_insert_or_skip grant_row_ok grant_conflict grant_conflict
       \<lparr>gr_id = grant, gr_user_id = owner, gr_agent_id = agent, gr_refresh_token_enc = ciphertext,
         gr_issued_at = issued, gr_expires_at = expires, gr_revoked_at = None,
         gr_created_at = Some issued, gr_updated_at = Some issued, gr_max_admissions = limit,
         gr_consumed_admissions = (case limit of None \<Rightarrow> None | Some _ \<Rightarrow> Some 0)\<rparr>)) (\<lambda>inserted.
     tx_bind (case inserted of Some r \<Rightarrow> tx_return (Some r)
              | None \<Rightarrow> tx_read (find_grant grant owner)) (\<lambda>row.
     case row of None \<Rightarrow> tx_raise (err RepositoryConflictError)
     | Some r \<Rightarrow>
       tx_bind (tx_lift (grant_of r)) (\<lambda>record.
       tx_bind (tx_require (og_owner_id record = owner \<and> og_agent_id record = agent \<and>
           og_encrypted_refresh_token record = ciphertext \<and> og_issued_at record = issued \<and>
           og_expires_at record = expires) (err RepositoryConflictError)) (\<lambda>_.
       tx_return record))))))))))))"

definition charged :: "int \<Rightarrow> grant_row \<Rightarrow> grant_row" where
  "charged observed_at r =
     r\<lparr>gr_consumed_admissions :=
         (case gr_max_admissions r of
            Some _ \<Rightarrow> Some ((case gr_consumed_admissions r of None \<Rightarrow> 0 | Some c \<Rightarrow> c) + 1)
          | None \<Rightarrow> gr_consumed_admissions r),
       gr_updated_at := Some observed_at\<rparr>"

definition chargeable :: "string \<Rightarrow> string \<Rightarrow> int \<Rightarrow> grant_row \<Rightarrow> bool" where
  "chargeable grant owner observed_at r =
     (gr_id r = grant \<and> gr_user_id r = owner \<and> gr_revoked_at r = None \<and> observed_at < gr_expires_at r \<and>
      (case gr_max_admissions r of None \<Rightarrow> True
       | Some m \<Rightarrow> (case gr_consumed_admissions r of None \<Rightarrow> 0 | Some c \<Rightarrow> c) < m))"

definition charge_statement :: "string \<Rightarrow> string \<Rightarrow> int \<Rightarrow> (grant_row list, offline_grant) tx" where
  "charge_statement owner grant observed_at =
     tx_bind (tx_stmt (sql_update grant_row_ok grant_conflict (chargeable grant owner observed_at)
         (charged observed_at))) (\<lambda>rows.
     case rows of r # _ \<Rightarrow> tx_lift (grant_of r)
     | [] \<Rightarrow>
       tx_bind (tx_read (find_grant grant owner)) (\<lambda>existing.
       case existing of None \<Rightarrow> tx_raise (err RepositoryConflictError)
       | Some x \<Rightarrow>
         tx_bind (tx_lift (grant_of x)) (\<lambda>record. tx_raise (err RepositoryConflictError))))"

definition consume_admission :: "string \<Rightarrow> string \<Rightarrow> int \<Rightarrow> (grant_row list, offline_grant) tx" where
  "consume_admission owner_id grant_id as_of =
     tx_bind (tx_lift (required_id 512 owner_id)) (\<lambda>owner.
     tx_bind (tx_lift (grant_uuid_text grant_id)) (\<lambda>grant.
     tx_bind (tx_lift (non_negative_int as_of)) (\<lambda>observed_at.
     tx_bind (text_parameter owner) (\<lambda>_. charge_statement owner grant observed_at))))"

definition get_grant :: "string \<Rightarrow> string \<Rightarrow> (grant_row list, offline_grant option) tx" where
  "get_grant owner_id grant_id =
     tx_bind (tx_lift (required_id 512 owner_id)) (\<lambda>owner.
     tx_bind (tx_lift (grant_uuid_text grant_id)) (\<lambda>grant.
     tx_bind (text_parameter owner) (\<lambda>_.
     tx_bind (tx_read (find_grant grant owner)) (\<lambda>row. tx_lift (optional_grant row)))))"

definition get_active_for_exchange ::
  "string \<Rightarrow> string \<Rightarrow> int \<Rightarrow> (grant_row list, offline_grant option) tx" where
  "get_active_for_exchange owner_id grant_id as_of =
     tx_bind (tx_lift (required_id 512 owner_id)) (\<lambda>owner.
     tx_bind (tx_lift (grant_uuid_text grant_id)) (\<lambda>grant.
     tx_bind (tx_lift (non_negative_int as_of)) (\<lambda>observed_at.
     tx_bind (text_parameter owner) (\<lambda>_.
     tx_bind (tx_read (List.find (\<lambda>r. gr_id r = grant \<and> gr_user_id r = owner \<and>
         gr_revoked_at r = None \<and> observed_at < gr_expires_at r))) (\<lambda>row.
     tx_lift (optional_grant row))))))"

text \<open>
  \<open>acquired\<close>: the advisory lock of the owner is free; \<open>row_locked\<close>: \<open>FOR UPDATE NOWAIT\<close> on the owner's
  state fails with 55P03; \<open>owner_state\<close>: that state, when there is a row.
\<close>

definition assert_current_grant ::
  "bool \<Rightarrow> bool \<Rightarrow> string option \<Rightarrow> int \<Rightarrow> string \<Rightarrow> string \<Rightarrow> (grant_row list, offline_grant) tx" where
  "assert_current_grant acquired row_locked owner_state now_ms owner_id grant_id =
     tx_bind (tx_lift (required_id 512 owner_id)) (\<lambda>owner.
     tx_bind (tx_lift (grant_uuid_text grant_id)) (\<lambda>grant.
     tx_savepoint (
       tx_bind (text_parameter owner) (\<lambda>_.
       tx_bind (tx_require acquired (err RepositoryConflictError)) (\<lambda>_.
       tx_bind (tx_require (\<not> row_locked) (err RepositoryConflictError)) (\<lambda>_.
       tx_bind (tx_require (case owner_state of None \<Rightarrow> True | Some s \<Rightarrow> s = ''active'')
         (err RepositoryConflictError)) (\<lambda>_.
       tx_bind (tx_read (find_grant grant owner)) (\<lambda>row.
       case row of None \<Rightarrow> tx_raise (err RepositoryConflictError)
       | Some r \<Rightarrow>
         tx_bind (tx_lift (grant_of r)) (\<lambda>record.
         tx_bind (tx_require (og_revoked_at record = None \<and> og_issued_at record \<le> now_ms \<and>
             now_ms < og_expires_at record) (err RepositoryConflictError)) (\<lambda>_.
         tx_return record))))))))))"

definition replace_refresh_token_if_current ::
  "string \<Rightarrow> string \<Rightarrow> ciphertext \<Rightarrow> ciphertext \<Rightarrow> int \<Rightarrow> (grant_row list, offline_grant option) tx" where
  "replace_refresh_token_if_current owner_id grant_id expected_encrypted_refresh_token
       encrypted_refresh_token as_of =
     tx_bind (tx_lift (required_id 512 owner_id)) (\<lambda>owner.
     tx_bind (tx_lift (grant_uuid_text grant_id)) (\<lambda>grant.
     tx_bind (tx_lift (opaque_bytes expected_encrypted_refresh_token)) (\<lambda>expected.
     tx_bind (tx_lift (opaque_bytes encrypted_refresh_token)) (\<lambda>replacement.
     tx_bind (tx_lift (non_negative_int as_of)) (\<lambda>observed.
     tx_bind (text_parameter owner) (\<lambda>_.
     tx_bind (tx_stmt (sql_update grant_row_ok grant_conflict
         (\<lambda>r. gr_id r = grant \<and> gr_user_id r = owner \<and> gr_refresh_token_enc r = expected \<and>
           gr_revoked_at r = None \<and> observed < gr_expires_at r)
         (\<lambda>r. r\<lparr>gr_refresh_token_enc := replacement, gr_updated_at := Some observed\<rparr>))) (\<lambda>rows.
     tx_lift (optional_grant (first_row rows)))))))))"

text \<open>\<open>ORDER BY CASE ... END, issued_at DESC, id\<close>; UUIDs compare like their canonical texts.\<close>

definition latest_key :: "string option \<Rightarrow> grant_row \<Rightarrow> int \<times> int \<times> string" where
  "latest_key agent r =
     (if agent \<noteq> None \<and> gr_agent_id r = agent then 0 else 1, - gr_issued_at r, gr_id r)"

definition find_latest_valid ::
  "string \<Rightarrow> int \<Rightarrow> string option \<Rightarrow> (grant_row list, grant_reference option) tx" where
  "find_latest_valid owner_id as_of agent_id =
     tx_bind (tx_lift (required_id 512 owner_id)) (\<lambda>owner.
     tx_bind (tx_lift (optional_id agent_id)) (\<lambda>agent.
     tx_bind (tx_lift (non_negative_int as_of)) (\<lambda>observed_at.
     tx_bind (text_parameter owner) (\<lambda>_.
     tx_bind (case agent of None \<Rightarrow> tx_return () | Some a \<Rightarrow> text_parameter a) (\<lambda>_.
     tx_bind (tx_read (sql_page (\<lambda>r. gr_user_id r = owner \<and> gr_revoked_at r = None \<and>
         observed_at < gr_expires_at r) (latest_key agent) 1)) (\<lambda>rows.
     case first_row rows of None \<Rightarrow> tx_return None
     | Some r \<Rightarrow> tx_bind (tx_lift (reference_of r)) (\<lambda>x. tx_return (Some x))))))))"

definition revoked_row :: "int \<Rightarrow> grant_row \<Rightarrow> grant_row" where
  "revoked_row observed_at r = r\<lparr>gr_revoked_at := Some observed_at, gr_updated_at := Some observed_at\<rparr>"

definition revoke_grant :: "string \<Rightarrow> string \<Rightarrow> int \<Rightarrow> (grant_row list, revocation_state) tx" where
  "revoke_grant owner_id grant_id revoked_at =
     tx_bind (tx_lift (required_id 512 owner_id)) (\<lambda>owner.
     tx_bind (tx_lift (grant_uuid_text grant_id)) (\<lambda>grant.
     tx_bind (tx_lift (non_negative_int revoked_at)) (\<lambda>observed_at.
     tx_bind (text_parameter owner) (\<lambda>_.
     tx_bind (tx_stmt (sql_update grant_row_ok grant_conflict
         (\<lambda>r. gr_id r = grant \<and> gr_user_id r = owner \<and> gr_revoked_at r = None)
         (revoked_row observed_at))) (\<lambda>rows.
     if length rows = 1 then tx_return GRANT_REVOKED
     else tx_bind (tx_read (find_grant grant owner)) (\<lambda>row.
       tx_return (case row of None \<Rightarrow> GRANT_MISSING | Some _ \<Rightarrow> ALREADY_REVOKED)))))))"

definition revoke_owner :: "string \<Rightarrow> int \<Rightarrow> (grant_row list, nat) tx" where
  "revoke_owner owner_id revoked_at =
     tx_bind (tx_lift (required_id 512 owner_id)) (\<lambda>owner.
     tx_bind (tx_lift (non_negative_int revoked_at)) (\<lambda>observed_at.
     tx_bind (text_parameter owner) (\<lambda>_.
     tx_bind (tx_stmt (sql_update grant_row_ok grant_conflict
         (\<lambda>r. gr_user_id r = owner \<and> gr_revoked_at r = None) (revoked_row observed_at))) (\<lambda>rows.
     tx_return (length rows)))))"

subsection \<open>Rows the methods can read\<close>

definition grant_readable :: "grant_row \<Rightarrow> bool" where
  "grant_readable r \<longleftrightarrow>
     0 \<le> gr_issued_at r \<and> gr_issued_at r < gr_expires_at r \<and>
     \<not> isl (opaque_bytes (gr_refresh_token_enc r)) \<and>
     (\<forall>n \<in> set_option (gr_max_admissions r) \<union> set_option (gr_consumed_admissions r) \<union>
        set_option (gr_revoked_at r) \<union> set_option (gr_created_at r) \<union> set_option (gr_updated_at r). 0 \<le> n) \<and>
     \<not> allowance_inconsistent (gr_max_admissions r) (gr_consumed_admissions r) \<and>
     py_uuid (gr_id r) = Some (gr_id r)"

definition grant_view :: "grant_row \<Rightarrow> offline_grant" where
  "grant_view r = \<lparr>og_grant_id = gr_id r, og_owner_id = gr_user_id r, og_agent_id = gr_agent_id r,
     og_encrypted_refresh_token = gr_refresh_token_enc r, og_issued_at = gr_issued_at r,
     og_expires_at = gr_expires_at r, og_revoked_at = gr_revoked_at r, og_created_at = gr_created_at r,
     og_updated_at = gr_updated_at r, og_max_admissions = gr_max_admissions r,
     og_consumed_admissions = gr_consumed_admissions r\<rparr>"

lemma optional_stored_int_ok: "(\<forall>n \<in> set_option v. 0 \<le> n) \<Longrightarrow> optional_stored_int v = Inr v"
  by (cases v) (auto simp: optional_stored_int_def stored_int_def non_negative_int_def)

lemma grant_of_readable: "grant_readable r \<Longrightarrow> grant_of r = Inr (grant_view r)"
  by (auto simp: grant_of_def grant_readable_def grant_view_def optional_stored_int_ok stored_int_def
      non_negative_int_def stored_uuid_def grant_uuid_text_def opaque_bytes_def split: sum.splits if_splits)

definition grants_ok :: "grant_row list \<Rightarrow> bool" where
  "grants_ok t \<longleftrightarrow> table_ok grant_row_ok grant_conflict t \<and> (\<forall>r \<in> set t. grant_readable r)"

interpretation grants: keyed_table grant_row_ok grant_conflict gr_id
  by unfold_locales (auto simp: grant_conflict_def)

subsection \<open>The ledger of a grant\<close>

definition grant_kept :: "grant_row \<Rightarrow> grant_row \<Rightarrow> bool" where
  "grant_kept r r' \<longleftrightarrow>
     gr_id r' = gr_id r \<and> gr_user_id r' = gr_user_id r \<and> gr_agent_id r' = gr_agent_id r \<and>
     gr_issued_at r' = gr_issued_at r \<and> gr_expires_at r' = gr_expires_at r \<and>
     gr_max_admissions r' = gr_max_admissions r \<and>
     (gr_revoked_at r \<noteq> None \<longrightarrow> gr_revoked_at r' = gr_revoked_at r)"

text \<open>From \<open>t\<close> to \<open>t'\<close> the grant \<open>g\<close>, if it has an allowance, is charged \<open>n\<close> times.\<close>

definition grant_ledger :: "string \<Rightarrow> nat \<Rightarrow> grant_row list \<Rightarrow> grant_row list \<Rightarrow> bool" where
  "grant_ledger g n t t' \<longleftrightarrow>
     (grants_ok t \<longrightarrow> grants_ok t' \<and>
        (\<forall>r \<in> set t. \<exists>r' \<in> set t'. grant_kept r r' \<and>
           (gr_id r = g \<and> gr_max_admissions r \<noteq> None \<longrightarrow>
              gr_consumed_admissions r' = map_option (\<lambda>c. c + int n) (gr_consumed_admissions r))))"

lemma grant_kept_refl: "grant_kept r r"
  by (simp add: grant_kept_def)

lemma grant_kept_trans: "grant_kept r s \<Longrightarrow> grant_kept s u \<Longrightarrow> grant_kept r u"
  by (auto simp: grant_kept_def)

lemma ledger_refl: "grant_ledger g 0 t t"
  by (auto simp: grant_ledger_def option.map_ident intro!: bexI grant_kept_refl)

lemma ledger_trans:
  assumes tu: "grant_ledger g n t u" and uv: "grant_ledger g m u v"
  shows "grant_ledger g (n + m) t v"
  unfolding grant_ledger_def
proof (intro impI conjI ballI)
  assume t: "grants_ok t"
  with tu have u: "grants_ok u" by (simp add: grant_ledger_def)
  with uv show "grants_ok v" by (simp add: grant_ledger_def)
  fix r assume "r \<in> set t"
  with t tu obtain s where s: "s \<in> set u" "grant_kept r s" "gr_id r = g \<and> gr_max_admissions r \<noteq> None \<longrightarrow>
      gr_consumed_admissions s = map_option (\<lambda>c. c + int n) (gr_consumed_admissions r)"
    unfolding grant_ledger_def by blast
  with u uv obtain x where x: "x \<in> set v" "grant_kept s x" "gr_id s = g \<and> gr_max_admissions s \<noteq> None \<longrightarrow>
      gr_consumed_admissions x = map_option (\<lambda>c. c + int m) (gr_consumed_admissions s)"
    unfolding grant_ledger_def by blast
  have "gr_consumed_admissions x = map_option (\<lambda>c. c + int (n + m)) (gr_consumed_admissions r)"
    if "gr_id r = g \<and> gr_max_admissions r \<noteq> None"
    using that s x by (cases "gr_consumed_admissions r") (auto simp: grant_kept_def)
  with x(1) grant_kept_trans [OF s(2) x(2)] show "\<exists>r' \<in> set v. grant_kept r r' \<and>
      (gr_id r = g \<and> gr_max_admissions r \<noteq> None \<longrightarrow>
       gr_consumed_admissions r' = map_option (\<lambda>c. c + int (n + m)) (gr_consumed_admissions r))" by blast
qed

lemma update_ledger:
  assumes upd: "sql_update grant_row_ok grant_conflict w f t = Inr (rows, t')"
    and kept: "\<And>r. w r \<Longrightarrow> grant_kept r (f r)"
    and readable: "\<And>r. w r \<Longrightarrow> grant_readable r \<Longrightarrow> grant_row_ok r \<Longrightarrow> grant_readable (f r)"
    and charge: "\<And>r. grants_ok t \<Longrightarrow> r \<in> set t \<Longrightarrow> gr_id r = g \<Longrightarrow> gr_max_admissions r \<noteq> None \<Longrightarrow>
      gr_consumed_admissions (if w r then f r else r) = map_option (\<lambda>c. c + int n) (gr_consumed_admissions r)"
  shows "grant_ledger g n t t'"
  unfolding grant_ledger_def
proof (intro impI conjI ballI)
  assume t: "grants_ok t"
  from upd have t': "t' = map (\<lambda>r. if w r then f r else r) t"
    by (simp add: sql_update_def Let_def split: if_splits)
  have "table_ok grant_row_ok grant_conflict t'"
    using grants.table_ok_update [OF _ upd] t by (simp add: grants_ok_def)
  moreover have "grant_readable r'" if "r' \<in> set t'" for r'
    using that t readable by (auto simp: t' grants_ok_def table_ok_def)
  ultimately show "grants_ok t'" by (simp add: grants_ok_def)
  fix r assume r: "r \<in> set t"
  have "grant_kept r (if w r then f r else r)" using kept grant_kept_refl by simp
  with r charge [OF t r] show "\<exists>r' \<in> set t'. grant_kept r r' \<and>
      (gr_id r = g \<and> gr_max_admissions r \<noteq> None \<longrightarrow>
       gr_consumed_admissions r' = map_option (\<lambda>c. c + int n) (gr_consumed_admissions r))"
    unfolding t' by (intro bexI [of _ "if w r then f r else r"]) auto
qed

interpretation ledger: step_order "grant_ledger g 0" for g
  by unfold_locales (use ledger_refl ledger_trans [where n = 0 and m = 0] in auto)

lemma text_parameter_ledger: "tx_rel (grant_ledger g 0) (text_parameter s)"
  by (simp add: text_parameter_def ledger.rel_pure)

lemma insert_ledger:
  assumes "sql_insert_or_skip grant_row_ok grant_conflict grant_conflict r t = Inr (x, t')"
    and "grant_readable r"
  shows "grant_ledger g 0 t t'"
proof (cases x)
  case (Some y)
  with assms(1) have t': "t' = t @ [r]" by (auto simp: sql_insert_or_skip_def split: if_splits)
  have "table_ok grant_row_ok grant_conflict t'" if "table_ok grant_row_ok grant_conflict t"
    using grants.table_ok_insert_or_skip [OF that assms(1)] by blast
  with assms(2) show ?thesis
    by (auto simp: grant_ledger_def grants_ok_def t' option.map_ident intro: grant_kept_refl)
next
  case None
  with assms(1) have "t' = t" by (auto simp: sql_insert_or_skip_def split: if_splits)
  then show ?thesis by (simp add: ledger_refl)
qed

lemma create_grant_ledger:
  "tx_rel (grant_ledger g 0) (create_grant gid owner agent token issued expires limit)"
  unfolding create_grant_def
proof (intro ledger.rel_bind_lift ledger.rel_bind_require ledger.rel_bind ledger.rel_option ledger.rel_pure
    ledger.rel_stmt)
  fix grant owner' agent' token' issued' expires' limit' t x t'
  assume *: "grant_uuid_text gid = Inr grant" "opaque_bytes token = Inr token'"
    "non_negative_int issued = Inr issued'" "issued' < expires'" "optional_admission_limit limit = Inr limit'"
    "sql_insert_or_skip grant_row_ok grant_conflict grant_conflict
       \<lparr>gr_id = grant, gr_user_id = owner', gr_agent_id = agent', gr_refresh_token_enc = token',
         gr_issued_at = issued', gr_expires_at = expires', gr_revoked_at = None,
         gr_created_at = Some issued', gr_updated_at = Some issued', gr_max_admissions = limit',
         gr_consumed_admissions = (case limit' of None \<Rightarrow> None | Some _ \<Rightarrow> Some 0)\<rparr> t = Inr (x, t')"
  have "py_uuid grant = Some grant"
    using *(1) py_uuid_canonical by (auto simp: grant_uuid_text_def split: option.splits)
  with *(2-5) show "grant_ledger g 0 t t'"
    by (intro insert_ledger [OF *(6)])
      (auto simp: grant_readable_def opaque_bytes_def allowance_inconsistent_def optional_admission_limit_def
        split: option.splits if_splits)
qed

lemma replace_ledger:
  "tx_rel (grant_ledger g 0) (replace_refresh_token_if_current owner gid expected token at)"
  unfolding replace_refresh_token_if_current_def
proof (intro ledger.rel_bind_lift ledger.rel_bind ledger.rel_pure text_parameter_ledger ledger.rel_stmt)
  fix owner' grant expected' token' at' t rows t'
  assume *: "opaque_bytes token = Inr token'" "non_negative_int at = Inr at'"
    "sql_update grant_row_ok grant_conflict
      (\<lambda>r. gr_id r = grant \<and> gr_user_id r = owner' \<and> gr_refresh_token_enc r = expected' \<and>
         gr_revoked_at r = None \<and> at' < gr_expires_at r)
      (\<lambda>r. r\<lparr>gr_refresh_token_enc := token', gr_updated_at := Some at'\<rparr>) t = Inr (rows, t')"
  show "grant_ledger g 0 t t'"
    by (rule update_ledger [OF *(3)])
      (use *(1,2) in \<open>auto simp: grant_kept_def grant_readable_def opaque_bytes_def option.map_ident
         split: if_splits\<close>)
qed

lemma revoked_row_ledger:
  assumes "sql_update grant_row_ok grant_conflict w (revoked_row at) t = Inr (rows, t')"
    and "\<And>r. w r \<Longrightarrow> gr_revoked_at r = None" and "0 \<le> at"
  shows "grant_ledger g 0 t t'"
  by (rule update_ledger [OF assms(1)])
    (use assms(2,3) in \<open>auto simp: grant_kept_def grant_readable_def revoked_row_def option.map_ident\<close>)

lemma revoke_grant_ledger: "tx_rel (grant_ledger g 0) (revoke_grant owner gid at)"
  unfolding revoke_grant_def
  by (intro ledger.rel_bind_lift ledger.rel_bind ledger.rel_if ledger.rel_pure text_parameter_ledger
      ledger.rel_stmt; erule revoked_row_ledger) auto

lemma revoke_owner_ledger: "tx_rel (grant_ledger g 0) (revoke_owner owner at)"
  unfolding revoke_owner_def
  by (intro ledger.rel_bind_lift ledger.rel_bind ledger.rel_if ledger.rel_pure text_parameter_ledger
      ledger.rel_stmt; erule revoked_row_ledger) auto

text \<open>Charging.\<close>

lemma consume_success:
  assumes "consume_admission owner gid at t = (Inr x, t')"
  obtains u r rows where "py_uuid gid = Some u" "0 \<le> at" "grant_of r = Inr x"
    "sql_update grant_row_ok grant_conflict (chargeable u owner at) (charged at) t = Inr (r # rows, t')"
  using assms unfolding consume_admission_def charge_statement_def grant_uuid_text_def text_parameter_def
  by (auto simp: tx_success split: option.splits)

lemma charged_kept: "grant_kept r (charged at r)"
  by (simp add: grant_kept_def charged_def)

lemma charged_readable:
  "chargeable u owner at r \<Longrightarrow> grant_readable r \<Longrightarrow> grant_row_ok r \<Longrightarrow> 0 \<le> at \<Longrightarrow> grant_readable (charged at r)"
  by (auto simp: grant_readable_def charged_def chargeable_def allowance_inconsistent_def grant_row_ok_def
      grant_allowance_def split: option.splits)

lemma charge_ledger:
  assumes "consume_admission owner gid at t = (Inr x, t')"
  shows "grant_ledger g (if py_uuid gid = Some g then 1 else 0) t t'"
proof -
  from assms obtain u r rows where u: "py_uuid gid = Some u" "0 \<le> at"
    and upd: "sql_update grant_row_ok grant_conflict (chargeable u owner at) (charged at) t = Inr (r # rows, t')"
    by (rule consume_success)
  obtain z where z: "z \<in> set t" "chargeable u owner at z"
    using sql_update_returned(2) [OF upd] by blast
  show ?thesis
  proof (rule update_ledger [OF upd charged_kept charged_readable], assumption+, rule u(2))
    fix s assume s: "grants_ok t" "s \<in> set t" "gr_id s = g" "gr_max_admissions s \<noteq> None"
    have ok: "grant_row_ok s" using s(1,2) by (simp add: grants_ok_def table_ok_def)
    show "gr_consumed_admissions (if chargeable u owner at s then charged at s else s) =
        map_option (\<lambda>c. c + int (if py_uuid gid = Some g then 1 else 0)) (gr_consumed_admissions s)"
    proof (cases "u = g")
      case True
      with s z have "s = z"
        using grants.key_unique [of t s z] by (simp add: grants_ok_def chargeable_def)
      with z True u s(4) ok show ?thesis
        by (auto simp: charged_def grant_row_ok_def grant_allowance_def split: option.splits)
    next
      case False
      with s(3) u show ?thesis by (simp add: chargeable_def option.map_ident)
    qed
  qed
qed

lemma consume_cases:
  assumes "consume_admission owner gid at t = (x, t')"
  obtains "t' = t" | u where "0 \<le> at" "charge_statement owner u at t = (x, t')"
proof (cases "required_id 512 owner")
  case (Inr o')
  show ?thesis
  proof (cases "grant_uuid_text gid")
    case u: (Inr u)
    show ?thesis
      using assms Inr u that unfolding consume_admission_def text_parameter_def non_negative_int_def
      by (auto simp: tx_simps split: if_splits)
  qed (use assms Inr that in \<open>auto simp: consume_admission_def tx_simps\<close>)
qed (use assms that in \<open>auto simp: consume_admission_def tx_simps\<close>)

lemma charge_refused:
  assumes ok: "grants_ok t" and at: "0 \<le> at" and call: "charge_statement owner u at t = (Inl e, t')"
  shows "t' = t"
proof (cases "sql_update grant_row_ok grant_conflict (chargeable u owner at) (charged at) t")
  case (Inl e)
  with call show ?thesis by (simp add: charge_statement_def tx_bind_stmt)
next
  case (Inr y)
  obtain rows t1 where upd: "sql_update grant_row_ok grant_conflict (chargeable u owner at) (charged at) t = Inr (rows, t1)"
    using Inr by (cases y) auto
  show ?thesis
  proof (cases rows)
    case Nil
    from upd have "rows = map (charged at) (filter (chargeable u owner at) t)"
      and t1: "t1 = map (\<lambda>r. if chargeable u owner at r then charged at r else r) t"
      by (auto simp: sql_update_def Let_def split: if_splits)
    with Nil have "\<forall>r \<in> set t. \<not> chargeable u owner at r" by (simp add: filter_empty_conv)
    then have "t1 = t" unfolding t1 by (intro map_idI) simp
    note rest = call upd Nil
    show ?thesis
    proof (cases "find_grant u owner t")
      case (Some x)
      with rest \<open>t1 = t\<close> show ?thesis
        by (cases "grant_of x") (simp_all add: charge_statement_def tx_bind_stmt tx_simps)
    qed (use rest \<open>t1 = t\<close> in \<open>simp add: charge_statement_def tx_bind_stmt tx_simps\<close>)
  next
    case (Cons r rs)
    with upd obtain z where z: "z \<in> set t" "chargeable u owner at z" "r = charged at z"
      using sql_update_returned(2) [of grant_row_ok grant_conflict] by blast
    then have "grant_readable r"
      using ok at charged_readable [OF z(2)] by (simp add: grants_ok_def table_ok_def)
    with call upd Cons show ?thesis
      by (simp add: charge_statement_def tx_bind_stmt tx_lift_def grant_of_readable)
  qed
qed

lemma consume_refused:
  assumes "grants_ok t" and "consume_admission owner gid at t = (Inl e, t')"
  shows "t' = t"
  using assms(2) by (rule consume_cases) (blast intro: charge_refused [OF assms(1)])+

lemma refused_ledger:
  "consume_admission owner gid at t = (Inl e, t') \<Longrightarrow> grant_ledger g 0 t t'"
  using consume_refused ledger_refl [of g t] unfolding grant_ledger_def by blast

subsection \<open>Runs\<close>

text \<open>Calls of the methods that write, with the number of charges of grant \<open>g\<close> they report.\<close>

inductive grant_step :: "string \<Rightarrow> nat \<Rightarrow> grant_row list \<Rightarrow> grant_row list \<Rightarrow> bool" for g where
  create: "create_grant gid owner agent token issued expires limit t = (x, t') \<Longrightarrow> grant_step g 0 t t'"
| charge: "consume_admission owner gid at t = (Inr y, t') \<Longrightarrow>
    grant_step g (if py_uuid gid = Some g then 1 else 0) t t'"
| refused: "consume_admission owner gid at t = (Inl e, t') \<Longrightarrow> grant_step g 0 t t'"
| replace: "replace_refresh_token_if_current owner gid expected token at t = (z, t') \<Longrightarrow> grant_step g 0 t t'"
| revoke: "revoke_grant owner gid at t = (s, t') \<Longrightarrow> grant_step g 0 t t'"
| revoke_all: "revoke_owner owner at t = (n, t') \<Longrightarrow> grant_step g 0 t t'"

inductive grant_run :: "string \<Rightarrow> nat \<Rightarrow> grant_row list \<Rightarrow> grant_row list \<Rightarrow> bool" for g where
  none: "grant_run g 0 t t"
| more: "grant_run g n t u \<Longrightarrow> grant_step g m u v \<Longrightarrow> grant_run g (n + m) t v"

lemma grant_step_ledger: "grant_step g n t t' \<Longrightarrow> grant_ledger g n t t'"
  by (induction rule: grant_step.induct)
    (blast intro: charge_ledger refused_ledger tx_relD [OF create_grant_ledger] tx_relD [OF replace_ledger]
      tx_relD [OF revoke_grant_ledger] tx_relD [OF revoke_owner_ledger])+

lemma grant_run_ledger: "grant_run g n t t' \<Longrightarrow> grant_ledger g n t t'"
  by (induction rule: grant_run.induct) (blast intro: ledger_refl ledger_trans grant_step_ledger)+

subsection \<open>A revoked grant\<close>

definition grant_ended :: "string \<Rightarrow> grant_row list \<Rightarrow> bool" where
  "grant_ended g t \<longleftrightarrow> grants_ok t \<and> (\<forall>r \<in> set t. gr_id r = g \<longrightarrow> gr_revoked_at r \<noteq> None)"

lemma ended_run:
  assumes "grants_ok t" and "r \<in> set t" "gr_id r = g" "gr_revoked_at r \<noteq> None" and "grant_run h n t t'"
  shows "grant_ended g t'"
proof -
  from grant_run_ledger [OF assms(5)] assms(1,2) obtain r' where ok: "grants_ok t'"
    and r': "r' \<in> set t'" "grant_kept r r'" unfolding grant_ledger_def by blast
  have "x = r'" if "x \<in> set t'" "gr_id x = g" for x
    using grants.key_unique [of t' x r'] ok r' that assms(3) by (simp add: grants_ok_def grant_kept_def)
  with ok r' assms(4) show ?thesis unfolding grant_ended_def grant_kept_def by auto
qed

lemma revoke_ends:
  assumes ok: "grants_ok t" and g: "py_uuid gid = Some g"
    and "revoke_grant owner gid at t = (Inr s, t')" "s \<noteq> GRANT_MISSING"
  shows "\<exists>r \<in> set t'. gr_id r = g \<and> gr_revoked_at r \<noteq> None"
proof -
  let ?w = "\<lambda>r. gr_id r = g \<and> gr_user_id r = owner \<and> gr_revoked_at r = None"
  from assms(3) g obtain rows where
    upd: "sql_update grant_row_ok grant_conflict ?w (revoked_row at) t = Inr (rows, t')"
    and s: "length rows \<noteq> 1 \<Longrightarrow> s = (case find_grant g owner t' of None \<Rightarrow> GRANT_MISSING | Some _ \<Rightarrow> ALREADY_REVOKED)"
    unfolding revoke_grant_def grant_uuid_text_def text_parameter_def
    by (auto simp: tx_success split: if_splits)
  show ?thesis
  proof (cases rows)
    case (Cons q qs)
    have "q \<in> set t'" "\<exists>r \<in> set t. ?w r \<and> q = revoked_row at r"
      using sql_update_returned [OF upd [unfolded Cons]] by auto
    then show ?thesis by (intro bexI [of _ q]) (auto simp: revoked_row_def)
  next
    case Nil
    with s assms(4) obtain x where x: "find_grant g owner t' = Some x" by (auto split: option.splits)
    then have x: "x \<in> set t'" "gr_id x = g" "gr_user_id x = owner" by (auto dest: find_SomeD)
    from upd have "rows = map (revoked_row at) (filter ?w t)" and t': "t' = map (\<lambda>r. if ?w r then revoked_row at r else r) t"
      by (auto simp: sql_update_def Let_def split: if_splits)
    with Nil have "\<forall>r \<in> set t. \<not> ?w r" by (simp add: filter_empty_conv)
    then have "t' = t" unfolding t' by (intro map_idI) auto
    with x \<open>\<forall>r \<in> set t. \<not> ?w r\<close> show ?thesis by auto
  qed
qed

lemma ended_not_charged:
  assumes "grant_ended g t" and "py_uuid gid = Some g"
  shows "isl (fst (consume_admission owner gid at t))"
proof (rule ccontr)
  assume "\<not> isl (fst (consume_admission owner gid at t))"
  then obtain x t' where "consume_admission owner gid at t = (Inr x, t')"
    by (metis sum.collapse(2) prod.collapse)
  then obtain u r rows where "py_uuid gid = Some u"
    "sql_update grant_row_ok grant_conflict (chargeable u owner at) (charged at) t = Inr (r # rows, t')"
    by (rule consume_success)
  then obtain z where "z \<in> set t" "chargeable g owner at z"
    using sql_update_returned(2) assms(2) by force
  with assms(1) show False by (auto simp: grant_ended_def chargeable_def)
qed

lemma ended_not_exchanged:
  assumes "grant_ended g t" and "py_uuid gid = Some g"
  shows "fst (get_active_for_exchange owner gid at t) \<noteq> Inr (Some x)"
proof
  assume "fst (get_active_for_exchange owner gid at t) = Inr (Some x)"
  then have "get_active_for_exchange owner gid at t = (Inr (Some x), snd (get_active_for_exchange owner gid at t))"
    by (metis prod.collapse)
  then obtain r where "List.find (\<lambda>r. gr_id r = g \<and> gr_user_id r = owner \<and> gr_revoked_at r = None \<and>
      at < gr_expires_at r) t = Some r" (is "List.find ?p t = _")
    using assms(2) unfolding get_active_for_exchange_def grant_uuid_text_def text_parameter_def optional_grant_def
    by (auto simp: tx_success split: option.splits)
  from find_SomeD [OF this] have "r \<in> set t" "?p r" by blast+
  with assms(1) show False by (auto simp: grant_ended_def)
qed

lemma ended_not_current:
  assumes "grant_ended g t" and "py_uuid gid = Some g"
  shows "isl (fst (assert_current_grant acquired row_locked owner_state now owner gid t))"
proof (rule ccontr)
  assume "\<not> ?thesis"
  then obtain x t' where "assert_current_grant acquired row_locked owner_state now owner gid t = (Inr x, t')"
    by (metis sum.collapse(2) prod.collapse)
  then obtain r where "find_grant g owner t = Some r" "grant_of r = Inr x" "og_revoked_at x = None"
    using assms(2) unfolding assert_current_grant_def grant_uuid_text_def text_parameter_def
    by (auto simp: tx_success)
  then have "r \<in> set t" "gr_id r = g" by (auto dest: find_SomeD)
  moreover from this assms(1) have "grant_of r = Inr (grant_view r)"
    by (simp add: grant_ended_def grants_ok_def grant_of_readable)
  ultimately show False
    using assms(1) \<open>grant_of r = Inr x\<close> \<open>og_revoked_at x = None\<close> by (auto simp: grant_ended_def grant_view_def)
qed

lemma ended_not_replaced:
  assumes "grant_ended g t" and "py_uuid gid = Some g"
  shows "fst (replace_refresh_token_if_current owner gid expected token at t) \<noteq> Inr (Some x)"
proof
  assume *: "fst (replace_refresh_token_if_current owner gid expected token at t) = Inr (Some x)"
  then have "replace_refresh_token_if_current owner gid expected token at t =
      (Inr (Some x), snd (replace_refresh_token_if_current owner gid expected token at t))"
    by (metis prod.collapse)
  then obtain at' token' expected' r rows t' where upd: "sql_update grant_row_ok grant_conflict
      (\<lambda>r. gr_id r = g \<and> gr_user_id r = owner \<and> gr_refresh_token_enc r = expected' \<and>
        gr_revoked_at r = None \<and> at' < gr_expires_at r)
      (\<lambda>r. r\<lparr>gr_refresh_token_enc := token', gr_updated_at := Some at'\<rparr>) t = Inr (r # rows, t')"
    using assms(2) unfolding replace_refresh_token_if_current_def grant_uuid_text_def text_parameter_def
      optional_grant_def
    by (auto simp: tx_success split: option.splits list.splits)
  from sql_update_returned(2) [OF upd] assms(1) show False by (auto simp: grant_ended_def)
qed

lemma ended_not_found:
  assumes "grant_ended g t" and "fst (find_latest_valid owner at agent t) = Inr (Some x)"
  shows "gf_grant_id x \<noteq> g"
proof -
  from assms(2) have "find_latest_valid owner at agent t = (Inr (Some x), snd (find_latest_valid owner at agent t))"
    by (metis prod.collapse)
  then obtain agent' r rs where page: "sql_page (\<lambda>r. gr_user_id r = owner \<and> gr_revoked_at r = None \<and>
      at < gr_expires_at r) (latest_key agent') (Suc 0) t = r # rs" and r: "reference_of r = Inr x"
    unfolding find_latest_valid_def text_parameter_def
    by (auto simp: tx_success first_row_iff split: option.splits list.splits)
  have "r \<in> set t" "gr_revoked_at r = None"
    using sql_page_sound [of r "\<lambda>r. gr_user_id r = owner \<and> gr_revoked_at r = None \<and> at < gr_expires_at r"
        "latest_key agent'" "Suc 0" t] page by simp_all
  moreover have "gf_grant_id x = gr_id r"
  proof -
    have "py_uuid (gr_id r) = Some (gr_id r)"
      using assms(1) \<open>r \<in> set t\<close> by (simp add: grant_ended_def grants_ok_def grant_readable_def)
    with r show ?thesis
      by (auto simp: reference_of_def res_bind_Inr_iff stored_uuid_def grant_uuid_text_def split: if_splits)
  qed
  ultimately show ?thesis using assms(1) by (auto simp: grant_ended_def)
qed

subsection \<open>Properties\<close>

text \<open>
  C12. The allowance of a grant is charged exactly and never exceeded: over any sequence of calls
  that create, charge, rotate and revoke grants, the stored count of a grant with an allowance
  grows by the number of charges that returned, those refused cost nothing, the allowance itself
  never changes, and the count stays within it.
\<close>

theorem allowance_is_exact:
  assumes "grants_ok t" and "grant_run g n t t'"
    and "r \<in> set t" and "gr_id r = g" and "gr_max_admissions r = Some m" and "gr_consumed_admissions r = Some c"
  shows "\<exists>r' \<in> set t'. gr_id r' = g \<and> gr_user_id r' = gr_user_id r \<and> gr_max_admissions r' = Some m \<and>
    gr_consumed_admissions r' = Some (c + int n) \<and> c + int n \<le> m"
proof -
  from grant_run_ledger [OF assms(2)] assms(1,3) obtain r' where ok: "grants_ok t'"
    and r': "r' \<in> set t'" "grant_kept r r'" "gr_id r = g \<and> gr_max_admissions r \<noteq> None \<longrightarrow>
      gr_consumed_admissions r' = map_option (\<lambda>c. c + int n) (gr_consumed_admissions r)"
    unfolding grant_ledger_def by blast
  then have "gr_max_admissions r' = Some m" "gr_consumed_admissions r' = Some (c + int n)"
    using assms(4-6) by (simp_all add: grant_kept_def)
  moreover from ok r'(1) have "grant_allowance r'" by (simp add: grants_ok_def table_ok_def grant_row_ok_def)
  ultimately show ?thesis
    using r' assms(4) by (intro bexI [of _ r']) (auto simp: grant_allowance_def grant_kept_def)
qed

text \<open>
  C13. Revocation is final: once \<open>revoke_grant\<close> has reported a grant as revoked, now or before, no
  later sequence of calls, a repeated creation included, makes the grant usable again. Every later
  charge and every check that it is current raises, it is not given out for an exchange, its token
  is not replaced, and it is never the latest valid grant of its owner.
\<close>

theorem revocation_is_final:
  assumes "grants_ok t" and "py_uuid gid = Some g"
    and "revoke_grant owner gid at t = (Inr s, t1)" and "s \<noteq> GRANT_MISSING" and "grant_run h n t1 t2"
  shows "isl (fst (consume_admission owner' gid at' t2)) \<and>
    isl (fst (assert_current_grant acquired row_locked owner_state now owner' gid t2)) \<and>
    fst (get_active_for_exchange owner' gid at' t2) \<noteq> Inr (Some x) \<and>
    fst (replace_refresh_token_if_current owner' gid expected token at' t2) \<noteq> Inr (Some x) \<and>
    (fst (find_latest_valid owner' at' agent t2) = Inr (Some y) \<longrightarrow> gf_grant_id y \<noteq> g)"
proof -
  have "grants_ok t1"
    using tx_relD [OF revoke_grant_ledger assms(3)] assms(1) by (simp add: grant_ledger_def)
  moreover obtain r where "r \<in> set t1" "gr_id r = g" "gr_revoked_at r \<noteq> None"
    using revoke_ends [OF assms(1-4)] by blast
  ultimately have ended: "grant_ended g t2" using assms(5) by (rule ended_run)
  show ?thesis
    using ended_not_charged [OF ended assms(2)] ended_not_current [OF ended assms(2)]
      ended_not_exchanged [OF ended assms(2)] ended_not_replaced [OF ended assms(2)] ended_not_found [OF ended]
    by (intro conjI impI) blast+
qed

subsection \<open>A sample grant\<close>

definition sample_grant :: grant_row where
  "sample_grant = \<lparr>gr_id = uuid_text 5, gr_user_id = ''ada'', gr_agent_id = None,
     gr_refresh_token_enc = [1, 2], gr_issued_at = 10, gr_expires_at = 100, gr_revoked_at = None,
     gr_created_at = Some 10, gr_updated_at = Some 10, gr_max_admissions = Some 1,
     gr_consumed_admissions = Some 0\<rparr>"

lemma sample_grant_ok: "grants_ok [sample_grant]"
  by (simp add: grants_ok_def table_ok_def grant_readable_def sample_grant_def grant_row_ok_def pg_text_def
      bigint_column_def MAX_BIGINT_def MAX_INTEGER_def grant_allowance_def allowance_inconsistent_def
      opaque_bytes_def py_uuid_uuid_text)

text \<open>The first charge returns, the second is refused.\<close>

definition charged_table :: "grant_row list" where
  "charged_table = [sample_grant\<lparr>gr_consumed_admissions := Some 1, gr_updated_at := Some 20\<rparr>]"

lemma sample_owner: "required_id 512 ''ada'' = Inr ''ada''"
  by (simp add: py_strip_empty_iff py_space_def)

lemma sample_charges:
  "consume_admission ''ada'' (uuid_text 5) 20 [sample_grant] = (Inr (grant_view (hd charged_table)), charged_table)"
  "consume_admission ''ada'' (uuid_text 5) 30 charged_table = (Inl (err RepositoryConflictError), charged_table)"
  "revoke_grant ''ada'' (uuid_text 5) 30 charged_table =
     (Inr GRANT_REVOKED, [(hd charged_table)\<lparr>gr_revoked_at := Some 30, gr_updated_at := Some 30\<rparr>])"
  unfolding consume_admission_def revoke_grant_def sample_owner by code_simp+

lemma sample_run: "grant_run (uuid_text 5) 1 [sample_grant] charged_table"
proof -
  have "grant_step (uuid_text 5) 1 [sample_grant] charged_table"
    using grant_step.charge [OF sample_charges(1), of "uuid_text 5"] by (simp add: py_uuid_uuid_text)
  moreover have "grant_step (uuid_text 5) 0 charged_table charged_table"
    by (rule grant_step.refused [OF sample_charges(2)])
  ultimately show ?thesis
    using grant_run.more [OF grant_run.more [OF grant_run.none]] by fastforce
qed

theorem allowance_is_exact_witness:
  "\<exists>r' \<in> set charged_table. gr_id r' = uuid_text 5 \<and> gr_user_id r' = ''ada'' \<and> gr_max_admissions r' = Some 1 \<and>
     gr_consumed_admissions r' = Some 1 \<and> 1 \<le> (1 :: int)"
  using allowance_is_exact [OF sample_grant_ok sample_run, of sample_grant 1 0] by (simp add: sample_grant_def)

theorem revocation_is_final_witness:
  "isl (fst (consume_admission ''ada'' (uuid_text 5) 40
     [(hd charged_table)\<lparr>gr_revoked_at := Some 30, gr_updated_at := Some 30\<rparr>]))"
proof -
  have "grants_ok charged_table"
    using grant_run_ledger [OF sample_run] sample_grant_ok by (simp add: grant_ledger_def)
  from revocation_is_final [OF this py_uuid_uuid_text sample_charges(3) _ grant_run.none]
  show ?thesis by blast
qed

end
