(* ===== verification/Spec2Isabelle.thy ===== *)
theory Spec2Isabelle
  imports Outbox Transactions StopEpochs AuditPages AuditRetention AuthorityRecovery
    ReconciliationLiveness CompletionWake Revocations OfflineGrants
begin

text \<open>
  Verification of \<open>astralplane\<close>, the data plane that stores the state of the AstralDeep
  orchestrator in PostgreSQL. All paths below are relative to \<open>src/src/astralplane\<close>.

  \<^bold>\<open>The program.\<close> A caller opens a transaction on a pooled connection
  (\<open>database/pool.py\<close>, \<open>database/transaction.py\<close>, statements checked by \<open>database/sql.py\<close>) and
  passes it to repository methods. Each repository checks its arguments, runs a few SQL statements
  under version fences, and raises one of the exceptions of \<open>errors.py\<close> and
  \<open>repositories/__init__.py\<close>. The outbox (\<open>outbox.py\<close>) queues messages in the caller's transaction
  and hands them to workers under leases; the authority repository (\<open>authority/\<close>) writes to it. The
  audit log (\<open>repositories/audit.py\<close>, \<open>audit_retention.py\<close>) chains keyed digests per owner. Stop
  epochs (\<open>repositories/stop_epochs.py\<close>) end the operations bound before a stop. Completion wake
  (\<open>repositories/completion_wake.py\<close>) records observed ends once per key. The revocation queue
  (\<open>repositories/revocations.py\<close>) is drained in pages. Offline grants
  (\<open>repositories/offline_grants.py\<close>) hold encrypted tokens with a finite allowance. After a schema upgrade, reconciliation
  (\<open>reconciliation.py\<close>, \<open>reconciliation_store.py\<close>) runs product hooks once each.

  \<^bold>\<open>How state and effects are modelled.\<close> A table is the list of its rows, a row is a record with the
  columns of the \<open>CREATE TABLE\<close> statement, and the \<open>CHECK\<close> clauses, unique keys and foreign keys are
  predicates that the statement functions of theory \<open>Sql\<close> enforce. A repository method is a function
  \<open>('s, 'a) tx\<close> from the tables to a result or exception and the tables at that moment; whether
  they are kept is the subject of theory \<open>Transactions\<close>. Concurrency appears as sequences of calls
  (the inductive step relations \<open>outbox_step\<close>, \<open>stop_step\<close>, \<open>wake_step\<close>, \<open>queue_step\<close>,
  \<open>grant_step\<close> and those of
  the authority and reconciliation theories), as an argument for what others commit inside a method
  (\<open>race\<close>), and as interleaved locked sections of the pool. Strings range over code points below 256,
  bytes are \<open>8 word\<close> lists, Python integers are \<open>int\<close> with the column ranges as constraints, instants
  are microseconds.

  \<^bold>\<open>Theories.\<close>
  \<^item> \<open>Prelude\<close>, \<open>Errors\<close>, \<open>Sql\<close>: shared text and number functions; exception classes, codes and
    bounded metadata of \<open>errors.py\<close>; transaction steps, statements, and the locales \<open>checked_table\<close>,
    \<open>keyed_table\<close>, \<open>fenced_table\<close>, \<open>step_order\<close> and \<open>fenced_machine\<close> that every component interprets
    on its own tables and step relations.
  \<^item> \<open>Domain\<close>: \<open>domain.py\<close> and the argument checks of \<open>repositories/__init__.py\<close>.
  \<^item> \<open>Sha256\<close>, \<open>Calendar\<close>, \<open>Json\<close>: what the source uses of \<open>hashlib\<close>, \<open>hmac\<close>, \<open>datetime\<close> and
    \<open>json.dumps\<close>, with the lemma that the canonical text determines the value.
  \<^item> \<open>Transactions\<close>: \<open>database/sql.py\<close>, \<open>database/pool.py\<close> (\<open>borrow\<close>, \<open>release\<close>, \<open>shutdown\<close>),
    \<open>database/transaction.py\<close> (\<open>begin\<close>, \<open>execute\<close>, savepoints, \<open>finish\<close>) over a driver that may fail
    at every call. Shown: blocks are atomic and their errors tell what was committed, failed savepoints
    undo or poison unless they nest under one name, the pool accounting is exact under every
    interleaving.
  \<^item> \<open>Outbox\<close>: the six operations of \<open>outbox.py\<close>. Shown: a claim ends at most once, takes the oldest
    due rows, and settlement ends exactly the live claim it names.
  \<^item> \<open>StopEpochs\<close>: the eight operations of \<open>repositories/stop_epochs.py\<close>. Shown: a stop ends what was
    bound before it for good, owners do not affect each other, and a call raises a driver error only
    for a text argument with a NUL character.
  \<^item> \<open>AuditChain\<close>, \<open>AuditPages\<close>, \<open>AuditRetention\<close>: append, verification, listings and pruning. Shown:
    the head commits to the whole chain, appends of events that storage keeps extend it, pages cover
    it, a keyword is taken literally, a prune keeps the head and succeeds on an intact chain. The
    trigger that protects the events from deletion is part of the statement \<open>delete_events\<close>.
  \<^item> \<open>AuthorityModels\<close>, \<open>AuthorityTables\<close>, \<open>AuthorityStore\<close>, \<open>AuthorityFences\<close>, \<open>AuthorityClaims\<close>,
    \<open>AuthorityRecovery\<close>: the value classes of \<open>authority/\<close>, their tables in
    \<open>database/migrations.py\<close>, every method of \<open>authority/repository.py\<close>. Shown: an effect executes
    at most once, a claim is atomic and replays, the watermark is the greatest claim, rows only
    advance, recovery lists every owner with due work or reports a collation it cannot use; when
    exactly a constructed value fits its table.
  \<^item> \<open>Revision\<close>, \<open>ReconciliationStore\<close>, \<open>Reconciliation\<close>, \<open>ReconciliationRuns\<close>,
    \<open>ReconciliationLiveness\<close>: \<open>database/revision.py\<close>, the marker statements, the session and the
    coordinator, and the runner with hooks as arguments. Shown: an attempt runs at most once wherever
    the driver fails, a returning run has completed every hook, a run without faults returns, a
    failing hook is recorded.
  \<^item> \<open>CompletionWake\<close>: \<open>repositories/completion_wake.py\<close> and \<open>database/completion_wake_schema.py\<close>.
    Shown: every receipt is covered by its subscription, and a key is accepted once under concurrent
    commits. The subscription of a replayed receipt is assumed not to be deleted between the
    statements of that replay.
  \<^item> \<open>Revocations\<close>: \<open>repositories/revocations.py\<close>, \<open>repositories/_issuing_identity.py\<close> and the table
    \<open>auth_revocation_queue\<close>. Shown: while the queue changes, a drain cycle ends and
    covers what the queue held at its first page and still holds at its end.
  \<^item> \<open>Uuid\<close>, \<open>OfflineGrants\<close>: \<open>uuid.UUID\<close> on texts, with the lemma that the canonical text reads back;
    the nine methods of \<open>repositories/offline_grants.py\<close> over the table \<open>user_offline_grant\<close>. Shown: the
    allowance of a grant is charged exactly and never exceeded, and revocation is final.

  \<^bold>\<open>Parameters.\<close> What the source takes from elsewhere is an argument: the collation of text columns
  (\<open>coll\<close>), \<open>LOWER\<close> of the database (\<open>lower\<close>), rows locked by others (\<open>locked\<close>), the clock, the keyed
  digest of the audit log, the storage of a JSONB document, the key resolver of the anchors, the
  driver and its fault script, the reconciliation hooks, identifiers drawn by \<open>uuid4\<close> or a sequence,
  and the commits of others inside a method. A theorem states what it needs of them as a hypothesis,
  and its witness instantiates them.

  \<^bold>\<open>Bounds and fuel.\<close> No definition of the program needs fuel: its loops recurse over the rows, hooks
  or arguments they visit. Fuel occurs in two clients that follow page cursors: \<open>walk_pages\<close> ends
  with one more page than the table has rows, \<open>drain_cycle\<close> with one more page than the greatest
  identifier at its first page. SHA-256 runs over its 64 rounds.

  \<^bold>\<open>Not modelled.\<close>
  \<^item> Message texts and tracebacks of exceptions; the metadata of an error where no caller reads it.
  \<^item> \<open>audit_delivery.py\<close> and the repositories that read JSON back, such as \<open>repositories/history.py\<close>,
    \<open>repositories/workspaces.py\<close> and \<open>repositories/preferences.py\<close>: their checks run on what
    \<open>json.loads\<close> gives, a parser with float and escape semantics outside the source.
  \<^item> \<open>blob_store.py\<close>, \<open>immutable_bundle_store.py\<close>, \<open>joint_restore.py\<close>: descriptors, inodes, \<open>fsync\<close>
    and processes; they need a model of a file system, not of tables.
  \<^item> \<open>database/baseline.py\<close>, \<open>database/bootstrap.py\<close>, \<open>database/migrations.py\<close> beyond the table
    definitions: DDL text and catalog queries that the server interprets.
  \<^item> \<open>database/postgres.py\<close>: the construction of the driver's own pool behind a semaphore.
  \<^item> \<open>api.py\<close>, \<open>async_runtime.py\<close>, \<open>endpoint_readiness.py\<close>, \<open>__init__.py\<close>: re-exports, event loop and
    HTTP probes.
  \<^item> The remaining repositories under \<open>repositories/\<close> (scheduler, assignments, work admission and
    others) and \<open>purge.py\<close>, for their size. Each is a set of argument checks and fenced statements
    over its own tables that no modelled component calls.
\<close>

end
